(* ===== verification/Prelude.thy ===== *)
theory Prelude
  imports
    Main
    "HOL-Library.AList"
    "HOL-Library.Char_ord"
    "HOL-Library.List_Lexorder"
    "HOL-Library.Monad_Syntax"
    "HOL-Library.Sublist"
begin

text \<open>
  Shared vocabulary of the development: the model's basic types, the collections of
  rewrite rules the component theories feed, and generic facts on lists, options and
  association lists that several components use.

  Go's \<^verbatim>\<open>string\<close> and \<^verbatim>\<open>[]byte\<close> are both finite byte sequences; both are modelled by
  Isabelle's \<open>string\<close>, whose characters are exactly the 256 byte values.
  A Go \<^verbatim>\<open>map[string]V\<close> is an association list with distinct keys: \<open>map_of\<close> reads it,
  \<open>AList.update\<close> stores, \<open>AList.delete\<close> removes. Its order stands for nothing (wherever the
  code ranges over a map the model sorts the keys or proves the order irrelevant).
\<close>

type_synonym bytes = string
type_synonym 'v gomap = "(string \<times> 'v) list"

named_theorems consume_simps \<open>what a scanner consumes of its input\<close>
named_theorems wf_intros \<open>operations keep the keys of a map distinct\<close>

abbreviation distinct_keys :: "('k \<times> 'v) list \<Rightarrow> bool" where
  "distinct_keys m \<equiv> distinct (map fst m)"

abbreviation the_or :: "'a \<Rightarrow> 'a option \<Rightarrow> 'a" where
  "the_or d x \<equiv> (case x of None \<Rightarrow> d | Some v \<Rightarrow> v)"

text \<open>Go's zero value for a missing string key: \<^verbatim>\<open>m[k]\<close>.\<close>

definition mget :: "string gomap \<Rightarrow> string \<Rightarrow> string" where
  "mget m k = the_or '''' (map_of m k)"

text \<open>\<^verbatim>\<open>_, ok := m[k]\<close>.\<close>

definition mhas :: "'v gomap \<Rightarrow> string \<Rightarrow> bool" where
  "mhas m k = (map_of m k \<noteq> None)"

abbreviation mset_key :: "string \<Rightarrow> 'v \<Rightarrow> 'v gomap \<Rightarrow> 'v gomap" where
  "mset_key k v m \<equiv> AList.update k v m"

lemma mget_update [simp]:
  "mget (AList.update k v m) k' = (if k' = k then v else mget m k')"
  by (simp add: mget_def update_conv')

lemma mhas_update [simp]: "mhas (AList.update k v m) k' = (k' = k \<or> mhas m k')"
  by (simp add: mhas_def update_conv')

lemma map_of_update [simp]:
  "map_of (AList.update k v m) k' = (if k' = k then Some v else map_of m k')"
  by (simp add: update_conv')

lemma distinct_keys_update [wf_intros, simp]:
  "distinct_keys m \<Longrightarrow> distinct_keys (AList.update k v m)"
  by (rule distinct_update)

lemma mhas_iff: "mhas m k \<longleftrightarrow> k \<in> fst ` set m"
  by (simp add: mhas_def map_of_eq_None_iff)

text \<open>
  The loop that fills a map from a list of pairs, a later pair overwriting an earlier one
  with the same key.
\<close>

definition map_from :: "(string \<times> 'v) list \<Rightarrow> 'v gomap" where
  "map_from kvs = foldl (\<lambda>m (k, v). AList.update k v m) [] kvs"

lemma map_of_foldl_update:
  "map_of (foldl (\<lambda>m (k, v). AList.update k v m) m0 kvs) = map_of m0 ++ map_of (rev kvs)"
  by (induction kvs arbitrary: m0) (auto simp: update_conv' map_add_def fun_eq_iff split: option.splits)

lemma map_of_map_from: "map_of (map_from kvs) = map_of (rev kvs)"
  by (simp add: map_from_def map_of_foldl_update)

lemma distinct_foldl_update:
  "distinct_keys m0 \<Longrightarrow> distinct_keys (foldl (\<lambda>m (k, v). AList.update k v m) m0 kvs)"
  by (induction kvs arbitrary: m0) (auto intro: distinct_update)

lemma distinct_map_from [wf_intros, simp]: "distinct_keys (map_from kvs)"
  by (simp add: map_from_def distinct_foldl_update)

lemma update_new: "k \<notin> fst ` set m \<Longrightarrow> AList.update k v m = m @ [(k, v)]"
  by (induction m) auto

lemma foldl_update_new:
  "distinct_keys (m0 @ kvs) \<Longrightarrow> foldl (\<lambda>m (k, v). AList.update k v m) m0 kvs = m0 @ kvs"
proof (induction kvs arbitrary: m0)
  case (Cons kv kvs)
  obtain k v where kv: "kv = (k, v)" by (cases kv)
  with Cons.prems have "AList.update k v m0 = m0 @ [(k, v)]" by (intro update_new) auto
  then show ?case using Cons.IH [of "m0 @ [(k, v)]"] Cons.prems kv by simp
qed simp

lemma map_from_id: "distinct_keys kvs \<Longrightarrow> map_from kvs = kvs"
  by (simp add: map_from_def foldl_update_new)

lemma distinct_keys_sort_key: "distinct_keys kvs \<Longrightarrow> distinct_keys (sort_key f kvs)"
  by (metis distinct_map distinct_sort inj_on_cong set_sort)

lemma distinct_keys_apsnd [simp]: "distinct_keys (map (apsnd f) kvs) \<longleftrightarrow> distinct_keys kvs"
  by (simp add: comp_def)

lemma map_of_apsnd: "map_of (map (apsnd f) kvs) k = map_option f (map_of kvs k)"
  by (induction kvs) auto

lemma those_Some: "(\<And>x. x \<in> set xs \<Longrightarrow> f x = Some (g x)) \<Longrightarrow> those (map f xs) = Some (map g xs)"
  by (induction xs) auto

lemma map_of_eq_by_set:
  "distinct_keys xs \<Longrightarrow> distinct_keys ys \<Longrightarrow> set xs = set ys \<Longrightarrow> map_of xs = map_of ys"
  by (simp add: map_of_inject_set)

lemma map_of_rev_distinct: "distinct_keys kvs \<Longrightarrow> map_of (rev kvs) = map_of kvs"
  by (rule map_of_eq_by_set) (auto simp flip: rev_map)

lemma map_of_sort_key:
  "distinct_keys kvs \<Longrightarrow> map_of (sort_key f kvs) = map_of kvs"
  by (rule map_of_eq_by_set) (simp_all add: distinct_keys_sort_key)

lemma suffix_take_length: "s = v @ r \<Longrightarrow> take (length s - length r) s = v"
  by simp

lemma takeWhile_dropWhile_len: "length (dropWhile P s) \<le> length s"
  by (induction s) auto

end
