(* ===== verification/GoStrings.thy ===== *)
theory GoStrings
  imports Prelude
begin

text \<open>
  The part of Go's \<^verbatim>\<open>strings\<close>, \<^verbatim>\<open>bytes\<close> and \<^verbatim>\<open>net/textproto\<close> packages the program uses, on byte
  lists. Trimming is exact for every byte sequence (the white space of Unicode included).
  Case mapping is exact on ASCII and for the two code points whose simple lower case is
  ASCII (U+0130 and U+212A); other non-ASCII letters are left as they are, which no
  comparison with an ASCII literal can see.
\<close>

subsection \<open>White space\<close>

text \<open>The UTF-8 encodings of the code points for which \<^verbatim>\<open>unicode.IsSpace\<close> holds.\<close>

definition space_seqs :: "string list" where
  "space_seqs =
    [ [CHR 0x09], [CHR 0x0A], [CHR 0x0B], [CHR 0x0C], [CHR 0x0D], [CHR 0x20],
      [CHR 0xC2, CHR 0x85], [CHR 0xC2, CHR 0xA0], [CHR 0xE1, CHR 0x9A, CHR 0x80],
      [CHR 0xE2, CHR 0x80, CHR 0x80], [CHR 0xE2, CHR 0x80, CHR 0x81],
      [CHR 0xE2, CHR 0x80, CHR 0x82], [CHR 0xE2, CHR 0x80, CHR 0x83],
      [CHR 0xE2, CHR 0x80, CHR 0x84], [CHR 0xE2, CHR 0x80, CHR 0x85],
      [CHR 0xE2, CHR 0x80, CHR 0x86], [CHR 0xE2, CHR 0x80, CHR 0x87],
      [CHR 0xE2, CHR 0x80, CHR 0x88], [CHR 0xE2, CHR 0x80, CHR 0x89],
      [CHR 0xE2, CHR 0x80, CHR 0x8A], [CHR 0xE2, CHR 0x80, CHR 0xA8],
      [CHR 0xE2, CHR 0x80, CHR 0xA9], [CHR 0xE2, CHR 0x80, CHR 0xAF],
      [CHR 0xE2, CHR 0x81, CHR 0x9F], [CHR 0xE3, CHR 0x80, CHR 0x80] ]"

fun lead_len :: "string list \<Rightarrow> string \<Rightarrow> nat" where
  "lead_len [] s = 0"
| "lead_len (w # ws) s = (if prefix w s then length w else lead_len ws s)"

function trim_lead :: "string list \<Rightarrow> string \<Rightarrow> string" where
  "trim_lead ws s =
    (if s = [] \<or> lead_len ws s = 0 then s else trim_lead ws (drop (lead_len ws s) s))"
  by pat_completeness auto
termination
  by (relation "measure (\<lambda>(ws, s). length s)") auto

declare trim_lead.simps [simp del]

definition trim_left_space :: "string \<Rightarrow> string" where
  "trim_left_space s = trim_lead space_seqs s"

definition trim_right_space :: "string \<Rightarrow> string" where
  "trim_right_space s = rev (trim_lead (map rev space_seqs) (rev s))"

definition trim_space :: "string \<Rightarrow> string" where
  "trim_space s = trim_right_space (trim_left_space s)"

text \<open>\<^verbatim>\<open>bytes.TrimRight(s, cutset)\<close> for a cutset of ASCII characters.\<close>

definition trim_right :: "char set \<Rightarrow> string \<Rightarrow> string" where
  "trim_right cs s = rev (dropWhile (\<lambda>c. c \<in> cs) (rev s))"

lemma trim_lead_suffix: "suffix (trim_lead ws s) s"
proof (induction ws s rule: trim_lead.induct)
  case (1 ws s)
  show ?case
  proof (cases "s = [] \<or> lead_len ws s = 0")
    case True
    then show ?thesis by (subst trim_lead.simps) simp
  next
    case False
    with "1.IH" have "suffix (trim_lead ws (drop (lead_len ws s) s)) (drop (lead_len ws s) s)"
      by blast
    then have "suffix (trim_lead ws (drop (lead_len ws s) s)) s"
      by (rule suffix_order.trans) (rule suffix_drop)
    with False show ?thesis by (subst trim_lead.simps) simp
  qed
qed

lemma trim_lead_fix: "trim_lead ws (trim_lead ws s) = trim_lead ws s"
proof (induction ws s rule: trim_lead.induct)
  case (1 ws s)
  then show ?case
    by (cases "s = [] \<or> lead_len ws s = 0") (auto simp: trim_lead.simps [of ws s])
qed

lemma trim_lead_id: "lead_len ws s = 0 \<Longrightarrow> trim_lead ws s = s"
  by (subst trim_lead.simps) simp

lemma trim_space_sublist: "sublist (trim_space s) s"
proof -
  have "suffix (trim_left_space s) s"
    by (simp add: trim_left_space_def trim_lead_suffix)
  moreover have "prefix (trim_space s) (trim_left_space s)"
    using trim_lead_suffix [of "map rev space_seqs" "rev (trim_left_space s)"]
    by (simp add: trim_space_def trim_right_space_def suffix_to_prefix)
  ultimately show ?thesis
    by (meson prefix_imp_sublist sublist_order.order.trans suffix_imp_sublist)
qed

lemma length_trim_space: "length (trim_space s) \<le> length s"
  by (rule sublist_length_le) (rule trim_space_sublist)

lemma trim_space_Nil [simp]: "trim_space [] = []"
  using trim_space_sublist [of "[]"] by simp

lemma set_trim_space: "set (trim_space s) \<subseteq> set s"
  using set_mono_sublist [OF trim_space_sublist] .

text \<open>A printable ASCII character is not white space and starts none of its encodings.\<close>

definition plain_ascii :: "char \<Rightarrow> bool" where
  "plain_ascii c \<longleftrightarrow> 0x21 \<le> (of_char c :: nat) \<and> (of_char c :: nat) < 0x80"

lemma lead_len_other:
  "list_all (\<lambda>w. w \<noteq> [] \<and> hd w \<noteq> c) ws \<Longrightarrow> lead_len ws (c # s) = 0"
  by (induction ws) (auto simp: prefix_Cons)

lemma space_seqs_heads:
  "list_all (\<lambda>w. w \<noteq> [] \<and> \<not> plain_ascii (hd w)) space_seqs"
  "list_all (\<lambda>w. w \<noteq> [] \<and> \<not> plain_ascii (hd w)) (map rev space_seqs)"
  by (simp_all add: space_seqs_def plain_ascii_def)

lemma lead_len_plain:
  assumes "plain_ascii c"
  shows "lead_len space_seqs (c # s) = 0" and "lead_len (map rev space_seqs) (c # s) = 0"
  using space_seqs_heads assms
  by (auto intro!: lead_len_other elim!: list.pred_mono_strong)

lemma trim_space_id:
  assumes "s \<noteq> []" "plain_ascii (hd s)" "plain_ascii (last s)"
  shows "trim_space s = s"
proof -
  obtain c t where s: "s = c # t" using assms(1) by (cases s) auto
  have l: "trim_left_space s = s"
    using assms(2) by (simp add: s trim_left_space_def trim_lead_id lead_len_plain)
  obtain t' where "rev s = last s # t'"
    using assms(1) by (metis append_butlast_last_id rev_eq_Cons_iff rev_rev_ident)
  then have "trim_right_space s = s"
    using assms(3) by (metis lead_len_plain(2) rev_rev_ident trim_lead_id trim_right_space_def)
  with l show ?thesis by (simp add: trim_space_def)
qed

subsection \<open>Searching and splitting\<close>

text \<open>\<^verbatim>\<open>strings.Contains\<close>.\<close>

definition contains :: "string \<Rightarrow> string \<Rightarrow> bool" where
  "contains s sub = sublist sub s"

text \<open>
  \<^verbatim>\<open>strings.Cut(s, sep)\<close> for a one-byte separator: what is before the first occurrence, what is
  after it, and whether there is one.
\<close>

fun cut :: "char \<Rightarrow> string \<Rightarrow> string \<times> string \<times> bool" where
  "cut c [] = ([], [], False)"
| "cut c (x # xs) =
    (if x = c then ([], xs, True)
     else (case cut c xs of (a, b, f) \<Rightarrow> (x # a, b, f)))"

lemma cut_found: "cut c s = (a, b, True) \<Longrightarrow> s = a @ c # b \<and> c \<notin> set a"
  by (induction s arbitrary: a) (auto split: prod.splits if_splits)

lemma cut_not_found: "cut c s = (a, b, False) \<Longrightarrow> a = s \<and> b = [] \<and> c \<notin> set s"
  by (induction s arbitrary: a) (auto split: prod.splits if_splits)

lemma cut_append: "c \<notin> set a \<Longrightarrow> cut c (a @ c # b) = (a, b, True)"
  by (induction a) auto

text \<open>\<^verbatim>\<open>strings.Split(s, sep)\<close> for a one-byte separator: never empty.\<close>

fun split_on :: "char \<Rightarrow> string \<Rightarrow> string list" where
  "split_on c [] = [ [] ]"
| "split_on c (x # xs) =
    (if x = c then [] # split_on c xs
     else (case split_on c xs of p # ps \<Rightarrow> (x # p) # ps | [] \<Rightarrow> [ [x] ]))"

lemma split_on_nonempty [simp]: "split_on c s \<noteq> []"
  by (induction s) (auto split: list.splits)

text \<open>\<^verbatim>\<open>strings.Join(parts, sep)\<close>.\<close>

fun join :: "string \<Rightarrow> string list \<Rightarrow> string" where
  "join sep [] = []"
| "join sep [p] = p"
| "join sep (p # q # ps) = p @ sep @ join sep (q # ps)"

lemma join_split_on: "join [c] (split_on c s) = s"
proof (induction s)
  case (Cons x xs)
  then show ?case
    by (cases "split_on c xs" rule: remdups_adj.cases) (auto split: list.splits)
qed simp

lemma split_on_single: "c \<notin> set a \<Longrightarrow> split_on c a = [a]"
  by (induction a) auto

lemma split_on_append: "c \<notin> set a \<Longrightarrow> split_on c (a @ c # b) = a # split_on c b"
  by (induction a) auto

lemma split_on_app:
  "split_on c (a @ b) = butlast (split_on c a) @ split_on c (last (split_on c a) @ b)"
proof (induction a)
  case (Cons x a)
  obtain p ps where "split_on c a = p # ps" by (cases "split_on c a") auto
  moreover obtain q qs where "split_on c (a @ b) = q # qs" by (cases "split_on c (a @ b)") auto
  ultimately show ?case
    using Cons by (cases ps) (auto split: list.splits)
qed simp

lemma split_on_no_sep: "p \<in> set (split_on c s) \<Longrightarrow> c \<notin> set p"
  by (induction s arbitrary: p) (auto split: list.splits if_splits)

lemma split_on_last_single [simp]: "split_on c (last (split_on c a)) = [last (split_on c a)]"
  using split_on_no_sep [of "last (split_on c a)" c a] by (intro split_on_single) simp

lemma join_Cons: "ps \<noteq> [] \<Longrightarrow> join sep (p # ps) = p @ sep @ join sep ps"
  by (cases ps) auto

subsection \<open>Case\<close>

definition lower_char :: "char \<Rightarrow> char" where
  "lower_char c =
    (if 0x41 \<le> (of_char c :: nat) \<and> (of_char c :: nat) \<le> 0x5A
     then char_of (of_char c + (0x20 :: nat)) else c)"

definition upper_char :: "char \<Rightarrow> char" where
  "upper_char c =
    (if 0x61 \<le> (of_char c :: nat) \<and> (of_char c :: nat) \<le> 0x7A
     then char_of (of_char c - (0x20 :: nat)) else c)"

text \<open>
  \<^verbatim>\<open>strings.ToLower\<close>, as far as its callers look at the result: its ASCII letters. U+212A is
  lowered to \<^verbatim>\<open>k\<close> and U+0130 to \<^verbatim>\<open>i\<close>; no other non-ASCII letter gives an ASCII one, and they
  keep their bytes here.
\<close>

fun to_lower :: "string \<Rightarrow> string" where
  "to_lower [] = []"
| "to_lower (c # s) =
    (if prefix [CHR 0xE2, CHR 0x84, CHR 0xAA] (c # s) then CHR ''k'' # to_lower (drop 2 s)
     else if prefix [CHR 0xC4, CHR 0xB0] (c # s) then CHR ''i'' # to_lower (drop 1 s)
     else lower_char c # to_lower s)"

text \<open>
  \<^verbatim>\<open>strings.EqualFold(s, t)\<close> for a \<open>t\<close> of lower case ASCII letters: simple folding identifies
  U+212A with \<^verbatim>\<open>k\<close> and U+017F with \<^verbatim>\<open>s\<close>.
\<close>

fun fold_case :: "string \<Rightarrow> string" where
  "fold_case [] = []"
| "fold_case (c # s) =
    (if prefix [CHR 0xE2, CHR 0x84, CHR 0xAA] (c # s) then CHR ''k'' # fold_case (drop 2 s)
     else if prefix [CHR 0xC5, CHR 0xBF] (c # s) then CHR ''s'' # fold_case (drop 1 s)
     else lower_char c # fold_case s)"

definition equal_fold :: "string \<Rightarrow> string \<Rightarrow> bool" where
  "equal_fold s t \<longleftrightarrow> fold_case s = fold_case t"

definition ascii :: "string \<Rightarrow> bool" where
  "ascii s \<longleftrightarrow> list_all (\<lambda>c. (of_char c :: nat) < 0x80) s"

lemma ascii_Nil [simp]: "ascii []"
  by (simp add: ascii_def)

lemma ascii_Cons [simp]: "ascii (c # s) \<longleftrightarrow> (of_char c :: nat) < 0x80 \<and> ascii s"
  by (simp add: ascii_def)

lemma to_lower_ascii: "ascii s \<Longrightarrow> to_lower s = map lower_char s"
  by (induction s) (auto simp: ascii_def)

lemma fold_case_ascii: "ascii s \<Longrightarrow> fold_case s = map lower_char s"
  by (induction s) (auto simp: ascii_def)

lemma of_char_lower_char:
  "(of_char (lower_char c) :: nat) =
    (if 0x41 \<le> (of_char c :: nat) \<and> (of_char c :: nat) \<le> 0x5A then of_char c + 0x20 else of_char c)"
  by (simp add: lower_char_def of_char_of)

lemma lower_char_idem [simp]: "lower_char (lower_char c) = lower_char c"
  by (rule of_char_eqI [where 'a = nat]) (simp add: of_char_lower_char)

end
