(* ===== verification/Utf8.thy ===== *)
theory Utf8
  imports GoStrings
begin

text \<open>
  Go's \<^verbatim>\<open>unicode/utf8\<close> on byte lists: decoding one rune (a malformed byte is U+FFFD of
  width 1), encoding one rune, validity of a whole string, and the replacement of every
  malformed byte by U+FFFD that \<^verbatim>\<open>encoding/json\<close> performs.
\<close>

abbreviation byte_of :: "char \<Rightarrow> nat" where
  "byte_of c \<equiv> of_char c"

definition rune_error :: nat where
  "rune_error = 0xFFFD"

definition is_cont :: "char \<Rightarrow> bool" where
  "is_cont c \<longleftrightarrow> 0x80 \<le> byte_of c \<and> byte_of c < 0xC0"

text \<open>\<^verbatim>\<open>utf8.DecodeRune\<close>: the rune and its width.\<close>

fun decode_rune :: "string \<Rightarrow> nat \<times> nat" where
  "decode_rune [] = (rune_error, 0)"
| "decode_rune (c0 # s) =
    (let b0 = byte_of c0 in
     if b0 < 0x80 then (b0, 1)
     else if b0 < 0xC2 then (rune_error, 1)
     else if b0 < 0xE0 then
       (case s of
          c1 # _ \<Rightarrow>
            if is_cont c1 then ((b0 - 0xC0) * 64 + (byte_of c1 - 0x80), 2) else (rune_error, 1)
        | _ \<Rightarrow> (rune_error, 1))
     else if b0 < 0xF0 then
       (case s of
          c1 # c2 # _ \<Rightarrow>
            if (if b0 = 0xE0 then 0xA0 else 0x80) \<le> byte_of c1
               \<and> byte_of c1 < (if b0 = 0xED then 0xA0 else 0xC0) \<and> is_cont c2
            then ((b0 - 0xE0) * 4096 + (byte_of c1 - 0x80) * 64 + (byte_of c2 - 0x80), 3)
            else (rune_error, 1)
        | _ \<Rightarrow> (rune_error, 1))
     else if b0 < 0xF5 then
       (case s of
          c1 # c2 # c3 # _ \<Rightarrow>
            if (if b0 = 0xF0 then 0x90 else 0x80) \<le> byte_of c1
               \<and> byte_of c1 < (if b0 = 0xF4 then 0x90 else 0xC0) \<and> is_cont c2 \<and> is_cont c3
            then ((b0 - 0xF0) * 262144 + (byte_of c1 - 0x80) * 4096
                  + (byte_of c2 - 0x80) * 64 + (byte_of c3 - 0x80), 4)
            else (rune_error, 1)
        | _ \<Rightarrow> (rune_error, 1))
     else (rune_error, 1))"

definition surrogate :: "nat \<Rightarrow> bool" where
  "surrogate r \<longleftrightarrow> 0xD800 \<le> r \<and> r < 0xE000"

definition valid_rune :: "nat \<Rightarrow> bool" where
  "valid_rune r \<longleftrightarrow> r < 0x110000 \<and> \<not> surrogate r"

text \<open>\<^verbatim>\<open>utf8.AppendRune\<close>: an invalid rune is written as U+FFFD.\<close>

definition encode_rune :: "nat \<Rightarrow> string" where
  "encode_rune r0 =
    (let r = (if valid_rune r0 then r0 else rune_error) in
     if r < 0x80 then [char_of r]
     else if r < 0x800 then [char_of (0xC0 + r div 64), char_of (0x80 + r mod 64)]
     else if r < 0x10000 then
       [char_of (0xE0 + r div 4096), char_of (0x80 + r div 64 mod 64), char_of (0x80 + r mod 64)]
     else
       [char_of (0xF0 + r div 262144), char_of (0x80 + r div 4096 mod 64),
        char_of (0x80 + r div 64 mod 64), char_of (0x80 + r mod 64)])"

lemma decode_rune_width:
  "s \<noteq> [] \<Longrightarrow> 1 \<le> snd (decode_rune s) \<and> snd (decode_rune s) \<le> length s"
  by (cases s) (auto simp: Let_def split: list.splits)

lemma decode_rune_decreases [termination_simp]:
  "s \<noteq> [] \<Longrightarrow> length s - snd (decode_rune s) < length s"
  using decode_rune_width [of s] by auto

lemma decode_rune_decreases_Cons [simp, termination_simp]:
  "Suc (length t) - snd (decode_rune (c # t)) < Suc (length t)"
  using decode_rune_decreases [of "c # t"] by (metis length_Cons list.distinct(2))

lemma decode_rune_width_le: "snd (decode_rune s) \<le> length s"
  by (cases "s = []") (use decode_rune_width in auto)

lemma char_of_eq_iff: "n < 256 \<Longrightarrow> char_of n = c \<longleftrightarrow> n = byte_of c"
  by (auto simp: of_char_of)

lemma char_of_byte: "char_of (0xEF :: nat) = CHR 0xEF" "char_of (0xBF :: nat) = CHR 0xBF"
    "char_of (0xBD :: nat) = CHR 0xBD"
  by (rule of_char_eqI [where 'a = nat]; simp add: of_char_of)+

lemma byte_of_less: "byte_of c < 256"
  by simp

text \<open>A well-formed sequence is exactly the encoding of its rune.\<close>

definition bad_head :: "string \<Rightarrow> bool" where
  "bad_head s \<longleftrightarrow> decode_rune s = (rune_error, 1)"

lemma base64_digit:
  fixes x c :: nat
  assumes "c < 64"
  shows "(x * 64 + c) div 64 = x" "(x * 64 + c) mod 64 = c"
  using assms by simp_all

lemma arith_two:
  fixes a b :: nat
  assumes "0xC2 \<le> a" "a < 0xE0" "0x80 \<le> b" "b < 0xC0"
  defines "r \<equiv> (a - 0xC0) * 64 + (b - 0x80)"
  shows "0x80 \<le> r" "r < 0x800" "0xC0 + r div 64 = a" "0x80 + r mod 64 = b"
proof -
  obtain a' b' where ab: "a = 0xC0 + a'" "b = 0x80 + b'" "2 \<le> a'" "a' < 32" "b' < 64"
    using assms(1-4) by (intro that[of "a - 0xC0" "b - 0x80"]) auto
  then have r: "r = a' * 64 + b'" by (simp add: r_def)
  show "0x80 \<le> r" "r < 0x800" "0xC0 + r div 64 = a" "0x80 + r mod 64 = b"
    using ab by (simp_all add: r)
qed

lemma arith_three:
  fixes a b c :: nat
  assumes "0xE0 \<le> a" "a < 0xF0" "0x80 \<le> b" "b < 0xC0" "0x80 \<le> c" "c < 0xC0"
    "a = 0xE0 \<longrightarrow> 0xA0 \<le> b" "a = 0xED \<longrightarrow> b < 0xA0"
  defines "r \<equiv> (a - 0xE0) * 4096 + (b - 0x80) * 64 + (c - 0x80)"
  shows "0x800 \<le> r" "r < 0x10000" "\<not> surrogate r"
    "0xE0 + r div 4096 = a" "0x80 + r div 64 mod 64 = b" "0x80 + r mod 64 = c"
proof -
  obtain a' b' c' where ab: "a = 0xE0 + a'" "b = 0x80 + b'" "c = 0x80 + c'"
      "a' < 16" "b' < 64" "c' < 64" "a' = 0 \<longrightarrow> 32 \<le> b'" "a' = 13 \<longrightarrow> b' < 32"
    using assms(1-8) by (intro that[of "a - 0xE0" "b - 0x80" "c - 0x80"]) auto
  then have r: "r = (a' * 64 + b') * 64 + c'" by (simp add: r_def)
  have d: "r div 64 = a' * 64 + b'" "r mod 64 = c'"
    unfolding r using ab by (simp_all only: base64_digit)
  have e: "r div 4096 = a'"
  proof -
    have "r div 4096 = r div 64 div 64" by (simp add: div_mult2_eq[symmetric])
    then show ?thesis using ab by (simp add: d)
  qed
  show "0x800 \<le> r" "r < 0x10000" using ab by (auto simp: r)
  show "\<not> surrogate r"
    using ab by (cases a' "13 :: nat" rule: linorder_cases) (auto simp: r surrogate_def)
  show "0xE0 + r div 4096 = a" "0x80 + r div 64 mod 64 = b" "0x80 + r mod 64 = c"
    using ab by (simp_all only: d e base64_digit)
qed

lemma arith_four:
  fixes a b c d :: nat
  assumes "0xF0 \<le> a" "a < 0xF5" "0x80 \<le> b" "b < 0xC0" "0x80 \<le> c" "c < 0xC0" "0x80 \<le> d" "d < 0xC0"
    "a = 0xF0 \<longrightarrow> 0x90 \<le> b" "a = 0xF4 \<longrightarrow> b < 0x90"
  defines "r \<equiv> (a - 0xF0) * 262144 + (b - 0x80) * 4096 + (c - 0x80) * 64 + (d - 0x80)"
  shows "0x10000 \<le> r" "r < 0x110000" "0xF0 + r div 262144 = a" "0x80 + r div 4096 mod 64 = b"
    "0x80 + r div 64 mod 64 = c" "0x80 + r mod 64 = d"
proof -
  obtain a' b' c' d' where ab: "a = 0xF0 + a'" "b = 0x80 + b'" "c = 0x80 + c'" "d = 0x80 + d'"
      "a' < 5" "b' < 64" "c' < 64" "d' < 64" "a' = 0 \<longrightarrow> 16 \<le> b'" "a' = 4 \<longrightarrow> b' < 16"
    using assms(1-10) by (intro that[of "a - 0xF0" "b - 0x80" "c - 0x80" "d - 0x80"]) auto
  then have r: "r = ((a' * 64 + b') * 64 + c') * 64 + d'" by (simp add: r_def)
  have e1: "r div 64 = (a' * 64 + b') * 64 + c'" "r mod 64 = d'"
    unfolding r using ab by (simp_all only: base64_digit)
  have e2: "r div 4096 = a' * 64 + b'"
  proof -
    have "r div 4096 = r div 64 div 64" by (simp add: div_mult2_eq[symmetric])
    then show ?thesis using ab by (simp add: e1)
  qed
  have e3: "r div 262144 = a'"
  proof -
    have "r div 262144 = r div 4096 div 64" by (simp add: div_mult2_eq[symmetric])
    then show ?thesis using ab by (simp add: e2)
  qed
  show "0x10000 \<le> r" "r < 0x110000" using ab by (auto simp: r)
  show "0xF0 + r div 262144 = a" "0x80 + r div 4096 mod 64 = b"
    "0x80 + r div 64 mod 64 = c" "0x80 + r mod 64 = d"
    using ab by (simp_all only: e1 e2 e3 base64_digit)
qed

text \<open>
  Decoding either meets a malformed byte or returns a valid rune whose encoding is exactly the
  bytes it read.
\<close>

lemma decode_encode_rune:
  assumes "decode_rune s = (r, n)" "s \<noteq> []" "\<not> bad_head s"
  shows "encode_rune r = take n s \<and> valid_rune r"
proof -
  obtain c0 t where s: "s = c0 # t" using assms(2) by (cases s) auto
  let ?b = "byte_of c0"
  have bad: "decode_rune s \<noteq> (rune_error, 1)" using assms(3) by (simp add: bad_head_def)
  consider "?b < 0x80" | "0xC2 \<le> ?b" "?b < 0xE0" | "0xE0 \<le> ?b" "?b < 0xF0"
    | "0xF0 \<le> ?b" "?b < 0xF5"
    using bad by (auto simp: s Let_def split: if_splits)
  then show ?thesis
  proof cases
    case 1
    then show ?thesis using assms(1)
      by (auto simp: s Let_def encode_rune_def valid_rune_def surrogate_def)
  next
    case 2
    with bad obtain c1 t' where t: "t = c1 # t'" and c1: "is_cont c1"
      by (auto simp: s Let_def split: list.splits if_splits)
    note ar = arith_two [OF 2, of "byte_of c1"]
    from c1 have c1': "0x80 \<le> byte_of c1" "byte_of c1 < 0xC0" by (auto simp: is_cont_def)
    from 2 t c1 assms(1) have r: "r = (?b - 0xC0) * 64 + (byte_of c1 - 0x80)" and n: "n = 2"
      by (auto simp: s Let_def)
    from ar [OF c1', folded r] show ?thesis
      by (simp add: n s t encode_rune_def valid_rune_def surrogate_def Let_def)
  next
    case 3
    with bad obtain c1 c2 t' where t: "t = c1 # c2 # t'"
      by (auto simp: s Let_def split: list.splits if_splits)
    with 3 bad have c: "0x80 \<le> byte_of c1" "byte_of c1 < 0xC0" "is_cont c2"
        "?b = 0xE0 \<longrightarrow> 0xA0 \<le> byte_of c1" "?b = 0xED \<longrightarrow> byte_of c1 < 0xA0"
      by (auto simp: s Let_def split: if_splits)
    then have c2: "0x80 \<le> byte_of c2" "byte_of c2 < 0xC0" by (auto simp: is_cont_def)
    note ar = arith_three [OF 3 c(1,2) c2 c(4,5)]
    from 3 t c assms(1)
    have r: "r = (?b - 0xE0) * 4096 + (byte_of c1 - 0x80) * 64 + (byte_of c2 - 0x80)" and n: "n = 3"
      by (auto simp: s Let_def split: if_splits)
    from ar [folded r] show ?thesis
      by (simp add: n s t encode_rune_def valid_rune_def Let_def)
  next
    case 4
    with bad obtain c1 c2 c3 t' where t: "t = c1 # c2 # c3 # t'"
      by (auto simp: s Let_def split: list.splits if_splits)
    with 4 bad have c: "0x80 \<le> byte_of c1" "byte_of c1 < 0xC0" "is_cont c2" "is_cont c3"
        "?b = 0xF0 \<longrightarrow> 0x90 \<le> byte_of c1" "?b = 0xF4 \<longrightarrow> byte_of c1 < 0x90"
      by (auto simp: s Let_def split: if_splits)
    then have c2: "0x80 \<le> byte_of c2" "byte_of c2 < 0xC0" "0x80 \<le> byte_of c3" "byte_of c3 < 0xC0"
      by (auto simp: is_cont_def)
    note ar = arith_four [OF 4 c(1,2) c2 c(5,6)]
    from 4 t c assms(1)
    have r: "r = (?b - 0xF0) * 262144 + (byte_of c1 - 0x80) * 4096
              + (byte_of c2 - 0x80) * 64 + (byte_of c3 - 0x80)" and n: "n = 4"
      by (auto simp: s Let_def split: if_splits)
    from ar [folded r] show ?thesis
      by (simp add: n s t encode_rune_def valid_rune_def surrogate_def Let_def)
  qed
qed

subsection \<open>Encoding, then decoding\<close>

lemma byte_of_char_of: "n < 256 \<Longrightarrow> byte_of (char_of n) = n"
  by (simp add: of_char_of)

lemma digits64:
  fixes r :: nat
  shows "(r div 64) * 64 + r mod 64 = r"
    "(r div 4096) * 4096 + (r div 64 mod 64) * 64 + r mod 64 = r"
    "(r div 262144) * 262144 + (r div 4096 mod 64) * 4096 + (r div 64 mod 64) * 64 + r mod 64 = r"
proof -
  have a: "x div 4096 = x div 64 div 64" "x div 262144 = x div 64 div 64 div 64" for x :: nat
    by (simp_all add: div_mult2_eq[symmetric])
  have b: "x = x div 64 * 64 + x mod 64" for x :: nat by simp
  show "(r div 64) * 64 + r mod 64 = r" by simp
  show "(r div 4096) * 4096 + (r div 64 mod 64) * 64 + r mod 64 = r"
    unfolding a using b [of r] b [of "r div 64"] by linarith
  show "(r div 262144) * 262144 + (r div 4096 mod 64) * 4096 + (r div 64 mod 64) * 64 + r mod 64 = r"
    unfolding a using b [of r] b [of "r div 64"] b [of "r div 64 div 64"] by linarith
qed

lemma decode_encode_rune_id:
  assumes "valid_rune r"
  shows "decode_rune (encode_rune r @ s) = (r, length (encode_rune r))"
proof -
  consider "r < 0x80" | "0x80 \<le> r" "r < 0x800" | "0x800 \<le> r" "r < 0x10000"
    | "0x10000 \<le> r" "r < 0x110000"
    using assms by (force simp: valid_rune_def)
  then show ?thesis
  proof cases
    case 1
    with assms show ?thesis by (simp add: encode_rune_def Let_def byte_of_char_of)
  next
    case 2
    then have b: "2 \<le> r div 64" "r div 64 < 32" by (auto simp: div_less_iff_less_mult less_eq_div_iff_mult_less_eq)
    with 2 assms show ?thesis
      by (simp add: encode_rune_def Let_def byte_of_char_of is_cont_def digits64)
  next
    case 3
    let ?a = "r div 4096" and ?b = "r div 64 mod 64" and ?c = "r mod 64"
    have d: "?a * 4096 + ?b * 64 + ?c = r" by (rule digits64)
    have l: "?a < 16" "?b < 64" "?c < 64" using 3 by (auto simp: div_less_iff_less_mult)
    have "?a = 0 \<longrightarrow> 32 \<le> ?b" using d l 3 by arith
    moreover have "?a = 13 \<longrightarrow> ?b < 32"
      using d l 3 assms unfolding valid_rune_def surrogate_def by arith
    moreover have "encode_rune r = [char_of (0xE0 + ?a), char_of (0x80 + ?b), char_of (0x80 + ?c)]"
      using 3 assms by (simp add: encode_rune_def Let_def)
    ultimately show ?thesis using d l
      by (simp add: Let_def byte_of_char_of is_cont_def)
  next
    case 4
    let ?a = "r div 262144" and ?b = "r div 4096 mod 64" and ?c = "r div 64 mod 64" and ?d = "r mod 64"
    have d: "?a * 262144 + ?b * 4096 + ?c * 64 + ?d = r" by (rule digits64)
    have l: "?a < 5" "?b < 64" "?c < 64" "?d < 64" using 4 by (auto simp: div_less_iff_less_mult)
    have "?a = 0 \<longrightarrow> 16 \<le> ?b" using d l 4 by arith
    moreover have "?a = 4 \<longrightarrow> ?b < 16" using d l 4 by arith
    moreover have "encode_rune r =
        [char_of (0xF0 + ?a), char_of (0x80 + ?b), char_of (0x80 + ?c), char_of (0x80 + ?d)]"
      using 4 assms by (simp add: encode_rune_def Let_def)
    ultimately show ?thesis using d l
      by (simp add: Let_def byte_of_char_of is_cont_def)
  qed
qed

lemma encode_rune_nonempty [simp]: "encode_rune r \<noteq> []"
  by (simp add: encode_rune_def Let_def)

lemma valid_rune_error [simp]: "valid_rune rune_error"
  by (simp add: valid_rune_def rune_error_def surrogate_def)

lemma encode_rune_error: "encode_rune rune_error = [CHR 0xEF, CHR 0xBF, CHR 0xBD]"
proof -
  have "encode_rune rune_error = [char_of (0xEF :: nat), char_of (0xBF :: nat), char_of (0xBD :: nat)]"
    by (simp add: encode_rune_def rune_error_def valid_rune_def surrogate_def)
  then show ?thesis by (simp only: char_of_byte)
qed

lemma encode_rune_length3: "length (encode_rune rune_error) = 3"
  by (simp add: encode_rune_error)

subsection \<open>Whole strings\<close>

text \<open>\<^verbatim>\<open>utf8.ValidString\<close>.\<close>

function valid_utf8 :: "string \<Rightarrow> bool" where
  "valid_utf8 s =
    (if s = [] then True
     else if bad_head s then False
     else valid_utf8 (drop (snd (decode_rune s)) s))"
  by pat_completeness auto
termination
  by (relation "measure length") (auto simp: decode_rune_decreases)

text \<open>Every malformed byte replaced by U+FFFD.\<close>

function sanitize :: "string \<Rightarrow> string" where
  "sanitize s =
    (if s = [] then []
     else encode_rune (fst (decode_rune s)) @ sanitize (drop (snd (decode_rune s)) s))"
  by pat_completeness auto
termination
  by (relation "measure length") (auto simp: decode_rune_decreases)

declare valid_utf8.simps [simp del] sanitize.simps [simp del]

lemma valid_utf8_Nil [simp]: "valid_utf8 []"
  by (subst valid_utf8.simps) simp

lemma sanitize_Nil [simp]: "sanitize [] = []"
  by (subst sanitize.simps) simp

lemma decode_rune_encode_step:
  assumes "s \<noteq> []" "\<not> bad_head s"
  shows "encode_rune (fst (decode_rune s)) @ drop (snd (decode_rune s)) s = s"
  using decode_encode_rune [of s "fst (decode_rune s)" "snd (decode_rune s)"] assms
  by (metis append_take_drop_id prod.collapse)

lemma decode_rune_valid: "valid_rune (fst (decode_rune s))"
proof (cases "s = [] \<or> bad_head s")
  case True
  then show ?thesis by (auto simp: bad_head_def)
next
  case False
  then show ?thesis
    using decode_encode_rune [of s "fst (decode_rune s)" "snd (decode_rune s)"] by simp
qed

lemma sanitize_valid: "valid_utf8 s \<Longrightarrow> sanitize s = s"
proof (induction s rule: sanitize.induct)
  case (1 s)
  show ?case
  proof (cases "s = []")
    case False
    with "1.prems" have "\<not> bad_head s" "valid_utf8 (drop (snd (decode_rune s)) s)"
      by (auto simp: valid_utf8.simps [of s] split: if_splits)
    with False "1.IH" show ?thesis
      by (simp add: sanitize.simps [of s] decode_rune_encode_step)
  qed simp
qed

lemma valid_utf8_append_rune: "valid_rune r \<Longrightarrow> valid_utf8 (encode_rune r @ s) \<longleftrightarrow> valid_utf8 s"
  using encode_rune_length3
  by (subst valid_utf8.simps) (auto simp: decode_encode_rune_id bad_head_def)

lemma valid_utf8_sanitize: "valid_utf8 (sanitize s)"
proof (induction s rule: sanitize.induct)
  case (1 s)
  then show ?case
    by (subst sanitize.simps) (auto simp: valid_utf8_append_rune decode_rune_valid)
qed

lemma sanitize_append_rune: "valid_rune r \<Longrightarrow> sanitize (encode_rune r @ s) = encode_rune r @ sanitize s"
  by (subst sanitize.simps) (simp add: decode_encode_rune_id)

lemma encode_rune_ascii: "byte_of c < 0x80 \<Longrightarrow> encode_rune (byte_of c) = [c]"
  by (simp add: encode_rune_def valid_rune_def surrogate_def Let_def)

lemma valid_utf8_ascii: "ascii s \<Longrightarrow> valid_utf8 s"
proof (induction s)
  case (Cons c s)
  then have "valid_utf8 (encode_rune (byte_of c) @ s)"
    by (subst valid_utf8_append_rune) (auto simp: valid_rune_def surrogate_def)
  with Cons.prems show ?case by (simp add: encode_rune_ascii)
qed simp

lemma encode_rune_high:
  assumes "valid_rune r" "0x80 \<le> r"
  shows "\<forall>c \<in> set (encode_rune r). 0x80 \<le> byte_of c"
proof -
  consider "r < 0x800" | "0x800 \<le> r" "r < 0x10000" | "0x10000 \<le> r" "r < 0x110000"
    using assms by (force simp: valid_rune_def)
  then show ?thesis
  proof cases
    case 1
    with assms have "r div 64 < 32" by (simp add: div_less_iff_less_mult)
    with 1 assms show ?thesis by (simp add: encode_rune_def byte_of_char_of)
  next
    case 2
    then have "r div 4096 < 16" by (simp add: div_less_iff_less_mult)
    with 2 assms show ?thesis by (simp add: encode_rune_def byte_of_char_of)
  next
    case 3
    then have "r div 262144 < 5" by (simp add: div_less_iff_less_mult)
    with 3 assms show ?thesis by (simp add: encode_rune_def byte_of_char_of)
  qed
qed

lemma decode_rune_high:
  assumes "s \<noteq> []" "0x80 \<le> byte_of (hd s)" "\<not> bad_head s"
  shows "\<forall>c \<in> set (take (snd (decode_rune s)) s). 0x80 \<le> byte_of c"
proof -
  let ?r = "fst (decode_rune s)" and ?n = "snd (decode_rune s)"
  have e: "encode_rune ?r = take ?n s" "valid_rune ?r"
    using decode_encode_rune [of s ?r ?n] assms by simp_all
  have "\<not> ?r < 0x80"
  proof
    assume "?r < 0x80"
    with e(2) have "encode_rune ?r = [char_of ?r]" by (simp add: encode_rune_def)
    with e(1) \<open>s \<noteq> []\<close> have "hd s = char_of ?r" by (cases s; cases ?n) auto
    with \<open>?r < 0x80\<close> assms(2) show False by (simp add: byte_of_char_of)
  qed
  with e show ?thesis using encode_rune_high [of ?r] by simp
qed

declare decode_rune.simps(2) [simp del]

end
