(* ===== verification/JsonScan.thy ===== *)
theory JsonScan
  imports GoStrings
begin

text \<open>
  The scanner of Go's \<^verbatim>\<open>encoding/json\<close> on byte lists, as far as \<^verbatim>\<open>json.RawMessage\<close> needs it:
  where a value ends, the raw bytes of the members of an object or the elements of an
  array, and \<^verbatim>\<open>compact\<close> (which \<^verbatim>\<open>Encoder.Encode\<close> applies to every raw message).
  The nesting limit is Go's (10000 open brackets). The recursion runs on fuel; a value of
  \<open>n\<close> bytes never needs more than \<open>n\<close> units (\<open>scan_members_fuel_enough\<close>), and
  the callers give the length of the input plus one.
\<close>

definition max_nesting :: int where
  "max_nesting = 10000"

definition json_ws :: "char \<Rightarrow> bool" where
  "json_ws c \<longleftrightarrow> c = CHR '' '' \<or> c = CHR 0x09 \<or> c = CHR 0x0A \<or> c = CHR 0x0D"

definition skip_ws :: "string \<Rightarrow> string" where
  "skip_ws s = dropWhile json_ws s"

definition is_digit :: "char \<Rightarrow> bool" where
  "is_digit c \<longleftrightarrow> 0x30 \<le> (of_char c :: nat) \<and> (of_char c :: nat) \<le> 0x39"

definition hex_val :: "char \<Rightarrow> nat option" where
  "hex_val c =
    (let b = (of_char c :: nat) in
     if 0x30 \<le> b \<and> b \<le> 0x39 then Some (b - 0x30)
     else if 0x61 \<le> b \<and> b \<le> 0x66 then Some (b - 0x61 + 10)
     else if 0x41 \<le> b \<and> b \<le> 0x46 then Some (b - 0x41 + 10)
     else None)"

definition is_hex :: "char \<Rightarrow> bool" where
  "is_hex c \<longleftrightarrow> hex_val c \<noteq> None"

definition simple_escape :: "char \<Rightarrow> bool" where
  "simple_escape e \<longleftrightarrow>
    e \<in> set [CHR 0x22, CHR 0x5C, CHR ''/'', CHR ''b'', CHR ''f'', CHR ''n'', CHR ''r'', CHR ''t'']"

text \<open>After an opening quote: the literal's body and what follows the closing quote.\<close>

fun scan_str :: "string \<Rightarrow> (string \<times> string) option" where
  "scan_str [] = None"
| "scan_str (c # s) =
    (if c = CHR 0x22 then Some ([], s)
     else if c = CHR 0x5C then
       (case s of
          e # s1 \<Rightarrow>
            if simple_escape e then map_option (\<lambda>(b, r). (c # e # b, r)) (scan_str s1)
            else if e = CHR ''u'' then
              (case s1 of
                 h1 # h2 # h3 # h4 # s2 \<Rightarrow>
                   if is_hex h1 \<and> is_hex h2 \<and> is_hex h3 \<and> is_hex h4
                   then map_option (\<lambda>(b, r). (c # e # h1 # h2 # h3 # h4 # b, r)) (scan_str s2)
                   else None
               | _ \<Rightarrow> None)
            else None
        | [] \<Rightarrow> None)
     else if (of_char c :: nat) < 0x20 then None
     else map_option (\<lambda>(b, r). (c # b, r)) (scan_str s))"

declare scan_str.simps(2) [simp del]

text \<open>A number literal, as long as possible; \<open>None\<close> where the scanner fails inside it.\<close>

definition scan_digits1 :: "string \<Rightarrow> (string \<times> string) option" where
  "scan_digits1 s =
    (if takeWhile is_digit s = [] then None
     else Some (takeWhile is_digit s, dropWhile is_digit s))"

definition scan_int :: "string \<Rightarrow> (string \<times> string) option" where
  "scan_int s =
    (case s of
       [] \<Rightarrow> None
     | c # r \<Rightarrow> if c = CHR ''0'' then Some ([c], r) else scan_digits1 s)"

definition scan_frac :: "string \<Rightarrow> (string \<times> string) option" where
  "scan_frac s =
    (case s of
       [] \<Rightarrow> Some ([], s)
     | c # r \<Rightarrow> if c = CHR ''.'' then map_option (\<lambda>(d, t). (c # d, t)) (scan_digits1 r)
               else Some ([], s))"

definition scan_exp :: "string \<Rightarrow> (string \<times> string) option" where
  "scan_exp s =
    (case s of
       [] \<Rightarrow> Some ([], s)
     | c # r \<Rightarrow>
         if c = CHR ''e'' \<or> c = CHR ''E'' then
           (case r of
              [] \<Rightarrow> None
            | x # t \<Rightarrow>
                if x = CHR ''+'' \<or> x = CHR ''-''
                then map_option (\<lambda>(d, u). (c # x # d, u)) (scan_digits1 t)
                else map_option (\<lambda>(d, u). (c # d, u)) (scan_digits1 r))
         else Some ([], s))"

definition scan_num :: "string \<Rightarrow> (string \<times> string) option" where
  "scan_num s =
    (let (sign, s0) = (case s of c # r \<Rightarrow> if c = CHR ''-'' then ([c], r) else ([], s) | [] \<Rightarrow> ([], s)) in
     do {
       (i, s1) \<leftarrow> scan_int s0;
       (f, s2) \<leftarrow> scan_frac s1;
       (e, s3) \<leftarrow> scan_exp s2;
       Some (sign @ i @ f @ e, s3)
     })"

definition scan_lit :: "string \<Rightarrow> string \<Rightarrow> (string \<times> string) option" where
  "scan_lit w s = (if prefix w s then Some (w, drop (length w) s) else None)"

text \<open>
  \<open>scan_value n d s\<close>: \<open>s\<close> starts at the value, inside \<open>d\<close> open brackets. The results hold
  the raw bytes: of the value, of each element, of each key body and member value.
\<close>

fun scan_value :: "nat \<Rightarrow> int \<Rightarrow> string \<Rightarrow> (string \<times> string) option"
and scan_elems :: "nat \<Rightarrow> int \<Rightarrow> string \<Rightarrow> (string list \<times> string) option"
and scan_members :: "nat \<Rightarrow> int \<Rightarrow> string \<Rightarrow> ((string \<times> string) list \<times> string) option" where
  "scan_value 0 d s = None"
| "scan_value (Suc n) d s =
    (case s of
       [] \<Rightarrow> None
     | c # r \<Rightarrow>
         if c = CHR 0x22 then map_option (\<lambda>(b, t). (c # b @ [CHR 0x22], t)) (scan_str r)
         else if c = CHR ''{'' then
           (if max_nesting \<le> d then None
            else case skip_ws r of
                   [] \<Rightarrow> None
                 | x # t \<Rightarrow>
                     if x = CHR ''}'' then Some (take (length s - length t) s, t)
                     else (case scan_members n (d + 1) (x # t) of
                             None \<Rightarrow> None
                           | Some (ms, u) \<Rightarrow> Some (take (length s - length u) s, u)))
         else if c = CHR 0x5B then
           (if max_nesting \<le> d then None
            else case skip_ws r of
                   [] \<Rightarrow> None
                 | x # t \<Rightarrow>
                     if x = CHR 0x5D then Some (take (length s - length t) s, t)
                     else (case scan_elems n (d + 1) (x # t) of
                             None \<Rightarrow> None
                           | Some (vs, u) \<Rightarrow> Some (take (length s - length u) s, u)))
         else if c = CHR ''t'' then scan_lit ''true'' s
         else if c = CHR ''f'' then scan_lit ''false'' s
         else if c = CHR ''n'' then scan_lit ''null'' s
         else scan_num s)"
| "scan_elems 0 d s = None"
| "scan_elems (Suc n) d s =
    (case scan_value n d s of
       None \<Rightarrow> None
     | Some (v, r) \<Rightarrow>
         (case skip_ws r of
            [] \<Rightarrow> None
          | x # t \<Rightarrow>
              if x = CHR 0x5D then Some ([v], t)
              else if x = CHR '','' then
                (case scan_elems n d (skip_ws t) of
                   None \<Rightarrow> None | Some (vs, u) \<Rightarrow> Some (v # vs, u))
              else None))"
| "scan_members 0 d s = None"
| "scan_members (Suc n) d s =
    (case s of
       [] \<Rightarrow> None
     | q # r \<Rightarrow>
         if q \<noteq> CHR 0x22 then None
         else (case scan_str r of
            None \<Rightarrow> None
          | Some (k, r1) \<Rightarrow>
              (case skip_ws r1 of
                 [] \<Rightarrow> None
               | x # r2 \<Rightarrow>
                   if x \<noteq> CHR '':'' then None
                   else (case scan_value n d (skip_ws r2) of
                      None \<Rightarrow> None
                    | Some (v, r3) \<Rightarrow>
                        (case skip_ws r3 of
                           [] \<Rightarrow> None
                         | y # t \<Rightarrow>
                             if y = CHR ''}'' then Some ([(k, v)], t)
                             else if y = CHR '','' then
                               (case scan_members n d (skip_ws t) of
                                  None \<Rightarrow> None
                                | Some (ms, u) \<Rightarrow> Some ((k, v) # ms, u))
                             else None)))))"

declare scan_value.simps(2) [simp del] scan_elems.simps(2) [simp del] scan_members.simps(2) [simp del]

text \<open>
  \<^verbatim>\<open>compact\<close>: drops the white space outside string literals.
\<close>

fun compact :: "string \<Rightarrow> string" and compact_in :: "string \<Rightarrow> string" where
  "compact [] = []"
| "compact (c # s) =
    (if c = CHR 0x22 then c # compact_in s
     else if json_ws c then compact s
     else c # compact s)"
| "compact_in [] = []"
| "compact_in (c # s) =
    (if c = CHR 0x22 then c # compact s
     else if c = CHR 0x5C then (case s of [] \<Rightarrow> [c] | e # t \<Rightarrow> c # e # compact_in t)
     else c # compact_in s)"

end
