(* ===== verification/JsonGrammar.thy ===== *)
theory JsonGrammar
  imports JsonScan
begin

text \<open>
  The JSON grammar as an inductive specification over raw text, with the nesting limit, and
  the two directions of its agreement with the scanner: what the scanner accepts is derivable
  (\<open>scan_sound\<close>), and derivable text is scanned back whole, with fuel its own length
  (\<open>scan_complete\<close>). Facts about the scanner are then proved by rule induction
  on the grammar.
\<close>

subsection \<open>String and number literals\<close>

definition str_body :: "string \<Rightarrow> bool" where
  "str_body b \<longleftrightarrow> scan_str (b @ [CHR 0x22]) = Some (b, [])"

lemma scan_str_SomeE:
  assumes "scan_str (c # s) = Some (b, r)"
  obtains (close_quote) "c = CHR 0x22" "b = []" "r = s"
  | (escape) e s1 b1 where "c = CHR 0x5C" "s = e # s1" "simple_escape e" "b = c # e # b1"
      "scan_str s1 = Some (b1, r)"
  | (unicode) h1 h2 h3 h4 s1 b1 where "c = CHR 0x5C" "s = CHR ''u'' # h1 # h2 # h3 # h4 # s1"
      "is_hex h1" "is_hex h2" "is_hex h3" "is_hex h4"
      "b = c # CHR ''u'' # h1 # h2 # h3 # h4 # b1" "scan_str s1 = Some (b1, r)"
  | (plain) b1 where "c \<noteq> CHR 0x22" "c \<noteq> CHR 0x5C" "0x20 \<le> (of_char c :: nat)" "b = c # b1"
      "scan_str s = Some (b1, r)"
  using assms unfolding scan_str.simps(2)
  by (simp split: if_splits list.splits; clarsimp; blast)

lemma not_simple_escape_u: "\<not> simple_escape CHR ''u''"
  by (simp add: simple_escape_def)

lemma scan_str_escape: "simple_escape e \<Longrightarrow>
    scan_str (CHR 0x5C # e # s) = map_option (\<lambda>(b, r). (CHR 0x5C # e # b, r)) (scan_str s)"
  by (simp add: scan_str.simps(2) [of "CHR 0x5C"])

lemma scan_str_unicode: "is_hex h1 \<Longrightarrow> is_hex h2 \<Longrightarrow> is_hex h3 \<Longrightarrow> is_hex h4 \<Longrightarrow>
    scan_str (CHR 0x5C # CHR ''u'' # h1 # h2 # h3 # h4 # s) =
    map_option (\<lambda>(b, r). (CHR 0x5C # CHR ''u'' # h1 # h2 # h3 # h4 # b, r)) (scan_str s)"
  by (simp add: scan_str.simps(2) [of "CHR 0x5C"] not_simple_escape_u)

lemma scan_str_plain: "c \<noteq> CHR 0x22 \<Longrightarrow> c \<noteq> CHR 0x5C \<Longrightarrow> 0x20 \<le> (of_char c :: nat) \<Longrightarrow>
    scan_str (c # s) = map_option (\<lambda>(b, r). (c # b, r)) (scan_str s)"
  by (simp add: scan_str.simps(2) [of c])

lemma scan_str_quote: "scan_str (CHR 0x22 # s) = Some ([], s)"
  by (simp add: scan_str.simps(2) [of "CHR 0x22"])

lemmas scan_str_steps = scan_str_escape scan_str_unicode scan_str_plain scan_str_quote

lemma scan_str_parts:
  "scan_str s = Some (b, r) \<Longrightarrow>
    s = b @ CHR 0x22 # r \<and> scan_str (b @ CHR 0x22 # r') = Some (b, r')"
proof (induction s arbitrary: b rule: length_induct)
  case (1 s)
  then obtain c t where s: "s = c # t" by (cases s) auto
  have IH: "s1 = b1 @ CHR 0x22 # r \<and> scan_str (b1 @ CHR 0x22 # r') = Some (b1, r')"
    if "length s1 < length s" "scan_str s1 = Some (b1, r)" for s1 b1
    using "1.IH" that by blast
  from "1.prems" [unfolded s] show ?case
  proof (cases rule: scan_str_SomeE)
    case close_quote
    then show ?thesis by (simp add: s scan_str_steps)
  next
    case (escape e s1 b1)
    with IH [of s1 b1] show ?thesis by (simp add: s scan_str_steps)
  next
    case (unicode h1 h2 h3 h4 s1 b1)
    with IH [of s1 b1] show ?thesis by (simp add: s scan_str_steps)
  next
    case (plain b1)
    with IH [of t b1] show ?thesis by (simp add: s scan_str_steps)
  qed
qed

lemma scan_str_consume [consume_simps]: "scan_str s = Some (b, r) \<Longrightarrow> s = b @ CHR 0x22 # r"
  using scan_str_parts by blast

lemma scan_str_context: "scan_str s = Some (b, r) \<Longrightarrow> scan_str (b @ CHR 0x22 # r') = Some (b, r')"
  using scan_str_parts by blast

lemma scan_str_body: "scan_str s = Some (b, r) \<Longrightarrow> str_body b"
  by (simp add: str_body_def scan_str_context)

lemma str_body_scan: "str_body b \<Longrightarrow> scan_str (b @ CHR 0x22 # r) = Some (b, r)"
  unfolding str_body_def by (rule scan_str_context)

definition num_char :: "char \<Rightarrow> bool" where
  "num_char c \<longleftrightarrow> is_digit c \<or> c \<in> {CHR ''+'', CHR ''-'', CHR ''.'', CHR ''e'', CHR ''E''}"

text \<open>What may follow a number literal without being read as part of it.\<close>

definition num_delim :: "string \<Rightarrow> bool" where
  "num_delim r \<longleftrightarrow> r = [] \<or> \<not> num_char (hd r)"

lemma num_delim_Nil [simp]: "num_delim []"
  by (simp add: num_delim_def)

lemma num_delim_Cons [simp]: "num_delim (c # r) \<longleftrightarrow> \<not> num_char c"
  by (simp add: num_delim_def)

lemma num_char_punct [simp]:
  "\<not> num_char CHR '',''" "\<not> num_char CHR ''}''" "\<not> num_char CHR 0x5D" "\<not> num_char CHR '':''"
  "\<not> num_char CHR 0x22"
  by (simp_all add: num_char_def is_digit_def)

lemma num_char_not_ws: "num_char c \<Longrightarrow> \<not> json_ws c"
  by (auto simp: num_char_def json_ws_def is_digit_def)

lemma json_ws_not_num [simp]: "json_ws c \<Longrightarrow> \<not> num_char c"
  using num_char_not_ws by blast

lemma scan_digits1_SomeD:
  assumes "scan_digits1 s = Some (d, r)"
  shows "s = d @ r" "d \<noteq> []" "\<forall>c \<in> set d. is_digit c"
  using assms by (auto simp: scan_digits1_def split: if_splits dest: set_takeWhileD)

lemma scan_digits1_context:
  assumes "d \<noteq> []" "\<forall>c \<in> set d. is_digit c" "r = [] \<or> \<not> is_digit (hd r)"
  shows "scan_digits1 (d @ r) = Some (d, r)"
proof -
  have "takeWhile is_digit r = [] \<and> dropWhile is_digit r = r"
    using assms(3) by (cases r) auto
  with assms show ?thesis by (simp add: scan_digits1_def)
qed

lemma digit_num_char: "is_digit c \<Longrightarrow> num_char c"
  by (simp add: num_char_def)

definition num_text :: "string \<Rightarrow> bool" where
  "num_text v \<longleftrightarrow> scan_num v = Some (v, [])"

lemma scan_int_context:
  assumes "scan_int s = Some (i, s1)"
  shows "s = i @ s1 \<and> i \<noteq> [] \<and> (\<forall>c \<in> set i. num_char c)
    \<and> (r = [] \<or> \<not> is_digit (hd r) \<longrightarrow> scan_int (i @ r) = Some (i, r))"
proof (cases s)
  case (Cons c t)
  show ?thesis
  proof (cases "c = CHR ''0''")
    case True
    with assms Cons have "i = [c]" "s1 = t" by (auto simp: scan_int_def)
    with True Cons show ?thesis by (simp add: scan_int_def num_char_def is_digit_def)
  next
    case False
    with assms Cons have d: "scan_digits1 s = Some (i, s1)" by (simp add: scan_int_def)
    note p = scan_digits1_SomeD [OF d]
    have "hd i = c" using p Cons by (cases i) auto
    then have "scan_int (i @ r) = scan_digits1 (i @ r)"
      using False p(2) by (cases i) (auto simp: scan_int_def)
    with p scan_digits1_context [OF p(2,3), of r] show ?thesis by (auto simp: digit_num_char)
  qed
qed (use assms in \<open>simp add: scan_int_def\<close>)

lemma scan_frac_context:
  assumes "scan_frac s = Some (f, s1)"
  shows "s = f @ s1 \<and> (\<forall>c \<in> set f. num_char c) \<and> (f = [] \<or> hd f = CHR ''.'')
    \<and> (r = [] \<or> \<not> is_digit (hd r) \<and> hd r \<noteq> CHR ''.'' \<longrightarrow> scan_frac (f @ r) = Some (f, r))"
proof (cases "f = []")
  case True
  with assms show ?thesis
    by (cases r) (auto simp: scan_frac_def split: list.splits if_splits)
next
  case False
  with assms obtain d t where p: "s = CHR ''.'' # t" "scan_digits1 t = Some (d, s1)" "f = CHR ''.'' # d"
    by (auto simp: scan_frac_def split: list.splits if_splits)
  note q = scan_digits1_SomeD [OF p(2)]
  show ?thesis using p q scan_digits1_context [OF q(2,3), of r]
    by (auto simp: scan_frac_def num_char_def)
qed

lemma scan_exp_context:
  assumes "scan_exp s = Some (e, s1)"
  shows "s = e @ s1 \<and> (\<forall>c \<in> set e. num_char c) \<and> (e = [] \<or> hd e = CHR ''e'' \<or> hd e = CHR ''E'')
    \<and> (num_delim r \<longrightarrow> scan_exp (e @ r) = Some (e, r))"
proof (cases "e = []")
  case True
  with assms show ?thesis
    by (cases r) (auto simp: scan_exp_def num_char_def split: list.splits if_splits)
next
  case False
  have digit: "num_delim r \<Longrightarrow> r = [] \<or> \<not> is_digit (hd r)"
    by (auto simp: num_delim_def num_char_def)
  from False assms consider
    (signed) c x d t where "s = c # x # t" "c = CHR ''e'' \<or> c = CHR ''E''" "x = CHR ''+'' \<or> x = CHR ''-''"
      "scan_digits1 t = Some (d, s1)" "e = c # x # d"
  | (bare) c x d t where "s = c # x # t" "c = CHR ''e'' \<or> c = CHR ''E''" "\<not> (x = CHR ''+'' \<or> x = CHR ''-'')"
      "scan_digits1 (x # t) = Some (d, s1)" "e = c # d"
    unfolding scan_exp_def by (simp split: list.splits if_splits; clarsimp; blast)
  then show ?thesis
  proof cases
    case signed
    note p = scan_digits1_SomeD [OF signed(4)]
    show ?thesis using signed p scan_digits1_context [OF p(2,3), of r] digit
      by (auto simp: scan_exp_def num_char_def)
  next
    case bare
    note p = scan_digits1_SomeD [OF bare(4)]
    then obtain d' where d': "d = x # d'" by (cases d) auto
    with bare p show ?thesis
      using scan_digits1_context [OF p(2,3), of r] digit
      by (auto simp: scan_exp_def num_char_def)
  qed
qed

lemma scan_num_parts:
  assumes "scan_num s = Some (v, r)"
  shows "s = v @ r \<and> v \<noteq> [] \<and> (\<forall>c \<in> set v. num_char c)
    \<and> (num_delim r' \<longrightarrow> scan_num (v @ r') = Some (v, r'))"
proof -
  define sign where "sign = (case s of c # _ \<Rightarrow> if c = CHR ''-'' then [c] else [] | [] \<Rightarrow> [])"
  define s0 where "s0 = drop (length sign) s"
  have s: "s = sign @ s0" and sg: "sign = [] \<and> (s0 = [] \<or> hd s0 \<noteq> CHR ''-'') \<or> sign = ''-''"
    by (auto simp: sign_def s0_def split: list.splits)
  define body where "body y =
      do { (i, s1) \<leftarrow> scan_int y; (f, s2) \<leftarrow> scan_frac s1; (e, s3) \<leftarrow> scan_exp s2;
           Some (sign @ i @ f @ e, s3) }" for y
  have split_sign: "scan_num (sign @ y) = body y" if "y = [] \<or> hd y \<noteq> CHR ''-'' \<or> sign \<noteq> []" for y
    using sg that by (cases y) (auto simp: scan_num_def body_def)
  have "body s0 = Some (v, r)"
    using split_sign [of s0] sg assms s by auto
  then obtain i s1 f s2 e where
      i: "scan_int s0 = Some (i, s1)" and f: "scan_frac s1 = Some (f, s2)"
      and e: "scan_exp s2 = Some (e, r)" and v: "v = sign @ i @ f @ e"
    by (auto simp: body_def bind_eq_Some_conv)
  note I = scan_int_context [OF i, of "f @ e @ r'"]
  note F = scan_frac_context [OF f, of "e @ r'"]
  note E = scan_exp_context [OF e, of r']
  have "scan_num (v @ r') = Some (v, r')" if d: "num_delim r'"
  proof -
    have nd: "r' = [] \<or> \<not> is_digit (hd r') \<and> hd r' \<noteq> CHR ''.''"
      using d by (auto simp: num_delim_def num_char_def)
    have e1: "e @ r' = [] \<or> \<not> is_digit (hd (e @ r')) \<and> hd (e @ r') \<noteq> CHR ''.''"
      using E nd by (cases e) (auto simp: is_digit_def)
    have f1: "f @ e @ r' = [] \<or> \<not> is_digit (hd (f @ e @ r'))"
      using F e1 by (cases f) (auto simp: is_digit_def)
    have y: "i @ f @ e @ r' = [] \<or> hd (i @ f @ e @ r') \<noteq> CHR ''-'' \<or> sign \<noteq> []"
      using I sg i by (cases i) auto
    have "scan_int (i @ f @ e @ r') = Some (i, f @ e @ r')" using I f1 by blast
    moreover have "scan_frac (f @ e @ r') = Some (f, e @ r')" using F e1 by blast
    moreover have "scan_exp (e @ r') = Some (e, r')" using E d by blast
    ultimately show ?thesis
      using split_sign [OF y] by (simp add: v body_def)
  qed
  moreover have "\<forall>c \<in> set sign. num_char c" using sg by (auto simp: num_char_def)
  moreover have "\<forall>c \<in> set (i @ f @ e). num_char c" using I F E by (simp add: ball_Un)
  moreover have "s = v @ r" "v \<noteq> []" using I F E by (simp_all add: s v)
  ultimately show ?thesis by (simp add: v ball_Un)
qed

lemma num_text_scan: "num_text v \<Longrightarrow> num_delim r \<Longrightarrow> scan_num (v @ r) = Some (v, r)"
  using scan_num_parts unfolding num_text_def by blast

lemma num_text_chars: "num_text v \<Longrightarrow> v \<noteq> [] \<and> (\<forall>c \<in> set v. num_char c)"
  using scan_num_parts unfolding num_text_def by blast

lemma scan_num_text: "scan_num s = Some (v, r) \<Longrightarrow> num_text v"
  using scan_num_parts [of s v r "[]"] unfolding num_text_def by simp

subsection \<open>The grammar\<close>

definition all_ws :: "string \<Rightarrow> bool" where
  "all_ws w \<longleftrightarrow> (\<forall>c \<in> set w. json_ws c)"

definition jkey :: "string \<Rightarrow> string \<Rightarrow> string \<Rightarrow> string" where
  "jkey k w1 w2 = CHR 0x22 # k @ CHR 0x22 # w1 @ CHR '':'' # w2"

text \<open>
  \<open>jvalue d v\<close>: \<open>v\<close> is a value inside \<open>d\<close> open brackets. \<open>jelems d vs t\<close> and
  \<open>jmembers d ms t\<close>: \<open>t\<close> is a non-empty list of elements or members with its closing
  bracket, whose raw values are \<open>vs\<close> or \<open>ms\<close>.
\<close>

inductive jvalue :: "int \<Rightarrow> string \<Rightarrow> bool"
and jelems :: "int \<Rightarrow> string list \<Rightarrow> string \<Rightarrow> bool"
and jmembers :: "int \<Rightarrow> (string \<times> string) list \<Rightarrow> string \<Rightarrow> bool" where
  jv_lit: "v \<in> {''true'', ''false'', ''null''} \<Longrightarrow> jvalue d v"
| jv_num: "num_text v \<Longrightarrow> jvalue d v"
| jv_str: "str_body b \<Longrightarrow> jvalue d (CHR 0x22 # b @ [CHR 0x22])"
| jv_obj0: "d < max_nesting \<Longrightarrow> all_ws w \<Longrightarrow> jvalue d (CHR ''{'' # w @ ''}'')"
| jv_obj: "d < max_nesting \<Longrightarrow> all_ws w \<Longrightarrow> jmembers (d + 1) ms t \<Longrightarrow>
    jvalue d (CHR ''{'' # w @ t)"
| jv_arr0: "d < max_nesting \<Longrightarrow> all_ws w \<Longrightarrow> jvalue d (CHR 0x5B # w @ [CHR 0x5D])"
| jv_arr: "d < max_nesting \<Longrightarrow> all_ws w \<Longrightarrow> jelems (d + 1) vs t \<Longrightarrow>
    jvalue d (CHR 0x5B # w @ t)"
| je_last: "jvalue d v \<Longrightarrow> all_ws w \<Longrightarrow> jelems d [v] (v @ w @ [CHR 0x5D])"
| je_more: "jvalue d v \<Longrightarrow> all_ws w1 \<Longrightarrow> all_ws w2 \<Longrightarrow> jelems d vs t \<Longrightarrow>
    jelems d (v # vs) (v @ w1 @ CHR '','' # w2 @ t)"
| jm_last: "str_body k \<Longrightarrow> all_ws w1 \<Longrightarrow> all_ws w2 \<Longrightarrow> jvalue d v \<Longrightarrow> all_ws w3 \<Longrightarrow>
    jmembers d [(k, v)] (jkey k w1 w2 @ v @ w3 @ ''}'')"
| jm_more: "str_body k \<Longrightarrow> all_ws w1 \<Longrightarrow> all_ws w2 \<Longrightarrow> jvalue d v \<Longrightarrow> all_ws w3 \<Longrightarrow>
    all_ws w4 \<Longrightarrow> jmembers d ms t \<Longrightarrow>
    jmembers d ((k, v) # ms) (jkey k w1 w2 @ v @ w3 @ CHR '','' # w4 @ t)"

lemmas grammar_intros = jv_lit jv_num jv_str jv_obj0 jv_obj jv_arr0 jv_arr je_last je_more
  jm_last jm_more

lemma all_ws_Nil [simp]: "all_ws []"
  by (simp add: all_ws_def)

lemma skip_ws_split: "\<exists>w. all_ws w \<and> s = w @ skip_ws s"
  unfolding skip_ws_def all_ws_def
  by (metis set_takeWhileD takeWhile_dropWhile_id)

lemma skip_ws_Cons: "skip_ws s = c # t \<Longrightarrow> \<not> json_ws c"
  unfolding skip_ws_def by (metis dropWhile_eq_Cons_conv)

lemma skip_ws_all_ws: "all_ws w \<Longrightarrow> skip_ws (w @ s) = skip_ws s"
  by (simp add: skip_ws_def all_ws_def)

lemma skip_ws_id [simp]: "\<not> json_ws c \<Longrightarrow> skip_ws (c # s) = c # s"
  by (simp add: skip_ws_def)

lemma skip_ws_Nil [simp]: "skip_ws [] = []"
  by (simp add: skip_ws_def)

lemma not_ws_punct [simp]: "\<not> json_ws CHR 0x22" "\<not> json_ws CHR '',''" "\<not> json_ws CHR '':''"
  "\<not> json_ws CHR ''}''" "\<not> json_ws CHR ''{''" "\<not> json_ws CHR 0x5B" "\<not> json_ws CHR 0x5D"
  "\<not> json_ws CHR ''t''" "\<not> json_ws CHR ''f''" "\<not> json_ws CHR ''n''"
  by (simp_all add: json_ws_def)

subsection \<open>Soundness: what the scanner accepts is derivable\<close>

definition value_sound :: "nat \<Rightarrow> bool" where
  "value_sound n \<longleftrightarrow> (\<forall>d s v r. scan_value n d s = Some (v, r) \<longrightarrow> jvalue d v \<and> s = v @ r)"

definition elems_sound :: "nat \<Rightarrow> bool" where
  "elems_sound n \<longleftrightarrow>
    (\<forall>d s vs r. scan_elems n d s = Some (vs, r) \<longrightarrow> (\<exists>t. jelems d vs t \<and> s = t @ r))"

definition members_sound :: "nat \<Rightarrow> bool" where
  "members_sound n \<longleftrightarrow>
    (\<forall>d s ms r. scan_members n d s = Some (ms, r) \<longrightarrow> (\<exists>t. jmembers d ms t \<and> s = t @ r))"

lemma value_sound_Suc:
  assumes E: "elems_sound n" and M: "members_sound n"
  shows "value_sound (Suc n)"
  unfolding value_sound_def
proof (intro allI impI)
  fix d s v r
  assume *: "scan_value (Suc n) d s = Some (v, r)"
  then obtain c y where s: "s = c # y" by (cases s) (auto simp: scan_value.simps(2))
  obtain w where w: "all_ws w" "y = w @ skip_ws y" using skip_ws_split by blast
  note defs = scan_value.simps(2) s
  consider (str) "c = CHR 0x22" | (obj) "c = CHR ''{''" | (arr) "c = CHR 0x5B"
    | (lit) "c = CHR ''t'' \<or> c = CHR ''f'' \<or> c = CHR ''n''"
    | (num) "c \<noteq> CHR 0x22" "c \<noteq> CHR ''{''" "c \<noteq> CHR 0x5B" "c \<noteq> CHR ''t''" "c \<noteq> CHR ''f''" "c \<noteq> CHR ''n''"
    by blast
  then show "jvalue d v \<and> s = v @ r"
  proof cases
    case str
    with * obtain b where "scan_str y = Some (b, r)" "v = c # b @ [CHR 0x22]"
      by (auto simp: defs)
    then show ?thesis using str by (auto simp: s scan_str_body dest: scan_str_consume intro: jv_str)
  next
    case obj
    with * obtain x t where x: "skip_ws y = x # t" and d: "d < max_nesting"
      by (auto simp: defs split: if_splits list.splits)
    show ?thesis
    proof (cases "x = CHR ''}''")
      case True
      with * obj x w d show ?thesis
        by (auto simp: defs intro: jv_obj0)
    next
      case False
      with * obj x d obtain ms where ms: "scan_members n (d + 1) (x # t) = Some (ms, r)"
          and v: "v = take (length s - length r) s"
        by (auto simp: defs split: option.splits)
      with M obtain t' where t': "jmembers (d + 1) ms t'" "x # t = t' @ r"
        unfolding members_sound_def by blast
      then have "v = CHR ''{'' # w @ t'" using v w x obj s by simp
      with t' w d show ?thesis using x obj s by (auto intro: jv_obj)
    qed
  next
    case arr
    with * obtain x t where x: "skip_ws y = x # t" and d: "d < max_nesting"
      by (auto simp: defs split: if_splits list.splits)
    show ?thesis
    proof (cases "x = CHR 0x5D")
      case True
      with * arr x w d show ?thesis
        by (auto simp: defs intro: jv_arr0)
    next
      case False
      with * arr x d obtain vs where vs: "scan_elems n (d + 1) (x # t) = Some (vs, r)"
          and v: "v = take (length s - length r) s"
        by (auto simp: defs split: option.splits)
      with E obtain t' where t': "jelems (d + 1) vs t'" "x # t = t' @ r"
        unfolding elems_sound_def by blast
      then have "v = CHR 0x5B # w @ t'" using v w x arr s by simp
      with t' w d show ?thesis using x arr s by (auto intro: jv_arr)
    qed
  next
    case lit
    with * show ?thesis
      by (auto simp: defs scan_lit_def prefix_def split: if_splits intro: jv_lit)
  next
    case num
    with * have "scan_num s = Some (v, r)" by (simp add: defs)
    then show ?thesis using scan_num_parts by (blast intro: jv_num scan_num_text)
  qed
qed

lemma elems_sound_Suc:
  assumes V: "value_sound n" and E: "elems_sound n"
  shows "elems_sound (Suc n)"
  unfolding elems_sound_def
proof (intro allI impI)
  fix d s vs r
  assume *: "scan_elems (Suc n) d s = Some (vs, r)"
  then obtain v r1 x t where v: "scan_value n d s = Some (v, r1)" and x: "skip_ws r1 = x # t"
    by (auto simp: scan_elems.simps(2) split: option.splits list.splits)
  obtain w where w: "all_ws w" "r1 = w @ x # t" using skip_ws_split [of r1] x by auto
  from V v have jv: "jvalue d v" "s = v @ r1" by (auto simp: value_sound_def)
  show "\<exists>t. jelems d vs t \<and> s = t @ r"
  proof (cases "x = CHR 0x5D")
    case True
    with * v x have "vs = [v]" "r = t" by (auto simp: scan_elems.simps(2))
    with jv w True show ?thesis by (intro exI [of _ "v @ w @ [CHR 0x5D]"]) (auto intro: je_last)
  next
    case False
    with * v x obtain us where c: "x = CHR '',''" and us: "scan_elems n d (skip_ws t) = Some (us, r)"
        and vs: "vs = v # us"
      by (auto simp: scan_elems.simps(2) split: if_splits option.splits)
    obtain w2 where w2: "all_ws w2" "t = w2 @ skip_ws t" using skip_ws_split by blast
    from E us obtain t' where t': "jelems d us t'" "skip_ws t = t' @ r"
      unfolding elems_sound_def by blast
    with jv w w2 c vs show ?thesis
      by (intro exI [of _ "v @ w @ CHR '','' # w2 @ t'"]) (auto intro: je_more)
  qed
qed

lemma members_sound_Suc:
  assumes V: "value_sound n" and M: "members_sound n"
  shows "members_sound (Suc n)"
  unfolding members_sound_def
proof (intro allI impI)
  fix d s ms r
  assume *: "scan_members (Suc n) d s = Some (ms, r)"
  then obtain y k r1 r2 v r3 x t where s: "s = CHR 0x22 # y" and k: "scan_str y = Some (k, r1)"
      and r1: "skip_ws r1 = CHR '':'' # r2" and v: "scan_value n d (skip_ws r2) = Some (v, r3)"
      and x: "skip_ws r3 = x # t"
    by (auto simp: scan_members.simps(2) split: option.splits list.splits if_splits)
  obtain w1 where w1: "all_ws w1" "r1 = w1 @ CHR '':'' # r2" using skip_ws_split [of r1] r1 by auto
  obtain w2 where w2: "all_ws w2" "r2 = w2 @ skip_ws r2" using skip_ws_split by blast
  obtain w3 where w3: "all_ws w3" "r3 = w3 @ x # t" using skip_ws_split [of r3] x by auto
  from V v have jv: "jvalue d v" "skip_ws r2 = v @ r3" by (auto simp: value_sound_def)
  have sk: "s = jkey k w1 w2 @ v @ w3 @ x # t"
    using scan_str_consume [OF k] w1 w2 w3 jv by (simp add: s jkey_def)
  show "\<exists>t. jmembers d ms t \<and> s = t @ r"
  proof (cases "x = CHR ''}''")
    case True
    with * s k r1 v x have "ms = [(k, v)]" "r = t" by (auto simp: scan_members.simps(2))
    with sk jv w1 w2 w3 True scan_str_body [OF k] show ?thesis
      by (intro exI [of _ "jkey k w1 w2 @ v @ w3 @ ''}''"]) (auto intro: jm_last)
  next
    case False
    with * s k r1 v x obtain us where c: "x = CHR '',''" and us: "scan_members n d (skip_ws t) = Some (us, r)"
        and ms: "ms = (k, v) # us"
      by (auto simp: scan_members.simps(2) split: if_splits option.splits)
    obtain w4 where w4: "all_ws w4" "t = w4 @ skip_ws t" using skip_ws_split by blast
    from M us obtain t' where t': "jmembers d us t'" "skip_ws t = t' @ r"
      unfolding members_sound_def by blast
    with sk jv w1 w2 w3 w4 c ms scan_str_body [OF k] show ?thesis
      by (intro exI [of _ "jkey k w1 w2 @ v @ w3 @ CHR '','' # w4 @ t'"]) (auto intro: jm_more)
  qed
qed

lemma scan_sound: "value_sound n \<and> elems_sound n \<and> members_sound n"
proof (induction n)
  case 0
  show ?case by (simp add: value_sound_def elems_sound_def members_sound_def)
next
  case (Suc n)
  then show ?case by (simp add: value_sound_Suc elems_sound_Suc members_sound_Suc)
qed

lemma scan_value_sound: "scan_value n d s = Some (v, r) \<Longrightarrow> jvalue d v \<and> s = v @ r"
  using scan_sound by (auto simp: value_sound_def)

lemma scan_elems_sound: "scan_elems n d s = Some (vs, r) \<Longrightarrow> \<exists>t. jelems d vs t \<and> s = t @ r"
  using scan_sound by (auto simp: elems_sound_def)

lemma scan_members_sound:
  "scan_members n d s = Some (ms, r) \<Longrightarrow> \<exists>t. jmembers d ms t \<and> s = t @ r"
  using scan_sound by (auto simp: members_sound_def)

subsection \<open>How derivable text starts\<close>

definition value_head :: "char \<Rightarrow> bool" where
  "value_head c \<longleftrightarrow> num_char c \<or> c \<in> {CHR ''t'', CHR ''f'', CHR ''n'', CHR 0x22, CHR ''{'', CHR 0x5B}"

lemma value_head_not_ws [simp]: "value_head c \<Longrightarrow> \<not> json_ws c"
  by (auto simp: value_head_def num_char_not_ws)

lemma value_head_not_close: "value_head c \<Longrightarrow> c \<noteq> CHR 0x5D \<and> c \<noteq> CHR ''}''"
  by (auto simp: value_head_def)

lemma grammar_heads:
  shows "jvalue d v \<Longrightarrow> v \<noteq> [] \<and> value_head (hd v)"
    and "jelems d vs t \<Longrightarrow> t \<noteq> [] \<and> value_head (hd t) \<and> vs \<noteq> []"
    and "jmembers d ms t \<Longrightarrow> t \<noteq> [] \<and> hd t = CHR 0x22 \<and> ms \<noteq> []"
proof (induction rule: jvalue_jelems_jmembers.inducts)
  case (jv_num v d)
  then show ?case using num_text_chars by (cases v) (auto simp: value_head_def)
qed (auto simp: value_head_def jkey_def)

subsection \<open>Completeness: derivable text is scanned back whole\<close>

lemma all_ws_delim: "all_ws w \<Longrightarrow> \<not> num_char c \<Longrightarrow> num_delim (w @ c # r)"
  by (cases w) (auto simp: all_ws_def)

lemma skip_ws_text: "t \<noteq> [] \<Longrightarrow> \<not> json_ws (hd t) \<Longrightarrow> skip_ws (t @ r) = t @ r"
  by (cases t) auto

lemma scan_members_jkey:
  assumes "str_body k" "all_ws w1" "all_ws w2" "v \<noteq> []" "\<not> json_ws (hd v)"
  shows "scan_members (Suc n) d (jkey k w1 w2 @ v @ s) =
    (case scan_value n d (v @ s) of
       None \<Rightarrow> None
     | Some (u, r3) \<Rightarrow>
         (case skip_ws r3 of
            [] \<Rightarrow> None
          | y # t \<Rightarrow>
              if y = CHR ''}'' then Some ([(k, u)], t)
              else if y = CHR '','' then
                (case scan_members n d (skip_ws t) of
                   None \<Rightarrow> None | Some (ms, u') \<Rightarrow> Some ((k, u) # ms, u'))
              else None))"
  using assms
  by (simp add: scan_members.simps(2) jkey_def str_body_scan skip_ws_all_ws skip_ws_text)

definition value_complete :: "int \<Rightarrow> string \<Rightarrow> bool" where
  "value_complete d v \<longleftrightarrow>
    (\<forall>n r. length v \<le> n \<longrightarrow> num_delim r \<longrightarrow> scan_value n d (v @ r) = Some (v, r))"

lemma value_complete_bracket:
  assumes "d < max_nesting" "all_ws w" "t \<noteq> []" "\<not> json_ws (hd t)"
  shows "scan_elems n (d + 1) (t @ r) = Some (vs, r) \<Longrightarrow> hd t \<noteq> CHR 0x5D \<Longrightarrow>
      scan_value (Suc n) d (CHR 0x5B # w @ t @ r) = Some (CHR 0x5B # w @ t, r)"
    and "scan_members n (d + 1) (t @ r) = Some (ms, r) \<Longrightarrow> hd t \<noteq> CHR ''}'' \<Longrightarrow>
      scan_value (Suc n) d (CHR ''{'' # w @ t @ r) = Some (CHR ''{'' # w @ t, r)"
  using assms by (cases t; simp add: scan_value.simps(2) skip_ws_all_ws)+

lemma scan_complete:
  shows "jvalue d v \<Longrightarrow> value_complete d v"
    and "jelems d vs t \<Longrightarrow> length t \<le> n \<Longrightarrow> scan_elems n d (t @ r) = Some (vs, r)"
    and "jmembers d ms t \<Longrightarrow> length t \<le> n \<Longrightarrow> scan_members n d (t @ r) = Some (ms, r)"
proof (induction arbitrary: and n r and n r rule: jvalue_jelems_jmembers.inducts)
  case (jv_lit v d)
  show ?case unfolding value_complete_def
  proof (intro allI impI)
    fix n r assume "length v \<le> n"
    then show "scan_value n d (v @ r) = Some (v, r)"
      using jv_lit by (cases n) (auto simp: scan_value.simps(2) scan_lit_def)
  qed
next
  case (jv_num v d)
  show ?case unfolding value_complete_def
  proof (intro allI impI)
    fix n r assume n: "length v \<le> n" and r: "num_delim r"
    from num_text_chars [OF jv_num] obtain c v' where v: "v = c # v'" "num_char c"
      by (cases v) auto
    obtain m where "n = Suc m" using n v by (cases n) auto
    moreover have "c \<noteq> CHR 0x22" "c \<noteq> CHR ''{''" "c \<noteq> CHR 0x5B" "c \<noteq> CHR ''t''" "c \<noteq> CHR ''f''"
      "c \<noteq> CHR ''n''" using v(2) by (auto simp: num_char_def is_digit_def)
    ultimately show "scan_value n d (v @ r) = Some (v, r)"
      using num_text_scan [OF jv_num r] by (simp add: scan_value.simps(2) v(1))
  qed
next
  case (jv_str b d)
  show ?case unfolding value_complete_def
  proof (intro allI impI)
    fix n r assume "length (CHR 0x22 # b @ [CHR 0x22]) \<le> n"
    then show "scan_value n d ((CHR 0x22 # b @ [CHR 0x22]) @ r) = Some (CHR 0x22 # b @ [CHR 0x22], r)"
      using str_body_scan [OF jv_str] by (cases n) (auto simp: scan_value.simps(2))
  qed
next
  case (jv_obj0 d w)
  show ?case unfolding value_complete_def
  proof (intro allI impI)
    fix n r assume "length (CHR ''{'' # w @ ''}'') \<le> n"
    then show "scan_value n d ((CHR ''{'' # w @ ''}'') @ r) = Some (CHR ''{'' # w @ ''}'', r)"
      using jv_obj0 by (cases n) (auto simp: scan_value.simps(2) skip_ws_all_ws)
  qed
next
  case (jv_obj d w ms t)
  show ?case unfolding value_complete_def
  proof (intro allI impI)
    fix n r assume "length (CHR ''{'' # w @ t) \<le> n"
    then obtain m where m: "n = Suc m" "length t \<le> m" by (cases n) auto
    show "scan_value n d ((CHR ''{'' # w @ t) @ r) = Some (CHR ''{'' # w @ t, r)"
      using value_complete_bracket(2) [OF jv_obj(1,2) _ _ jv_obj.IH [OF m(2)]]
        grammar_heads(3) [OF jv_obj(3)] by (simp add: m(1))
  qed
next
  case (jv_arr0 d w)
  show ?case unfolding value_complete_def
  proof (intro allI impI)
    fix n r assume "length (CHR 0x5B # w @ [CHR 0x5D]) \<le> n"
    then show "scan_value n d ((CHR 0x5B # w @ [CHR 0x5D]) @ r) = Some (CHR 0x5B # w @ [CHR 0x5D], r)"
      using jv_arr0 by (cases n) (auto simp: scan_value.simps(2) skip_ws_all_ws)
  qed
next
  case (jv_arr d w vs t)
  show ?case unfolding value_complete_def
  proof (intro allI impI)
    fix n r assume "length (CHR 0x5B # w @ t) \<le> n"
    then obtain m where m: "n = Suc m" "length t \<le> m" by (cases n) auto
    show "scan_value n d ((CHR 0x5B # w @ t) @ r) = Some (CHR 0x5B # w @ t, r)"
      using value_complete_bracket(1) [OF jv_arr(1,2) _ _ jv_arr.IH [OF m(2)]]
        grammar_heads(2) [OF jv_arr(3)] value_head_not_close by (simp add: m(1))
  qed
next
  case (je_last d v w)
  then obtain m where m: "n = Suc m" "length v \<le> m" by (cases n) auto
  with je_last.IH have "scan_value m d (v @ w @ CHR 0x5D # r) = Some (v, w @ CHR 0x5D # r)"
    using je_last.hyps by (simp add: value_complete_def all_ws_delim)
  with je_last.hyps show ?case by (simp add: m scan_elems.simps(2) skip_ws_all_ws)
next
  case (je_more d v w1 w2 vs t)
  then obtain m where m: "n = Suc m" "length v \<le> m" "length t \<le> m" by (cases n) auto
  from je_more have "scan_value m d (v @ w1 @ CHR '','' # w2 @ t @ r) = Some (v, w1 @ CHR '','' # w2 @ t @ r)"
    by (simp add: value_complete_def all_ws_delim m(2))
  with je_more.hyps je_more.IH(2) [OF m(3)] grammar_heads(2) [OF je_more.hyps(4)] show ?case
    by (simp add: m(1) scan_elems.simps(2) skip_ws_all_ws skip_ws_text)
next
  case (jm_last k w1 w2 d v w3)
  then obtain m where m: "n = Suc m" "length v \<le> m" by (cases n) (auto simp: jkey_def)
  with jm_last.IH have "scan_value m d (v @ w3 @ CHR ''}'' # r) = Some (v, w3 @ CHR ''}'' # r)"
    using jm_last.hyps by (simp add: value_complete_def all_ws_delim)
  with jm_last.hyps grammar_heads(1) [OF jm_last.hyps(4)] show ?case
    by (simp add: m(1) scan_members_jkey skip_ws_all_ws)
next
  case (jm_more k w1 w2 d v w3 w4 ms t)
  then obtain m where m: "n = Suc m" "length v \<le> m" "length t \<le> m" by (cases n) (auto simp: jkey_def)
  from jm_more have "scan_value m d (v @ w3 @ CHR '','' # w4 @ t @ r) = Some (v, w3 @ CHR '','' # w4 @ t @ r)"
    by (simp add: value_complete_def all_ws_delim m(2))
  with jm_more.hyps jm_more.IH(2) [OF m(3)] grammar_heads(1) [OF jm_more.hyps(4)]
    grammar_heads(3) [OF jm_more.hyps(7)] show ?case
    by (simp add: m(1) scan_members_jkey skip_ws_all_ws skip_ws_text)
qed

lemma scan_value_complete:
  "jvalue d v \<Longrightarrow> length v \<le> n \<Longrightarrow> num_delim r \<Longrightarrow> scan_value n d (v @ r) = Some (v, r)"
  using scan_complete(1) by (simp add: value_complete_def)

lemmas scan_elems_complete = scan_complete(2)
lemmas scan_members_complete = scan_complete(3)

text \<open>Fuel: the length of the accepted text always suffices.\<close>

lemma scan_elems_fuel_enough:
  assumes "scan_elems n d s = Some (vs, r)" "length s \<le> m"
  shows "scan_elems m d s = Some (vs, r)"
proof -
  obtain t where t: "jelems d vs t" "s = t @ r" using scan_elems_sound [OF assms(1)] by blast
  with assms(2) show ?thesis by (simp add: scan_elems_complete)
qed

lemma scan_members_fuel_enough:
  assumes "scan_members n d s = Some (ms, r)" "length s \<le> m"
  shows "scan_members m d s = Some (ms, r)"
proof -
  obtain t where t: "jmembers d ms t" "s = t @ r" using scan_members_sound [OF assms(1)] by blast
  with assms(2) show ?thesis by (simp add: scan_members_complete)
qed

subsection \<open>Compaction\<close>

text \<open>\<open>closed v\<close>: reading \<open>v\<close> leaves the compactor outside every string literal.\<close>

definition closed :: "string \<Rightarrow> bool" where
  "closed v \<longleftrightarrow> (\<forall>x. compact (v @ x) = compact v @ compact x)"

lemma closed_append: "closed v \<Longrightarrow> closed w \<Longrightarrow> closed (v @ w)"
  by (simp add: closed_def)

lemma closed_Cons: "c \<noteq> CHR 0x22 \<Longrightarrow> closed v \<Longrightarrow> closed (c # v)"
  by (simp add: closed_def)

lemma closed_Nil [simp]: "closed []"
  by (simp add: closed_def)

lemma compact_ws: "all_ws w \<Longrightarrow> compact (w @ x) = compact x"
  by (induction w) (auto simp: all_ws_def)

lemma closed_ws: "all_ws w \<Longrightarrow> closed w"
  using compact_ws [of w "[]"] by (simp add: closed_def compact_ws)

lemma compact_in_str: "scan_str s = Some (b, r) \<Longrightarrow> compact_in (b @ CHR 0x22 # x) = b @ CHR 0x22 # compact x"
proof (induction s arbitrary: b rule: length_induct)
  case (1 s)
  then obtain c t where s: "s = c # t" by (cases s) auto
  have IH: "compact_in (b1 @ CHR 0x22 # x) = b1 @ CHR 0x22 # compact x"
    if "length s1 < length s" "scan_str s1 = Some (b1, r)" for s1 b1
    using "1.IH" that by blast
  have hex: "c \<noteq> CHR 0x22 \<and> c \<noteq> CHR 0x5C" if "is_hex c" for c
    using that by (auto simp: is_hex_def hex_val_def)
  from "1.prems" [unfolded s] show ?case
  proof (cases rule: scan_str_SomeE)
    case close_quote
    then show ?thesis by simp
  next
    case (escape e s1 b1)
    with IH [of s1 b1] show ?thesis by (simp add: s)
  next
    case (unicode h1 h2 h3 h4 s1 b1)
    with IH [of s1 b1] hex show ?thesis by (simp add: s)
  next
    case (plain b1)
    with IH [of t b1] show ?thesis by (simp add: s)
  qed
qed

lemma closed_str: "str_body b \<Longrightarrow> closed (CHR 0x22 # b @ [CHR 0x22])"
  and compact_str: "str_body b \<Longrightarrow> compact (CHR 0x22 # b @ [CHR 0x22]) = CHR 0x22 # b @ [CHR 0x22]"
  using compact_in_str [of "b @ [CHR 0x22]" b "[]"] by (simp_all add: closed_def str_body_def)

lemma compact_num: "\<forall>c \<in> set v. num_char c \<Longrightarrow> compact (v @ x) = v @ compact x"
  by (induction v) (auto dest: num_char_not_ws)

lemma closed_num: "num_text v \<Longrightarrow> closed v"
  and compact_num_text: "num_text v \<Longrightarrow> compact v = v"
  using num_text_chars [of v] compact_num [of v "[]"] by (auto simp: closed_def compact_num)

lemma closed_jkey: "str_body k \<Longrightarrow> all_ws w1 \<Longrightarrow> all_ws w2 \<Longrightarrow> closed (jkey k w1 w2)"
  using closed_append [OF closed_str [of k], of "w1 @ CHR '':'' # w2"]
  by (simp add: jkey_def closed_append closed_Cons closed_ws)

lemma compact_jkey:
  assumes "str_body k" "all_ws w1" "all_ws w2"
  shows "compact (jkey k w1 w2) = jkey k [] []"
proof -
  have "compact ((CHR 0x22 # k @ [CHR 0x22]) @ (w1 @ CHR '':'' # w2)) =
      compact (CHR 0x22 # k @ [CHR 0x22]) @ compact (w1 @ CHR '':'' # w2)"
    using closed_str [OF assms(1)] unfolding closed_def by blast
  moreover have "compact (w1 @ CHR '':'' # w2) = [CHR '':'']"
    using compact_ws [OF assms(3), of "[]"] by (simp add: compact_ws [OF assms(2)])
  ultimately show ?thesis using compact_str [OF assms(1)] by (simp add: jkey_def)
qed

lemma grammar_closed:
  shows "jvalue d v \<Longrightarrow> closed v" and "jelems d vs t \<Longrightarrow> closed t" and "jmembers d ms t \<Longrightarrow> closed t"
proof (induction rule: jvalue_jelems_jmembers.inducts)
  case (jv_lit v d)
  then show ?case by (auto simp: closed_def json_ws_def)
next
  case (jv_num v d)
  then show ?case by (rule closed_num)
next
  case (jv_str b d)
  then show ?case by (rule closed_str)
qed (simp_all add: closed_append closed_Cons closed_ws closed_jkey)

lemma closed_compact_append: "closed v \<Longrightarrow> compact (v @ x) = compact v @ compact x"
  by (simp add: closed_def)

lemma compact_head: "v \<noteq> [] \<Longrightarrow> \<not> json_ws (hd v) \<Longrightarrow> compact v \<noteq> [] \<and> hd (compact v) = hd v"
  by (cases v) auto

lemma compact_lit: "v \<in> {''true'', ''false'', ''null''} \<Longrightarrow> compact v = v"
  by (auto simp: json_ws_def)

lemma grammar_compact:
  shows "jvalue d v \<Longrightarrow> jvalue d (compact v)"
    and "jelems d vs t \<Longrightarrow> jelems d (map compact vs) (compact t)"
    and "jmembers d ms t \<Longrightarrow> jmembers d (map (apsnd compact) ms) (compact t)"
proof (induction rule: jvalue_jelems_jmembers.inducts)
  case (jv_lit v d)
  then show ?case by (metis compact_lit jvalue_jelems_jmembers.jv_lit)
next
  case (jv_num v d)
  then show ?case by (simp add: compact_num_text jvalue_jelems_jmembers.jv_num)
next
  case (jv_str b d)
  then show ?case by (simp only: compact_str jvalue_jelems_jmembers.jv_str)
next
  case (jv_obj0 d w)
  then show ?case using jvalue_jelems_jmembers.jv_obj0 [of d "[]"] by (simp add: compact_ws)
next
  case (jv_obj d w ms t)
  then show ?case using jvalue_jelems_jmembers.jv_obj [of d "[]"] by (simp add: compact_ws)
next
  case (jv_arr0 d w)
  then show ?case using jvalue_jelems_jmembers.jv_arr0 [of d "[]"] by (simp add: compact_ws)
next
  case (jv_arr d w vs t)
  then show ?case using jvalue_jelems_jmembers.jv_arr [of d "[]"] by (simp add: compact_ws)
next
  case (je_last d v w)
  then show ?case using jvalue_jelems_jmembers.je_last [of d "compact v" "[]"] grammar_closed(1)
    by (simp add: compact_ws closed_compact_append)
next
  case (je_more d v w1 w2 vs t)
  then show ?case
    using jvalue_jelems_jmembers.je_more [of d "compact v" "[]" "[]" "map compact vs" "compact t"]
      grammar_closed(1)
    by (simp add: compact_ws closed_compact_append)
next
  case (jm_last k w1 w2 d v w3)
  then show ?case
    using jvalue_jelems_jmembers.jm_last [of k "[]" "[]" d "compact v" "[]"] grammar_closed(1)
    by (simp add: compact_ws closed_compact_append closed_jkey compact_jkey)
next
  case (jm_more k w1 w2 d v w3 w4 ms t)
  then show ?case
    using jvalue_jelems_jmembers.jm_more [of k "[]" "[]" d "compact v" "[]" "[]"
        "map (apsnd compact) ms" "compact t"] grammar_closed(1)
    by (simp add: compact_ws closed_compact_append closed_jkey compact_jkey)
qed

end
