(* ===== verification/JsonString.thy ===== *)
theory JsonString
  imports Utf8 JsonGrammar
begin

text \<open>
  String literals of \<^verbatim>\<open>encoding/json\<close>: how \<^verbatim>\<open>Encoder\<close> writes a Go string with
  \<^verbatim>\<open>SetEscapeHTML(false)\<close> (\<open>quote_body\<close>), and how \<^verbatim>\<open>Unmarshal\<close> reads a literal's body
  (\<open>unquote\<close>). Reading back what was written gives the string with every malformed byte
  replaced by U+FFFD, which is the string itself when it is valid UTF-8.
\<close>

definition hex_digit :: "nat \<Rightarrow> char" where
  "hex_digit n = (if n < 10 then char_of (0x30 + n) else char_of (0x57 + n))"

definition quote_ascii :: "char \<Rightarrow> string" where
  "quote_ascii c =
    (if c = CHR 0x22 \<or> c = CHR 0x5C then [CHR 0x5C, c]
     else if c = CHR 0x08 then [CHR 0x5C, CHR ''b'']
     else if c = CHR 0x0C then [CHR 0x5C, CHR ''f'']
     else if c = CHR 0x0A then [CHR 0x5C, CHR ''n'']
     else if c = CHR 0x0D then [CHR 0x5C, CHR ''r'']
     else if c = CHR 0x09 then [CHR 0x5C, CHR ''t'']
     else if byte_of c < 0x20 then
       [CHR 0x5C, CHR ''u'', CHR ''0'', CHR ''0'', hex_digit (byte_of c div 16), hex_digit (byte_of c mod 16)]
     else [c])"

definition quote_rune :: "string \<Rightarrow> string" where
  "quote_rune s =
    (let (r, n) = decode_rune s in
     if r = rune_error \<and> n = 1 then [CHR 0x5C, CHR ''u'', CHR ''f'', CHR ''f'', CHR ''f'', CHR ''d'']
     else if r = 0x2028 \<or> r = 0x2029 then
       [CHR 0x5C, CHR ''u'', CHR ''2'', CHR ''0'', CHR ''2'', hex_digit (r mod 16)]
     else take n s)"

function quote_body :: "string \<Rightarrow> string" where
  "quote_body s =
    (case s of
       [] \<Rightarrow> []
     | c # t \<Rightarrow>
         if byte_of c < 0x80 then quote_ascii c @ quote_body t
         else quote_rune s @ quote_body (drop (snd (decode_rune s)) s))"
  by pat_completeness auto
termination
  by (relation "measure length") auto

declare quote_body.simps [simp del]

definition encode_string :: "string \<Rightarrow> string" where
  "encode_string s = CHR 0x22 # quote_body s @ [CHR 0x22]"

text \<open>\<^verbatim>\<open>getu4\<close> at the start of \<open>s\<close>, and the surrogate pair of \<^verbatim>\<open>utf16.DecodeRune\<close>.\<close>

definition hex4 :: "string \<Rightarrow> nat option" where
  "hex4 s =
    (case s of
       a # b # c # d # _ \<Rightarrow>
         (case (hex_val a, hex_val b, hex_val c, hex_val d) of
            (Some x, Some y, Some z, Some w) \<Rightarrow> Some (((x * 16 + y) * 16 + z) * 16 + w)
          | _ \<Rightarrow> None)
     | _ \<Rightarrow> None)"

definition getu4 :: "string \<Rightarrow> nat option" where
  "getu4 s =
    (case s of
       a # b # t \<Rightarrow> if a = CHR 0x5C \<and> b = CHR ''u'' then hex4 t else None
     | _ \<Rightarrow> None)"

definition utf16_pair :: "nat \<Rightarrow> nat \<Rightarrow> nat option" where
  "utf16_pair r1 r2 =
    (if 0xD800 \<le> r1 \<and> r1 < 0xDC00 \<and> 0xDC00 \<le> r2 \<and> r2 < 0xE000
     then Some ((r1 - 0xD800) * 1024 + (r2 - 0xDC00) + 0x10000) else None)"

definition unescape :: "char \<Rightarrow> char option" where
  "unescape e =
    (if e = CHR 0x22 \<or> e = CHR 0x5C \<or> e = CHR ''/'' \<or> e = CHR 0x27 then Some e
     else if e = CHR ''b'' then Some (CHR 0x08)
     else if e = CHR ''f'' then Some (CHR 0x0C)
     else if e = CHR ''n'' then Some (CHR 0x0A)
     else if e = CHR ''r'' then Some (CHR 0x0D)
     else if e = CHR ''t'' then Some (CHR 0x09)
     else None)"

text \<open>One step of the reader: what it writes and how many bytes it consumes.\<close>

definition unquote_unicode :: "string \<Rightarrow> (string \<times> nat) option" where
  "unquote_unicode s =
    (case getu4 s of
       None \<Rightarrow> None
     | Some r \<Rightarrow>
         if surrogate r then
           (case Option.bind (getu4 (drop 6 s)) (utf16_pair r) of
              Some dec \<Rightarrow> Some (encode_rune dec, 12)
            | None \<Rightarrow> Some (encode_rune rune_error, 6))
         else Some (encode_rune r, 6))"

definition unquote_step :: "string \<Rightarrow> (string \<times> nat) option" where
  "unquote_step s =
    (case s of
       [] \<Rightarrow> None
     | c # t \<Rightarrow>
         if c = CHR 0x5C then
           (case t of
              [] \<Rightarrow> None
            | e # _ \<Rightarrow>
                if e = CHR ''u'' then unquote_unicode s
                else map_option (\<lambda>x. ([x], 2)) (unescape e))
         else if c = CHR 0x22 \<or> byte_of c < 0x20 then None
         else if byte_of c < 0x80 then Some ([c], 1)
         else (let (r, n) = decode_rune s in Some (encode_rune r, n)))"

lemma unquote_step_pos: "unquote_step s = Some (w, n) \<Longrightarrow> 0 < n"
  using decode_rune_width [of s]
  by (auto simp: unquote_step_def unquote_unicode_def Let_def
      split: list.splits if_splits option.splits prod.splits)

function unquote :: "string \<Rightarrow> string option" where
  "unquote s =
    (if s = [] then Some []
     else (case unquote_step s of
             None \<Rightarrow> None
           | Some (w, n) \<Rightarrow> map_option (\<lambda>r. w @ r) (unquote (drop n s))))"
  by pat_completeness auto
termination
  by (relation "measure length") (auto dest: unquote_step_pos)

declare unquote.simps [simp del]

lemma unquote_Nil [simp]: "unquote [] = Some []"
  by (subst unquote.simps) simp

lemma unquote_step_app:
  "unquote_step (u @ s) = Some (w, length u) \<Longrightarrow> u \<noteq> [] \<Longrightarrow>
    unquote (u @ s) = map_option (\<lambda>r. w @ r) (unquote s)"
  by (subst unquote.simps) simp

subsection \<open>What is written is a literal\<close>

lemma scan_str_plain_list:
  "\<forall>c \<in> set w. c \<noteq> CHR 0x22 \<and> c \<noteq> CHR 0x5C \<and> 0x20 \<le> byte_of c \<Longrightarrow>
    scan_str (w @ s) = map_option (\<lambda>(b, r). (w @ b, r)) (scan_str s)"
  by (induction w) (auto simp: scan_str_plain option.map_comp o_def split_def option.map_ident)

lemma hex_val_digit: "n < 16 \<Longrightarrow> hex_val (hex_digit n) = Some n"
  by (auto simp: hex_val_def hex_digit_def byte_of_char_of)

lemma is_hex_digit [simp]: "n < 16 \<Longrightarrow> is_hex (hex_digit n)"
  by (simp add: is_hex_def hex_val_digit)

lemma hex_val_consts [simp]:
  "hex_val CHR ''0'' = Some 0" "hex_val CHR ''2'' = Some 2" "hex_val CHR ''d'' = Some 13"
  "hex_val CHR ''f'' = Some 15"
  by (simp_all add: hex_val_def)

lemma is_hex_consts [simp]:
  "is_hex CHR ''0''" "is_hex CHR ''2''" "is_hex CHR ''d''" "is_hex CHR ''f''"
  by (simp_all add: is_hex_def)

text \<open>A chunk of the writer's output is read by the scanner as a whole.\<close>

definition lit_chunk :: "string \<Rightarrow> bool" where
  "lit_chunk w \<longleftrightarrow> (\<forall>s. scan_str (w @ s) = map_option (\<lambda>(b, r). (w @ b, r)) (scan_str s))"

lemma lit_chunk_append: "lit_chunk v \<Longrightarrow> lit_chunk w \<Longrightarrow> lit_chunk (v @ w)"
  by (simp add: lit_chunk_def option.map_comp o_def split_def)

lemma lit_chunk_Nil: "lit_chunk []"
  by (simp add: lit_chunk_def option.map_id)

lemma lit_chunk_body: "lit_chunk b \<Longrightarrow> str_body b"
  by (simp add: lit_chunk_def str_body_def scan_str_quote)

lemma lit_chunk_quote_ascii: "byte_of c < 0x80 \<Longrightarrow> lit_chunk (quote_ascii c)"
  by (auto simp: lit_chunk_def quote_ascii_def scan_str_escape scan_str_unicode scan_str_plain
      simple_escape_def less_mult_imp_div_less)

lemma lit_chunk_high: "\<forall>c \<in> set w. 0x80 \<le> byte_of c \<Longrightarrow> lit_chunk w"
  unfolding lit_chunk_def by (intro allI scan_str_plain_list) auto

lemma lit_chunk_quote_rune:
  assumes "s \<noteq> []" "0x80 \<le> byte_of (hd s)"
  shows "lit_chunk (quote_rune s)"
proof (cases "bad_head s")
  case True
  then show ?thesis
    by (simp add: quote_rune_def bad_head_def lit_chunk_def scan_str_unicode)
next
  case False
  with assms have "lit_chunk (take (snd (decode_rune s)) s)"
    by (intro lit_chunk_high decode_rune_high)
  with False show ?thesis
    by (auto simp: quote_rune_def bad_head_def split_def Let_def lit_chunk_def scan_str_unicode)
qed

lemma lit_chunk_quote_body: "lit_chunk (quote_body s)"
proof (induction s rule: quote_body.induct)
  case (1 s)
  then show ?case
    by (subst quote_body.simps)
      (auto simp: lit_chunk_Nil split: list.splits
        intro!: lit_chunk_append lit_chunk_quote_ascii lit_chunk_quote_rune)
qed

lemma str_body_quote [simp]: "str_body (quote_body s)"
  by (rule lit_chunk_body) (rule lit_chunk_quote_body)

lemma jvalue_encode_string: "jvalue d (encode_string s)"
  unfolding encode_string_def by (rule jv_str) simp

subsection \<open>What is written is read back\<close>

lemma hex4_digits: "a < 16 \<Longrightarrow> b < 16 \<Longrightarrow> hex4 (x # y # hex_digit a # hex_digit b # s) =
    (case (hex_val x, hex_val y) of (Some u, Some v) \<Rightarrow> Some (((u * 16 + v) * 16 + a) * 16 + b) | _ \<Rightarrow> None)"
  by (simp add: hex4_def hex_val_digit split: option.splits)

lemma unquote_step_u:
  "unquote_step (CHR 0x5C # CHR ''u'' # s) = unquote_unicode (CHR 0x5C # CHR ''u'' # s)"
  by (simp add: unquote_step_def)

lemma unquote_quote_ascii:
  assumes "byte_of c < 0x80"
  shows "unquote (quote_ascii c @ s) = map_option (\<lambda>r. c # r) (unquote s)"
proof -
  have "unquote_step (quote_ascii c @ s) = Some ([c], length (quote_ascii c))"
  proof (cases "c \<in> {CHR 0x22, CHR 0x5C, CHR 0x08, CHR 0x0C, CHR 0x0A, CHR 0x0D, CHR 0x09}")
    case True
    then show ?thesis
      by (elim insertE) (simp_all add: quote_ascii_def unquote_step_def unescape_def)
  next
    case False
    show ?thesis
    proof (cases "byte_of c < 0x20")
      case True
      have d: "byte_of c div 16 < 16" "byte_of c mod 16 < 16" using True by simp_all
      from False True have q: "quote_ascii c =
          [CHR 0x5C, CHR ''u'', CHR ''0'', CHR ''0'', hex_digit (byte_of c div 16), hex_digit (byte_of c mod 16)]"
        by (simp add: quote_ascii_def)
      have "\<not> surrogate (byte_of c)" using True by (simp add: surrogate_def)
      then show ?thesis unfolding q using d assms
        by (simp add: unquote_step_u unquote_unicode_def getu4_def hex4_digits encode_rune_ascii)
    next
      case False': False
      with False have q: "quote_ascii c = [c]" by (simp add: quote_ascii_def)
      with False False' assms show ?thesis by (simp add: unquote_step_def)
    qed
  qed
  moreover have "quote_ascii c \<noteq> []" by (simp add: quote_ascii_def)
  moreover have "(@) [c] = (#) c" by (rule ext) simp
  ultimately show ?thesis using unquote_step_app by metis
qed

lemma unquote_quote_rune:
  assumes "s \<noteq> []" "0x80 \<le> byte_of (hd s)"
  shows "unquote (quote_rune s @ t) =
    map_option (\<lambda>r. encode_rune (fst (decode_rune s)) @ r) (unquote t)"
proof -
  let ?r = "fst (decode_rune s)" and ?n = "snd (decode_rune s)"
  have uni: ?thesis if "quote_rune s = CHR 0x5C # CHR ''u'' # h" "length h = 4"
      "hex4 (h @ t) = Some ?r" "\<not> surrogate ?r" for h
    using that unquote_step_app [of "CHR 0x5C # CHR ''u'' # h" t]
    by (simp add: unquote_step_u unquote_unicode_def getu4_def)
  show ?thesis
  proof (cases "bad_head s")
    case True
    then show ?thesis
      by (intro uni [of "''fffd''"])
        (simp_all add: quote_rune_def bad_head_def hex4_def rune_error_def surrogate_def)
  next
    case good: False
    then have e: "encode_rune ?r = take ?n s" "valid_rune ?r"
      using decode_encode_rune [of s ?r ?n] assms by simp_all
    have nb: "\<not> (?r = rune_error \<and> ?n = 1)"
      using good by (metis bad_head_def prod.collapse)
    show ?thesis
    proof (cases "?r = 0x2028 \<or> ?r = 0x2029")
      case True
      with nb have q: "quote_rune s = CHR 0x5C # CHR ''u'' # [CHR ''2'', CHR ''0'', CHR ''2'', hex_digit (?r mod 16)]"
        by (auto simp: quote_rune_def split_def Let_def)
      have "hex_val (hex_digit (?r mod 16)) = Some (?r mod 16)" by (rule hex_val_digit) simp
      with True show ?thesis
        by (intro uni [OF q]) (auto simp: hex4_def surrogate_def)
    next
      case False
      with nb have q: "quote_rune s = take ?n s"
        by (auto simp: quote_rune_def split_def Let_def)
      obtain c u where s: "s = c # u" using assms(1) by (cases s) auto
      obtain m where n: "?n = Suc m" using decode_rune_width [OF assms(1)] by (cases ?n) auto
      have h: "take ?n s @ t = c # take m u @ t" by (simp only: n) (simp add: s)
      have d: "decode_rune (c # take m u @ t) = (?r, length (take ?n s))"
        using decode_encode_rune_id [OF e(2), of t] e(1) by (simp only: h)
      have "c \<noteq> CHR 0x5C" "c \<noteq> CHR 0x22" "\<not> byte_of c < 0x80" "\<not> byte_of c < 0x20"
        using assms(2) s by auto
      then have "unquote_step (c # take m u @ t) = Some (encode_rune ?r, length (take ?n s))"
        using d by (simp add: unquote_step_def)
      then have "unquote_step (take ?n s @ t) = Some (encode_rune ?r, length (take ?n s))"
        by (simp only: h)
      then show ?thesis unfolding q
        by (rule unquote_step_app) (use assms(1) n in simp)
    qed
  qed
qed

lemma unquote_quote_body: "unquote (quote_body s) = Some (sanitize s)"
proof (induction s rule: quote_body.induct)
  case (1 s)
  show ?case
  proof (cases s)
    case (Cons c t)
    show ?thesis
    proof (cases "byte_of c < 0x80")
      case True
      then have "decode_rune s = (byte_of c, 1)" by (simp add: Cons decode_rune.simps(2))
      with True "1.IH"(1) [OF Cons True] show ?thesis
        by (simp add: quote_body.simps [of "c # t"] sanitize.simps [of "c # t"] Cons unquote_quote_ascii encode_rune_ascii)
    next
      case False
      with "1.IH"(2) [OF Cons False] show ?thesis
        by (simp add: quote_body.simps [of "c # t"] sanitize.simps [of "c # t"] Cons unquote_quote_rune)
    qed
  qed (simp add: quote_body.simps [of "[]"])
qed

lemma encode_rune_valid_ex: "\<exists>r'. valid_rune r' \<and> encode_rune r = encode_rune r'"
proof (cases "valid_rune r")
  case False
  then have "encode_rune r = encode_rune rune_error" by (simp add: encode_rune_def)
  then show ?thesis using valid_rune_error by blast
qed auto

lemma ascii_is_rune: "byte_of c < 0x80 \<Longrightarrow> \<exists>r. valid_rune r \<and> [c] = encode_rune r"
  by (metis encode_rune_ascii encode_rune_valid_ex)

lemma unescape_ascii: "unescape e = Some x \<Longrightarrow> byte_of x < 0x80"
  by (auto simp: unescape_def split: if_splits)

lemma unquote_step_valid: "unquote_step s = Some (w, n) \<Longrightarrow> \<exists>r. valid_rune r \<and> w = encode_rune r"
  using encode_rune_valid_ex
  by (auto simp: unquote_step_def unquote_unicode_def split_def Let_def
      split: list.splits if_splits option.splits intro: ascii_is_rune dest: unescape_ascii)

lemma unquote_valid: "unquote s = Some t \<Longrightarrow> valid_utf8 t"
proof (induction s arbitrary: t rule: unquote.induct)
  case (1 s)
  show ?case
  proof (cases "s = []")
    case False
    with "1.prems" obtain w n r where st: "unquote_step s = Some (w, n)"
        and r: "unquote (drop n s) = Some r" "t = w @ r"
      by (auto simp: unquote.simps [of s] split: option.splits)
    from "1.IH" [OF False st refl r(1)] have "valid_utf8 r" .
    with unquote_step_valid [OF st] r(2) show ?thesis by (auto simp: valid_utf8_append_rune)
  qed (use "1.prems" in simp)
qed

lemma unquote_quote_id: "valid_utf8 s \<Longrightarrow> unquote (quote_body s) = Some s"
  by (simp add: unquote_quote_body sanitize_valid)

subsection \<open>A scanned literal is always readable\<close>

lemma scan_str_drop_high:
  "scan_str s = Some (b, r) \<Longrightarrow> \<forall>c \<in> set (take n b). 0x80 \<le> byte_of c \<Longrightarrow> n \<le> length b \<Longrightarrow>
    \<exists>s'. scan_str s' = Some (drop n b, r) \<and> length s' + n = length s"
proof (induction n arbitrary: s b)
  case (Suc n)
  then obtain c b' where b: "b = c # b'" by (cases b) auto
  have s: "s = c # b' @ CHR 0x22 # r" using scan_str_consume [OF Suc.prems(1)] b by simp
  have c: "0x80 \<le> byte_of c" using Suc.prems(2) b by simp
  then have "c \<noteq> CHR 0x22" "c \<noteq> CHR 0x5C" "0x20 \<le> byte_of c" by auto
  then have "scan_str (b' @ CHR 0x22 # r) = Some (b', r)"
    using Suc.prems(1) by (auto simp: s b scan_str_plain)
  from Suc.IH [OF this] Suc.prems(2,3) show ?case by (auto simp: b s)
qed auto

lemma unquote_unicode_total:
  assumes "is_hex a" "is_hex b" "is_hex c" "is_hex d"
  shows "\<exists>w n. unquote_unicode (CHR 0x5C # CHR ''u'' # a # b # c # d # t) = Some (w, n) \<and>
    (n = 6 \<or> n = 12 \<and> (\<exists>x. getu4 t = Some x))"
  using assms
  by (auto simp: unquote_unicode_def getu4_def [of "CHR 0x5C # CHR ''u'' # a # b # c # d # t"]
      hex4_def is_hex_def bind_eq_Some_conv split: option.splits)

lemma getu4_Some: "getu4 t = Some x \<Longrightarrow> \<exists>a b c d u. t = CHR 0x5C # CHR ''u'' # a # b # c # d # u"
  by (auto simp: getu4_def hex4_def split: list.splits if_splits)

lemma unquote_more:
  "b \<noteq> [] \<Longrightarrow> unquote_step b = Some (w, n) \<Longrightarrow> unquote (drop n b) \<noteq> None \<Longrightarrow> unquote b \<noteq> None"
  by (subst unquote.simps) auto

lemma unquote_total: "scan_str s = Some (b, r) \<Longrightarrow> unquote b \<noteq> None"
proof (induction s arbitrary: b rule: length_induct)
  case (1 s)
  then obtain c t where s: "s = c # t" by (cases s) auto
  have IH: "unquote b1 \<noteq> None" if "length s1 < length s" "scan_str s1 = Some (b1, r)" for s1 b1
    using "1.IH" that by blast
  from "1.prems" [unfolded s] show ?case
  proof (cases rule: scan_str_SomeE)
    case (escape e s1 b1)
    then obtain x where "e \<noteq> CHR ''u''" "unescape e = Some x"
      by (auto simp: simple_escape_def unescape_def)
    with escape IH [of s1 b1] s show ?thesis
      by (intro unquote_more [of b "[x]" 2]) (auto simp: unquote_step_def)
  next
    case (unicode h1 h2 h3 h4 s1 b1)
    obtain w n where w: "unquote_unicode b = Some (w, n)" "n = 6 \<or> n = 12 \<and> (\<exists>x. getu4 b1 = Some x)"
      using unquote_unicode_total [OF unicode(3-6), of b1] unicode by auto
    have r1: "unquote b1 \<noteq> None" using IH [of s1 b1] unicode s by simp
    have "unquote (drop 12 b) \<noteq> None" if g: "getu4 b1 = Some x" for x
    proof -
      obtain a' b' c' d' u where b1: "b1 = CHR 0x5C # CHR ''u'' # a' # b' # c' # d' # u"
        using getu4_Some [OF g] by blast
      have s1: "s1 = CHR 0x5C # CHR ''u'' # a' # b' # c' # d' # u @ CHR 0x22 # r"
        using scan_str_consume [OF unicode(8)] b1 by simp
      from unicode(8) [unfolded s1 b1] have "scan_str (u @ CHR 0x22 # r) = Some (u, r)"
        by (cases rule: scan_str_SomeE) (auto simp: not_simple_escape_u)
      from IH [OF _ this] have "unquote u \<noteq> None" using s unicode(2) s1 by simp
      then show ?thesis by (simp add: unicode b1)
    qed
    with w r1 have "unquote (drop n b) \<noteq> None" using unicode by auto
    with w unicode show ?thesis by (intro unquote_more [of b w n]) (auto simp: unquote_step_u)
  next
    case (plain b1)
    show ?thesis
    proof (cases "byte_of c < 0x80")
      case True
      with plain IH [of t b1] s show ?thesis
        by (intro unquote_more [of b _ 1]) (auto simp: unquote_step_def)
    next
      case False
      let ?n = "snd (decode_rune b)"
      have st: "unquote_step b = Some (encode_rune (fst (decode_rune b)), ?n)"
        using plain False by (simp add: unquote_step_def split_def Let_def)
      have b: "b \<noteq> []" "0x80 \<le> byte_of (hd b)" using plain False by auto
      have "\<forall>c \<in> set (take ?n b). 0x80 \<le> byte_of c"
      proof (cases "bad_head b")
        case True
        then show ?thesis using b by (cases b) (auto simp: bad_head_def)
      qed (use decode_rune_high b in blast)
      then obtain s' where s': "scan_str s' = Some (drop ?n b, r)" "length s' + ?n = length s"
        using scan_str_drop_high [OF "1.prems"] decode_rune_width [OF b(1)] by blast
      have "length s' < length s" using s'(2) decode_rune_width [OF b(1)] by linarith
      from IH [OF this s'(1)] have "unquote (drop ?n b) \<noteq> None" .
      with b(1) st show ?thesis by (rule unquote_more)
    qed
  qed simp
qed

lemma str_body_unquote: "str_body b \<Longrightarrow> \<exists>t. unquote b = Some t"
  unfolding str_body_def using unquote_total by fastforce

end
