(* ===== verification/JsonMap.thy ===== *)
theory JsonMap
  imports JsonString
begin

text \<open>
  The JSON helpers of \<^verbatim>\<open>rewrite.go\<close> and \<^verbatim>\<open>sse_log.go\<close>: objects as maps of raw messages,
  arrays as lists of raw messages, strings and booleans out of a raw message, and back. A Go
  error is \<open>None\<close>. The law that ties them together: encoding a map of well-formed raw
  messages and decoding the result gives the same keys, with every value compacted.
\<close>

subsection \<open>Decoding\<close>

definition json_blank :: "string \<Rightarrow> bool" where
  "json_blank raw = (let s = trim_space raw in length s = 0 \<or> s = ''null'')"

text \<open>The members of the object at the start of \<open>s\<close> and what follows it.\<close>

definition scan_object :: "string \<Rightarrow> ((string \<times> string) list \<times> string) option" where
  "scan_object s =
    (case skip_ws s of
       [] \<Rightarrow> None
     | c # r \<Rightarrow>
         if c \<noteq> CHR ''{'' then None
         else (case skip_ws r of
                 [] \<Rightarrow> None
               | x # t \<Rightarrow> if x = CHR ''}'' then Some ([], t) else scan_members (length s) 1 (x # t)))"

definition scan_array :: "string \<Rightarrow> (string list \<times> string) option" where
  "scan_array s =
    (case skip_ws s of
       [] \<Rightarrow> None
     | c # r \<Rightarrow>
         if c \<noteq> CHR 0x5B then None
         else (case skip_ws r of
                 [] \<Rightarrow> None
               | x # t \<Rightarrow> if x = CHR 0x5D then Some ([], t) else scan_elems (length s) 1 (x # t)))"

definition decode_members :: "(string \<times> string) list \<Rightarrow> string gomap" where
  "decode_members ms = map_from (map (\<lambda>(k, v). (the_or [] (unquote k), v)) ms)"

text \<open>
  \<^verbatim>\<open>decodeJSONRawObject\<close>: one object and nothing but white space after it. The later of two
  members with the same key wins.
\<close>

definition decode_json_raw_object :: "string \<Rightarrow> string gomap option" where
  "decode_json_raw_object body =
    (case scan_object body of
       None \<Rightarrow> None
     | Some (ms, rest) \<Rightarrow> if skip_ws rest = [] then Some (decode_members ms) else None)"

definition unmarshal_raw_array :: "string \<Rightarrow> string list option" where
  "unmarshal_raw_array raw =
    (if json_blank raw then Some []
     else (case scan_array raw of
             None \<Rightarrow> None
           | Some (vs, rest) \<Rightarrow> if skip_ws rest = [] then Some vs else None))"

definition raw_json_string :: "string \<Rightarrow> string option" where
  "raw_json_string raw =
    (if json_blank raw then Some []
     else (case skip_ws raw of
             [] \<Rightarrow> None
           | c # r \<Rightarrow>
               if c \<noteq> CHR 0x22 then None
               else (case scan_str r of
                       None \<Rightarrow> None
                     | Some (b, rest) \<Rightarrow> if skip_ws rest = [] then unquote b else None)))"

definition json_trim :: "string \<Rightarrow> string" where
  "json_trim s = rev (skip_ws (rev (skip_ws s)))"

definition raw_json_bool :: "string \<Rightarrow> bool option" where
  "raw_json_bool raw =
    (if json_blank raw then Some False
     else if json_trim raw = ''true'' then Some True
     else if json_trim raw = ''false'' then Some False
     else None)"

definition is_json_string :: "string \<Rightarrow> bool" where
  "is_json_string raw = (case trim_space raw of [] \<Rightarrow> False | c # _ \<Rightarrow> c = CHR 0x22)"

definition is_json_null :: "string \<Rightarrow> bool" where
  "is_json_null raw = (trim_space raw = ''null'')"

subsection \<open>Encoding\<close>

definition valid_json :: "string \<Rightarrow> bool" where
  "valid_json s =
    (case scan_value (Suc (length s)) 0 (skip_ws s) of
       None \<Rightarrow> False
     | Some (v, r) \<Rightarrow> skip_ws r = [])"

text \<open>A raw message inside an encoder: compacted, an error when it is not one JSON value.\<close>

definition encode_raw :: "string \<Rightarrow> string option" where
  "encode_raw raw = (if valid_json raw then Some (compact raw) else None)"

definition encode_member :: "string \<times> string \<Rightarrow> string option" where
  "encode_member kv =
    (case kv of (k, v) \<Rightarrow> map_option (\<lambda>e. encode_string k @ CHR '':'' # e) (encode_raw v))"

definition encode_json_raw_object :: "string gomap \<Rightarrow> string option" where
  "encode_json_raw_object m =
    map_option (\<lambda>ms. CHR ''{'' # join '','' ms @ ''}'') (those (map encode_member (sort_key fst m)))"

definition encode_json_raw_array :: "string list \<Rightarrow> string option" where
  "encode_json_raw_array vs =
    map_option (\<lambda>es. CHR 0x5B # join '','' es @ [CHR 0x5D]) (those (map encode_raw vs))"

subsection \<open>Raw messages\<close>

lemma jvalue_depth_mono:
  shows "jvalue d v \<Longrightarrow> d' \<le> d \<Longrightarrow> jvalue d' v"
    and "jelems d vs t \<Longrightarrow> d' \<le> d \<Longrightarrow> jelems d' vs t"
    and "jmembers d ms t \<Longrightarrow> d' \<le> d \<Longrightarrow> jmembers d' ms t"
proof (induction arbitrary: d' and d' and d' rule: jvalue_jelems_jmembers.inducts)
  case (jv_obj d w ms t)
  then have "d' < max_nesting" "jmembers (d' + 1) ms t" by auto
  then show ?case using jv_obj(2) jvalue_jelems_jmembers.jv_obj by blast
next
  case (jv_arr d w vs t)
  then have "d' < max_nesting" "jelems (d' + 1) vs t" by auto
  then show ?case using jv_arr(2) jvalue_jelems_jmembers.jv_arr by blast
qed (auto intro: grammar_intros)

lemma value_head_plain: "value_head c \<Longrightarrow> plain_ascii c"
  by (auto simp: value_head_def num_char_def is_digit_def plain_ascii_def)

lemma num_char_plain: "num_char c \<Longrightarrow> plain_ascii c"
  by (auto simp: num_char_def is_digit_def plain_ascii_def)

lemma grammar_last:
  shows "jvalue d v \<Longrightarrow> plain_ascii (last v)"
    and "jelems d vs t \<Longrightarrow> last t = CHR 0x5D"
    and "jmembers d ms t \<Longrightarrow> last t = CHR ''}''"
proof (induction rule: jvalue_jelems_jmembers.inducts)
  case (jv_num v d)
  then show ?case using num_text_chars num_char_plain by fastforce
qed (auto simp: plain_ascii_def dest: grammar_heads)

lemma jvalue_trim [simp]: "jvalue d v \<Longrightarrow> trim_space v = v"
  using grammar_heads(1) grammar_last(1) by (intro trim_space_id) (auto simp: value_head_plain)

lemma jvalue_blank: "jvalue d v \<Longrightarrow> json_blank v \<longleftrightarrow> v = ''null''"
  using grammar_heads(1) by (auto simp: json_blank_def Let_def)

lemma jvalue_skip_ws [simp]: "jvalue d v \<Longrightarrow> skip_ws v = v"
  using grammar_heads(1) [of d v] skip_ws_text [of v "[]"] by auto

lemma plain_not_ws: "plain_ascii c \<Longrightarrow> \<not> json_ws c"
  by (auto simp: plain_ascii_def json_ws_def)

lemma jvalue_json_trim [simp]: "jvalue d v \<Longrightarrow> json_trim v = v"
proof -
  assume v: "jvalue d v"
  then have "v \<noteq> []" "\<not> json_ws (last v)" using grammar_heads(1) grammar_last(1) plain_not_ws by blast+
  then obtain u c where "v = u @ [c]" "\<not> json_ws c" by (metis append_butlast_last_id)
  with v show ?thesis by (simp add: json_trim_def)
qed

lemma jvalue_valid: "jvalue d v \<Longrightarrow> 0 \<le> d \<Longrightarrow> valid_json v"
  using scan_value_complete [OF jvalue_depth_mono(1) [of d v 0], of "Suc (length v)" "[]"]
  by (simp add: valid_json_def)

lemma jvalue_encode_raw: "jvalue d v \<Longrightarrow> 0 \<le> d \<Longrightarrow> encode_raw v = Some (compact v)"
  by (simp add: encode_raw_def jvalue_valid)

lemma is_json_string_raw: "jvalue d v \<Longrightarrow> is_json_string v \<longleftrightarrow> hd v = CHR 0x22"
  using grammar_heads(1) [of d v] by (cases v) (auto simp: is_json_string_def)

lemma num_text_not_quote: "num_text v \<Longrightarrow> hd v \<noteq> CHR 0x22"
  using num_text_chars by (metis hd_in_set num_char_punct(5))

lemma jvalue_quoteE:
  assumes "jvalue d v" "hd v = CHR 0x22"
  obtains b where "str_body b" "v = CHR 0x22 # b @ [CHR 0x22]"
  using assms by (cases rule: jvalue.cases) (auto dest: num_text_not_quote)

lemma raw_json_string_literal: "str_body b \<Longrightarrow> raw_json_string (CHR 0x22 # b @ [CHR 0x22]) = unquote b"
  using jvalue_blank [OF jv_str, of b] str_body_scan [of b "[]"]
  by (simp add: raw_json_string_def)

lemma raw_json_string_total: "jvalue d v \<Longrightarrow> is_json_string v \<Longrightarrow> \<exists>x. raw_json_string v = Some x"
  by (metis is_json_string_raw jvalue_quoteE raw_json_string_literal str_body_unquote)

lemma raw_json_string_valid: "raw_json_string v = Some x \<Longrightarrow> valid_utf8 x"
  by (auto simp: raw_json_string_def dest: unquote_valid
      split: if_splits list.splits option.splits prod.splits)

lemma raw_json_string_encode: "raw_json_string (encode_string x) = Some (sanitize x)"
  unfolding encode_string_def by (simp add: raw_json_string_literal unquote_quote_body)

lemma is_json_string_encode [simp]: "is_json_string (encode_string x)"
  using jvalue_encode_string [of 0 x] by (auto simp: is_json_string_raw encode_string_def)

lemma compact_encode_string [simp]: "compact (encode_string x) = encode_string x"
  unfolding encode_string_def by (rule compact_str) simp

subsection \<open>Maps of raw messages\<close>

text \<open>
  \<open>raw_map d m\<close>: a map as the decoder leaves it, its values well-formed inside \<open>d\<close>
  open brackets and its keys valid UTF-8.
\<close>

definition raw_map :: "int \<Rightarrow> string gomap \<Rightarrow> bool" where
  "raw_map d m \<longleftrightarrow> distinct_keys m \<and> (\<forall>(k, v) \<in> set m. jvalue d v \<and> valid_utf8 k)"

lemma raw_map_distinct: "raw_map d m \<Longrightarrow> distinct_keys m"
  by (simp add: raw_map_def)

lemma raw_map_get: "raw_map d m \<Longrightarrow> map_of m k = Some v \<Longrightarrow> jvalue d v"
  by (auto simp: raw_map_def dest!: map_of_SomeD)

lemma raw_map_mono: "raw_map d m \<Longrightarrow> d' \<le> d \<Longrightarrow> raw_map d' m"
  by (auto simp: raw_map_def intro: jvalue_depth_mono)

lemma set_update_subset: "x \<in> set (AList.update k v m) \<Longrightarrow> x = (k, v) \<or> x \<in> set m"
  by (induction m) (auto split: if_splits)

lemma raw_map_update [wf_intros]:
  "raw_map d m \<Longrightarrow> jvalue d v \<Longrightarrow> valid_utf8 k \<Longrightarrow> raw_map d (AList.update k v m)"
  unfolding raw_map_def by (auto simp: distinct_update dest!: set_update_subset)

lemma raw_map_foldl:
  "raw_map d m0 \<Longrightarrow> \<forall>(k, v) \<in> set kvs. jvalue d v \<and> valid_utf8 k \<Longrightarrow>
    raw_map d (foldl (\<lambda>m (k, v). AList.update k v m) m0 kvs)"
  by (induction kvs arbitrary: m0) (auto intro: raw_map_update)

lemma jmembers_values: "jmembers d ms t \<Longrightarrow> \<forall>(k, v) \<in> set ms. str_body k \<and> jvalue d v"
  by (induction d ms t rule: jvalue_jelems_jmembers.inducts(3)
      [where ?P1.0 = "\<lambda>_ _. True" and ?P2.0 = "\<lambda>_ _ _. True"]) auto

lemma jelems_values: "jelems d vs t \<Longrightarrow> \<forall>v \<in> set vs. jvalue d v"
  by (induction d vs t rule: jvalue_jelems_jmembers.inducts(2)
      [where ?P1.0 = "\<lambda>_ _. True" and ?P3.0 = "\<lambda>_ _ _. True"]) auto

lemma raw_map_decode_members:
  assumes "\<forall>(k, v) \<in> set ms. str_body k \<and> jvalue d v"
  shows "raw_map d (decode_members ms)"
  unfolding decode_members_def map_from_def
proof (rule raw_map_foldl)
  show "raw_map d []" by (simp add: raw_map_def)
  show "\<forall>(k, v) \<in> set (map (\<lambda>(k, v). (the_or [] (unquote k), v)) ms). jvalue d v \<and> valid_utf8 k"
    using assms by (fastforce dest: str_body_unquote intro: unquote_valid)
qed

text \<open>The text of an object and what its members are, at any nesting.\<close>

definition jobject :: "int \<Rightarrow> (string \<times> string) list \<Rightarrow> string \<Rightarrow> bool" where
  "jobject d ms v \<longleftrightarrow> d < max_nesting \<and>
    (ms = [] \<and> (\<exists>w. all_ws w \<and> v = CHR ''{'' # w @ ''}'') \<or>
     (\<exists>w t. all_ws w \<and> jmembers (d + 1) ms t \<and> v = CHR ''{'' # w @ t))"

lemma jobject_jvalue: "jobject d ms v \<Longrightarrow> jvalue d v"
  by (auto simp: jobject_def intro: grammar_intros)

lemma jobject_values: "jobject d ms v \<Longrightarrow> \<forall>(k, v) \<in> set ms. str_body k \<and> jvalue (d + 1) v"
  by (auto simp: jobject_def dest: jmembers_values)

lemma jvalue_braceE:
  assumes "jvalue d v" "hd v = CHR ''{''"
  obtains ms where "jobject d ms v"
  using assms
proof (cases rule: jvalue.cases)
  case jv_num
  then have "num_char CHR ''{''" using num_text_chars assms(2) by (metis hd_in_set)
  then show ?thesis by (simp add: num_char_def is_digit_def)
next
  case (jv_obj0 w)
  then show ?thesis using that [of "[]"] by (auto simp: jobject_def)
next
  case (jv_obj w ms t)
  then show ?thesis using that [of ms] by (auto simp: jobject_def)
qed (use assms(2) in auto)

lemma scan_object_complete:
  assumes "jobject d ms v" "0 \<le> d" "all_ws w0"
  shows "scan_object (w0 @ v @ r) = Some (ms, r)"
  using assms(1) unfolding jobject_def
proof (elim conjE disjE exE)
  fix w assume "ms = []" "all_ws w" "v = CHR ''{'' # w @ ''}''"
  then show ?thesis using assms(3) by (simp add: scan_object_def skip_ws_all_ws)
next
  fix w t assume t: "all_ws w" "jmembers (d + 1) ms t" "v = CHR ''{'' # w @ t"
  then have "jmembers 1 ms t" using assms(2) by (auto intro: jvalue_depth_mono)
  then have "scan_members (length (w0 @ v @ r)) 1 (t @ r) = Some (ms, r)"
    using t by (intro scan_members_complete) auto
  moreover obtain t' where "t = CHR 0x22 # t'" using grammar_heads(3) [OF t(2)] by (cases t) auto
  ultimately show ?thesis using t assms(3) by (simp add: scan_object_def skip_ws_all_ws)
qed

lemma scan_object_sound:
  assumes "scan_object s = Some (ms, r)"
  shows "\<exists>w v. all_ws w \<and> s = w @ v @ r \<and> jobject 0 ms v"
proof -
  obtain y where y: "skip_ws s = CHR ''{'' # y"
    using assms by (auto simp: scan_object_def split: list.splits if_splits)
  obtain w1 where w1: "all_ws w1" "s = w1 @ CHR ''{'' # y" using skip_ws_split [of s] y by auto
  obtain x t where x: "skip_ws y = x # t"
    using assms y by (auto simp: scan_object_def split: list.splits if_splits)
  obtain w2 where w2: "all_ws w2" "y = w2 @ x # t" using skip_ws_split [of y] x by auto
  have d: "0 < max_nesting" by (simp add: max_nesting_def)
  show ?thesis
  proof (cases "x = CHR ''}''")
    case True
    with assms x y have "ms = []" "r = t" by (auto simp: scan_object_def)
    with w1 w2 d True show ?thesis
      by (intro exI [of _ w1] exI [of _ "CHR ''{'' # w2 @ ''}''"]) (auto simp: jobject_def)
  next
    case False
    with assms x y have "scan_members (length s) 1 (x # t) = Some (ms, r)"
      by (simp add: scan_object_def)
    then obtain t' where t': "jmembers 1 ms t'" "x # t = t' @ r" using scan_members_sound by blast
    with w1 w2 d show ?thesis
      by (intro exI [of _ w1] exI [of _ "CHR ''{'' # w2 @ t'"]) (auto simp: jobject_def)
  qed
qed

lemma skip_ws_Nil_iff: "skip_ws s = [] \<longleftrightarrow> all_ws s"
  by (auto simp: skip_ws_def all_ws_def dropWhile_eq_Nil_conv)

text \<open>
  The decoder, specified by the grammar: it accepts exactly one object with white space around
  it, and yields its members.
\<close>

lemma decode_json_raw_object_sound:
  assumes "decode_json_raw_object s = Some m"
  obtains w1 v w2 ms where "all_ws w1" "all_ws w2" "s = w1 @ v @ w2" "jobject 0 ms v"
    "m = decode_members ms"
proof -
  obtain ms r where r: "scan_object s = Some (ms, r)" "skip_ws r = []" "m = decode_members ms"
    using assms by (auto simp: decode_json_raw_object_def split: option.splits if_splits)
  with scan_object_sound [OF r(1)] show ?thesis by (auto intro: that simp: skip_ws_Nil_iff)
qed

lemma decode_raw_map: "decode_json_raw_object s = Some m \<Longrightarrow> raw_map 1 m"
  using jobject_values raw_map_decode_members
  by (elim decode_json_raw_object_sound) fastforce

lemma decode_jobject:
  "jobject d ms v \<Longrightarrow> 0 \<le> d \<Longrightarrow> all_ws w1 \<Longrightarrow> all_ws w2 \<Longrightarrow>
    decode_json_raw_object (w1 @ v @ w2) = Some (decode_members ms)"
  using scan_object_complete [of d ms v w1 w2]
  by (simp add: decode_json_raw_object_def skip_ws_Nil_iff)

text \<open>What the encoder writes.\<close>

definition member_text :: "string \<times> string \<Rightarrow> string" where
  "member_text kv = encode_string (fst kv) @ CHR '':'' # compact (snd kv)"

definition object_text :: "string gomap \<Rightarrow> string" where
  "object_text m = CHR ''{'' # join '','' (map member_text m) @ ''}''"

lemma jmembers_join:
  "ms \<noteq> [] \<Longrightarrow> \<forall>(k, v) \<in> set ms. jvalue d v \<Longrightarrow>
    jmembers d (map (apfst quote_body) ms)
      (join '','' (map (\<lambda>(k, v). encode_string k @ CHR '':'' # v) ms) @ ''}'')"
proof (induction ms)
  case (Cons kv ms)
  obtain k v where kv: "kv = (k, v)" by (cases kv)
  have v: "jvalue d v" using Cons.prems kv by simp
  have t: "jkey (quote_body k) [] [] @ z = encode_string k @ CHR '':'' # z" for z
    by (simp add: jkey_def encode_string_def)
  show ?case
  proof (cases "ms = []")
    case True
    then show ?thesis
      using jm_last [of "quote_body k" "[]" "[]" d v "[]"] v t kv by simp
  next
    case False
    then show ?thesis
      using jm_more [of "quote_body k" "[]" "[]" d v "[]" "[]"] v t kv Cons
      by (simp add: join_Cons)
  qed
qed simp

lemma jobject_join:
  assumes "\<forall>(k, v) \<in> set ms. jvalue (d + 1) v" "d < max_nesting"
  shows "jobject d (map (apfst quote_body) ms)
    (CHR ''{'' # join '','' (map (\<lambda>(k, v). encode_string k @ CHR '':'' # v) ms) @ ''}'')"
proof (cases "ms = []")
  case True
  with assms show ?thesis by (auto simp: jobject_def all_ws_def)
next
  case False
  from jmembers_join [OF this assms(1)] show ?thesis
    using assms(2) unfolding jobject_def by (metis all_ws_Nil append_Nil)
qed

lemma encode_object_text:
  assumes "raw_map d m" "0 \<le> d"
  shows "encode_json_raw_object m = Some (object_text (sort_key fst m))"
proof -
  have "those (map encode_member (sort_key fst m)) = Some (map member_text (sort_key fst m))"
    using assms
    by (intro those_Some)
      (auto simp: raw_map_def encode_member_def member_text_def jvalue_encode_raw)
  then show ?thesis by (simp add: encode_json_raw_object_def object_text_def)
qed

lemma jobject_object_text:
  assumes "raw_map (d + 1) m" "d < max_nesting"
  shows "jobject d (map (\<lambda>(k, v). (quote_body k, compact v)) m) (object_text m)"
proof -
  have "\<forall>(k, v) \<in> set (map (apsnd compact) m). jvalue (d + 1) v"
    using assms(1) grammar_compact(1) unfolding raw_map_def by fastforce
  from jobject_join [OF this assms(2)] show ?thesis
    by (simp add: object_text_def member_text_def [abs_def] case_prod_beta' comp_def)
qed

lemma decode_members_text:
  assumes "raw_map d m"
  shows "decode_members (map (\<lambda>(k, v). (quote_body k, compact v)) m) = map (apsnd compact) m"
proof -
  have "map (\<lambda>(k, v). (the_or [] (unquote k), v)) (map (\<lambda>(k, v). (quote_body k, compact v)) m) =
      map (apsnd compact) m"
    using assms by (auto simp: raw_map_def unquote_quote_id)
  then show ?thesis
    using assms by (simp only: decode_members_def map_from_id raw_map_distinct distinct_keys_apsnd)
qed

lemma raw_map_sort: "raw_map d m \<Longrightarrow> raw_map d (sort_key fst m)"
  by (simp add: raw_map_def distinct_keys_sort_key)

lemma raw_map_compact: "raw_map d m \<Longrightarrow> raw_map d (map (apsnd compact) m)"
  unfolding raw_map_def using grammar_compact(1) by fastforce

lemma encode_total: "raw_map d m \<Longrightarrow> 0 \<le> d \<Longrightarrow> \<exists>s. encode_json_raw_object m = Some s"
  by (simp add: encode_object_text)

lemma encode_jvalue:
  assumes "encode_json_raw_object m = Some s" "raw_map (d + 1) m" "0 \<le> d" "d < max_nesting"
  shows "jvalue d s"
  using assms jobject_object_text [OF raw_map_sort, of d m]
  by (auto simp: encode_object_text intro: jobject_jvalue)

lemma decode_encode:
  assumes "raw_map (d + 1) m" "0 \<le> d" "d < max_nesting" "encode_json_raw_object m = Some s"
  shows "decode_json_raw_object s = Some (map (apsnd compact) (sort_key fst m))"
proof -
  have "jobject d (map (\<lambda>(k, v). (quote_body k, compact v)) (sort_key fst m)) s"
    using assms jobject_object_text [OF raw_map_sort, OF assms(1)] by (auto simp: encode_object_text)
  then show ?thesis
    using decode_jobject [of d _ s "[]" "[]"] decode_members_text [OF raw_map_sort, OF assms(1)] assms(2)
    by simp
qed

lemma decode_encode_lookup:
  assumes "raw_map (d + 1) m" "0 \<le> d" "d < max_nesting" "encode_json_raw_object m = Some s"
  shows "\<exists>m'. decode_json_raw_object s = Some m' \<and> distinct_keys m' \<and>
    (\<forall>k. map_of m' k = map_option compact (map_of m k))"
  using decode_encode [OF assms] raw_map_distinct [OF assms(1)]
  by (simp add: map_of_apsnd map_of_sort_key distinct_keys_sort_key)

end
