(* ===== verification/JsonValue.thy ===== *)
theory JsonValue
  imports JsonMap
begin

text \<open>
  Values given to the JSON encoder: strings, integers, maps, structs and lists. Every encoded
  value is one JSON value of the grammar, and the encoding of a map decodes to its keys with
  the texts of its values.
\<close>

subsection \<open>Values\<close>

text \<open>
  \<open>JMap\<close> is a Go map, encoded in the order of its keys, \<open>JStruct\<close> a struct, in the order of
  its fields.
\<close>

datatype json_value =
    JStr string
  | JInt int
  | JMap "(string \<times> json_value) list"
  | JStruct "(string \<times> json_value) list"
  | JList "json_value list"

fun digits :: "nat \<Rightarrow> string" where
  "digits n = (if n < 10 then [char_of (48 + n)] else digits (n div 10) @ [char_of (48 + n mod 10)])"

declare digits.simps [simp del]

definition int_text :: "int \<Rightarrow> string" where
  "int_text i = (if i < 0 then CHR ''-'' # digits (nat (- i)) else digits (nat i))"

fun encode_value :: "json_value \<Rightarrow> string" where
  "encode_value (JStr s) = encode_string s"
| "encode_value (JInt i) = int_text i"
| "encode_value (JMap kvs) =
    CHR ''{'' # join '','' (map snd (sort_key fst (map (\<lambda>(k, v). (k, encode_string k @ CHR '':'' # encode_value v)) kvs))) @ ''}''"
| "encode_value (JStruct kvs) =
    CHR ''{'' # join '','' (map (\<lambda>(k, v). encode_string k @ CHR '':'' # encode_value v) kvs) @ ''}''"
| "encode_value (JList vs) = CHR 0x5B # join '','' (map encode_value vs) @ [CHR 0x5D]"

subsection \<open>Encoded values are JSON\<close>

text \<open>How deep a value nests.\<close>

fun value_depth :: "json_value \<Rightarrow> nat" where
  "value_depth (JStr s) = 0"
| "value_depth (JInt i) = 0"
| "value_depth (JMap kvs) = Suc (foldr max (map (\<lambda>(k, v). value_depth v) kvs) 0)"
| "value_depth (JStruct kvs) = Suc (foldr max (map (\<lambda>(k, v). value_depth v) kvs) 0)"
| "value_depth (JList vs) = Suc (foldr max (map value_depth vs) 0)"

lemma digit_char: "k < 10 \<Longrightarrow> is_digit (char_of (48 + k :: nat))"
  by (simp add: is_digit_def of_char_of)

lemma digits_are_digits: "list_all is_digit (digits n) \<and> digits n \<noteq> []"
  by (induction n rule: digits.induct) (subst (1 2) digits.simps, simp add: digit_char)

lemma digits_head: "0 < n \<Longrightarrow> hd (digits n) \<noteq> CHR ''0''"
proof (induction n rule: digits.induct)
  case (1 n)
  show ?case
  proof (cases "n < 10")
    case True
    then have "(of_char (char_of (48 + n)) :: nat) \<noteq> of_char CHR ''0''"
      using 1(2) by (simp add: of_char_of)
    then have "char_of (48 + n) \<noteq> CHR ''0''" by metis
    with True show ?thesis by (subst digits.simps) simp
  next
    case False
    with 1 digits_are_digits [of "n div 10"] show ?thesis
      by (subst digits.simps) (simp add: hd_append)
  qed
qed

lemma scan_int_digits: "scan_int (digits n) = Some (digits n, [])"
proof (cases "n = 0")
  case True
  moreover have "char_of (48 :: nat) = CHR ''0''"
    by (rule of_char_eqI [where 'a = nat]) (simp add: of_char_of)
  ultimately show ?thesis by (simp add: scan_int_def digits.simps)
next
  case False
  have d: "takeWhile is_digit (digits n) = digits n" "dropWhile is_digit (digits n) = []"
    using digits_are_digits [of n] by (auto simp: list_all_iff)
  obtain c r where "digits n = c # r" using digits_are_digits [of n] by (cases "digits n") auto
  with digits_head [of n] False d show ?thesis by (simp add: scan_int_def scan_digits1_def)
qed

lemma num_text_int: "num_text (int_text i)"
proof -
  have *: "scan_frac [] = Some ([], [])" "scan_exp [] = Some ([], [])"
    by (simp_all add: scan_frac_def scan_exp_def)
  have "scan_num (digits n) = Some (digits n, []) \<and>
      scan_num (CHR ''-'' # digits n) = Some (CHR ''-'' # digits n, [])" for n
  proof -
    obtain c r where cr: "digits n = c # r" "is_digit c"
      using digits_are_digits [of n] by (cases "digits n") auto
    then have "c \<noteq> CHR ''-''" by (auto simp: is_digit_def)
    with cr scan_int_digits [of n] * show ?thesis by (simp add: scan_num_def)
  qed
  then show ?thesis by (auto simp: num_text_def int_text_def)
qed

lemma jelems_join:
  "vs \<noteq> [] \<Longrightarrow> \<forall>v \<in> set vs. jvalue d v \<Longrightarrow> jelems d vs (join '','' vs @ [CHR 0x5D])"
proof (induction vs)
  case (Cons v vs)
  show ?case
  proof (cases "vs = []")
    case True
    then show ?thesis using je_last [of d v "[]"] Cons.prems by simp
  next
    case False
    then show ?thesis using je_more [of d v "[]" "[]" vs] Cons by (simp add: join_Cons)
  qed
qed simp

lemma jvalue_array:
  assumes "\<forall>v \<in> set vs. jvalue (d + 1) v" "d < max_nesting"
  shows "jvalue d (CHR 0x5B # join '','' vs @ [CHR 0x5D])"
proof (cases "vs = []")
  case True
  then show ?thesis using jv_arr0 [of d "[]"] assms(2) by simp
next
  case False
  from jelems_join [OF this assms(1)] show ?thesis
    using jv_arr [of d "[]"] assms(2) by simp
qed

lemma foldr_max_le: "foldr max (map f xs) 0 \<le> (n :: nat) \<longleftrightarrow> (\<forall>x \<in> set xs. f x \<le> n)"
  by (induction xs) auto

lemma sort_members:
  "map snd (sort_key fst (map (\<lambda>(k, v). (k, f k v)) kvs)) = map (\<lambda>(k, v). f k v) (sort_key fst kvs)"
proof -
  have "sort_key fst (map (\<lambda>(k, v). (k, f k v)) kvs) = map (\<lambda>(k, v). (k, f k v)) (sort_key fst kvs)"
  proof (induction kvs)
    case (Cons kv kvs)
    have "insort_key fst (case kv of (k, v) \<Rightarrow> (k, f k v)) (map (\<lambda>(k, v). (k, f k v)) xs) =
        map (\<lambda>(k, v). (k, f k v)) (insort_key fst kv xs)" for xs
      by (induction xs) (auto split: prod.splits)
    with Cons show ?case by simp
  qed simp
  then show ?thesis by (simp add: case_prod_beta' comp_def)
qed

text \<open>The members of an encoded map: its keys in order, each with the text of its value.\<close>

abbreviation member_texts :: "(string \<times> json_value) list \<Rightarrow> (string \<times> string) list" where
  "member_texts kvs \<equiv> map (apsnd encode_value) kvs"

lemma encode_map_join:
  "encode_value (JMap kvs) = CHR ''{'' # join '',''
    (map (\<lambda>(k, v). encode_string k @ CHR '':'' # v) (member_texts (sort_key fst kvs))) @ ''}''"
  using sort_members [of "\<lambda>k v. encode_string k @ CHR '':'' # encode_value v" kvs]
  by (simp add: case_prod_beta' comp_def)

lemma encode_struct_join:
  "encode_value (JStruct kvs) = CHR ''{'' # join '',''
    (map (\<lambda>(k, v). encode_string k @ CHR '':'' # v) (member_texts kvs)) @ ''}''"
  by (simp add: case_prod_beta' comp_def)

declare encode_value.simps(3,4) [simp del]

lemma encode_value_jvalue:
  "d + int (value_depth v) \<le> max_nesting \<Longrightarrow> jvalue d (encode_value v)"
proof (induction v arbitrary: d rule: encode_value.induct)
  case (1 s)
  then show ?case by (simp add: jvalue_encode_string)
next
  case (2 i)
  then show ?case using num_text_int by (simp add: jv_num)
next
  case (3 kvs)
  then have "\<forall>(k, v) \<in> set kvs. value_depth v \<le> nat (max_nesting - d - 1)" "d < max_nesting"
    by (auto simp: foldr_max_le [symmetric] case_prod_beta')
  then have "\<forall>(k, v) \<in> set (member_texts (sort_key fst kvs)). jvalue (d + 1) v"
    using 3(1) by fastforce
  from jobject_jvalue [OF jobject_join [OF this \<open>d < max_nesting\<close>]] show ?case
    unfolding encode_map_join .
next
  case (4 kvs)
  then have "\<forall>(k, v) \<in> set kvs. value_depth v \<le> nat (max_nesting - d - 1)" "d < max_nesting"
    by (auto simp: foldr_max_le [symmetric] case_prod_beta')
  then have "\<forall>(k, v) \<in> set (member_texts kvs). jvalue (d + 1) v"
    using 4(1) by fastforce
  from jobject_jvalue [OF jobject_join [OF this \<open>d < max_nesting\<close>]] show ?case
    unfolding encode_struct_join .
next
  case (5 vs)
  then have "\<forall>v \<in> set vs. value_depth v \<le> nat (max_nesting - d - 1)" "d < max_nesting"
    by (auto simp: foldr_max_le [symmetric])
  with 5(1) have "\<forall>v \<in> set (map encode_value vs). jvalue (d + 1) v" by fastforce
  from jvalue_array [OF this \<open>d < max_nesting\<close>] show ?case by simp
qed

subsection \<open>Decoding an encoded map\<close>


lemma decode_members_quoted:
  assumes "distinct_keys ms" "\<forall>(k, v) \<in> set ms. valid_utf8 k"
  shows "decode_members (map (apfst quote_body) ms) = ms"
proof -
  have "map (\<lambda>(k, v). (the_or [] (unquote k), v)) (map (apfst quote_body) ms) = map id ms"
    unfolding map_map using assms(2) by (intro map_cong) (auto simp: unquote_quote_id)
  then show ?thesis
    using assms(1) by (simp only: decode_members_def map_from_id list.map_id)
qed

lemma decode_map_value:
  assumes "distinct_keys kvs" "\<forall>(k, v) \<in> set kvs. valid_utf8 k"
    and "int (value_depth (JMap kvs)) \<le> max_nesting" "all_ws w"
  shows "decode_json_raw_object (encode_value (JMap kvs) @ w) = Some (member_texts (sort_key fst kvs))"
proof -
  let ?ms = "member_texts (sort_key fst kvs)"
  have d: "0 < max_nesting" by (simp add: max_nesting_def)
  have "\<forall>(k, v) \<in> set kvs. value_depth v \<le> nat (max_nesting - 1)"
    using assms(3) by (auto simp: foldr_max_le [symmetric] case_prod_beta')
  then have "\<forall>(k, v) \<in> set ?ms. jvalue (0 + 1) v"
    using d by (fastforce intro: encode_value_jvalue)
  from jobject_join [OF this d]
  have "jobject 0 (map (apfst quote_body) ?ms) (encode_value (JMap kvs))"
    unfolding encode_map_join .
  from decode_jobject [OF this, of "[]" w] assms(4)
  have "decode_json_raw_object (encode_value (JMap kvs) @ w) =
      Some (decode_members (map (apfst quote_body) ?ms))" by simp
  also have "decode_members (map (apfst quote_body) ?ms) = ?ms"
    using assms(1,2) by (intro decode_members_quoted) (auto simp: distinct_keys_sort_key)
  finally show ?thesis .
qed

lemma decode_string_None: "decode_json_raw_object (encode_string s) = None"
  by (simp add: decode_json_raw_object_def scan_object_def encode_string_def)

lemma decode_map_value':
  "distinct_keys kvs \<Longrightarrow> list_all (\<lambda>(k, v). ascii k) kvs \<Longrightarrow>
    int (value_depth (JMap kvs)) \<le> max_nesting \<Longrightarrow>
    decode_json_raw_object (encode_value (JMap kvs)) = Some (member_texts (sort_key fst kvs)) \<and>
    decode_json_raw_object (encode_value (JMap kvs) @ [CHR 0x0A]) = Some (member_texts (sort_key fst kvs))"
proof -
  assume "distinct_keys kvs" "list_all (\<lambda>(k, v). ascii k) kvs"
    "int (value_depth (JMap kvs)) \<le> max_nesting"
  moreover from this(2) have "\<forall>(k, v) \<in> set kvs. valid_utf8 k"
    by (auto simp: list_all_iff intro: valid_utf8_ascii)
  ultimately show ?thesis
    using decode_map_value [of kvs "[]"] decode_map_value [of kvs "[CHR 0x0A]"]
    by (simp add: all_ws_def json_ws_def)
qed

end
