(* ===== verification/Usage.thy ===== *)
theory Usage
  imports JsonValue "HOL-Library.Word"
begin

text \<open>
  The token counts of \<^verbatim>\<open>usage.go\<close>: the JSON fields of every vendor (\<open>usage_fields\<close>), how they
  become one count (\<open>as_token_usage\<close>), how counts of a stream are merged (\<open>merge_usage\<close>), and
  the parsers of a body and of an SSE line. Counts are \<^verbatim>\<open>int64\<close>: words of 64 bits whose
  additions wrap, read by \<open>sint\<close>. A number that is not an integer literal goes through
  \<^verbatim>\<open>float64\<close>: the parameter \<open>float64\<close>, the literal's value converted to \<^verbatim>\<open>int64\<close>, \<open>None\<close> when
  it is out of range.
\<close>

type_synonym int64 = "64 word"

subsection \<open>Counts\<close>

record token_usage =
  Input :: int64
  Output :: int64
  CacheRead :: int64
  CacheCreation :: int64
  Uncached :: int64
  ResponseModel :: string

definition no_usage :: token_usage where
  "no_usage = \<lparr>Input = 0, Output = 0, CacheRead = 0, CacheCreation = 0, Uncached = 0, ResponseModel = []\<rparr>"

definition usage_empty :: "token_usage \<Rightarrow> bool" where
  "usage_empty u = (Input u = 0 \<and> Output u = 0 \<and> CacheRead u = 0 \<and> CacheCreation u = 0 \<and> Uncached u = 0)"

definition fill_uncached :: "token_usage \<Rightarrow> token_usage" where
  "fill_uncached u =
    (if Input u = 0 then u
     else
       let left = Input u - CacheRead u - CacheCreation u;
           left = (if sint left < 0 then 0 else left) in
       u\<lparr>Uncached := left\<rparr>)"

definition keep_nonzero :: "int64 \<Rightarrow> int64 \<Rightarrow> int64" where
  "keep_nonzero s d = (if s \<noteq> 0 then s else d)"

definition merge_usage :: "token_usage \<Rightarrow> token_usage \<Rightarrow> token_usage" where
  "merge_usage dst src =
    (if usage_empty src \<and> ResponseModel src = [] then dst
     else
       let dst = dst\<lparr>Input := keep_nonzero (Input src) (Input dst),
                     Output := keep_nonzero (Output src) (Output dst),
                     CacheRead := keep_nonzero (CacheRead src) (CacheRead dst),
                     CacheCreation := keep_nonzero (CacheCreation src) (CacheCreation dst),
                     ResponseModel := (if ResponseModel src \<noteq> [] then ResponseModel src
                                       else ResponseModel dst)\<rparr> in
       if Uncached src \<noteq> 0 then dst\<lparr>Uncached := Uncached src\<rparr> else fill_uncached dst)"

subsection \<open>Numbers\<close>

text \<open>\<^verbatim>\<open>json.Unmarshal\<close> of a literal into an \<^verbatim>\<open>int64\<close>: an integer literal in range.\<close>

definition digit_val :: "char \<Rightarrow> nat" where
  "digit_val c = (of_char c :: nat) - 48"

definition nat_of_digits :: "string \<Rightarrow> nat" where
  "nat_of_digits ds = foldl (\<lambda>n c. 10 * n + digit_val c) 0 ds"

definition parse_int64 :: "string \<Rightarrow> int64 option" where
  "parse_int64 lit =
    (let (neg, ds) = (case lit of c # r \<Rightarrow> if c = CHR ''-'' then (True, r) else (False, lit)
                      | [] \<Rightarrow> (False, []));
         v = (if neg then - int (nat_of_digits ds) else int (nat_of_digits ds)) in
     if ds \<noteq> [] \<and> list_all is_digit ds \<and> - (2 ^ 63) \<le> v \<and> v < 2 ^ 63 then Some (word_of_int v)
     else None)"

text \<open>
  \<^verbatim>\<open>json.Unmarshal\<close> of a whole text into a number: one number with white space around it;
  \<^verbatim>\<open>null\<close> leaves the zero value.
\<close>

definition unmarshal_number :: "(string \<Rightarrow> int64 option) \<Rightarrow> string \<Rightarrow> int64 option" where
  "unmarshal_number conv s =
    (if json_trim s = ''null'' then Some 0
     else (case scan_num (json_trim s) of
             Some (lit, []) \<Rightarrow> conv lit
           | _ \<Rightarrow> None))"

definition unmarshal_json_int64 :: "(string \<Rightarrow> int64 option) \<Rightarrow> string \<Rightarrow> int64 option" where
  "unmarshal_json_int64 float64 b0 =
    (if json_blank b0 then Some 0
     else
       let b = trim_space b0 in
       do {
         b \<leftarrow> (if hd b = CHR 0x22 then map_option trim_space (raw_json_string b) else Some b);
         if b = [] then Some 0
         else (case unmarshal_number parse_int64 b of
                 Some i \<Rightarrow> Some i
               | None \<Rightarrow> unmarshal_number float64 b)
       })"

subsection \<open>Decoding into structs\<close>

text \<open>
  \<^verbatim>\<open>encoding/json\<close> decodes an object into a struct member by member, in order; a key names the
  field it equals up to case folding, other keys are skipped. A conversion error makes the
  whole \<^verbatim>\<open>Unmarshal\<close> fail, which is all its callers look at: \<open>None\<close>.
\<close>

fun decode_fields ::
  "(string \<times> ('r \<Rightarrow> string \<Rightarrow> 'r option)) list \<Rightarrow> 'r \<Rightarrow> (string \<times> string) list \<Rightarrow> 'r option" where
  "decode_fields fs r [] = Some r"
| "decode_fields fs r ((k, v) # ms) =
    (case find (\<lambda>f. equal_fold k (fst f)) fs of
       None \<Rightarrow> decode_fields fs r ms
     | Some (_, set_field) \<Rightarrow>
         (case set_field r v of None \<Rightarrow> None | Some r' \<Rightarrow> decode_fields fs r' ms))"

text \<open>
  The members of a text that is one object. A text that is \<^verbatim>\<open>null\<close> leaves the struct as it is,
  like an object without members; any other text is an error.
\<close>

definition struct_members :: "string \<Rightarrow> (string \<times> string) list option" where
  "struct_members s =
    (if json_trim s = ''null'' then Some []
     else (case scan_object s of
             Some (ms, rest) \<Rightarrow>
               if skip_ws rest = [] then Some (map (\<lambda>(k, v). (the_or [] (unquote k), v)) ms) else None
           | None \<Rightarrow> None))"

definition unmarshal_struct ::
  "(string \<times> ('r \<Rightarrow> string \<Rightarrow> 'r option)) list \<Rightarrow> 'r \<Rightarrow> string \<Rightarrow> 'r option" where
  "unmarshal_struct fs zero s =
    (case struct_members s of None \<Rightarrow> None | Some ms \<Rightarrow> decode_fields fs zero ms)"

text \<open>A pointer field: \<^verbatim>\<open>null\<close> clears it, an object is decoded into what it points to.\<close>

definition pointer_field ::
  "(string \<times> ('r \<Rightarrow> string \<Rightarrow> 'r option)) list \<Rightarrow> 'r \<Rightarrow> 'r option \<Rightarrow> string \<Rightarrow> 'r option option" where
  "pointer_field fs zero old v =
    (if v = ''null'' then Some None
     else map_option Some (unmarshal_struct fs (the_or zero old) v))"

text \<open>A string field: \<^verbatim>\<open>null\<close> leaves it, a value that is not a string is an error.\<close>

definition string_field :: "string \<Rightarrow> string \<Rightarrow> string option" where
  "string_field old v =
    (if v = ''null'' then Some old else if is_json_string v then raw_json_string v else None)"

subsection \<open>Usage objects\<close>

record prompt_details =
  PdCachedTokens :: int64

record input_details =
  IdCachedTokens :: int64
  IdImageTokens :: int64
  IdTextTokens :: int64

record cache_details =
  Ephemeral5mInputTokens :: int64
  Ephemeral1hInputTokens :: int64

record usage_fields =
  PromptTokens :: int64
  CompletionTokens :: int64
  TotalTokens :: int64
  InputTokens :: int64
  OutputTokens :: int64
  CachedTokens :: int64
  CacheReadInputTokens :: int64
  CacheCreationInputTokens :: int64
  PromptCacheHitTokens :: int64
  PromptCacheMissTokens :: int64
  PromptEvalCount :: int64
  EvalCount :: int64
  ImageTokens :: int64
  PromptTokensDetails :: "prompt_details option"
  InputTokensDetails :: "input_details option"
  CacheCreationDetails :: "cache_details option"

definition zero_prompt_details :: prompt_details where
  "zero_prompt_details = \<lparr>PdCachedTokens = 0\<rparr>"

definition zero_input_details :: input_details where
  "zero_input_details = \<lparr>IdCachedTokens = 0, IdImageTokens = 0, IdTextTokens = 0\<rparr>"

definition zero_cache_details :: cache_details where
  "zero_cache_details = \<lparr>Ephemeral5mInputTokens = 0, Ephemeral1hInputTokens = 0\<rparr>"

definition zero_fields :: usage_fields where
  "zero_fields = \<lparr>PromptTokens = 0, CompletionTokens = 0, TotalTokens = 0, InputTokens = 0,
    OutputTokens = 0, CachedTokens = 0, CacheReadInputTokens = 0, CacheCreationInputTokens = 0,
    PromptCacheHitTokens = 0, PromptCacheMissTokens = 0, PromptEvalCount = 0, EvalCount = 0,
    ImageTokens = 0, PromptTokensDetails = None, InputTokensDetails = None,
    CacheCreationDetails = None\<rparr>"

text \<open>A count field: its setter applied to the parsed count.\<close>

definition int_field ::
  "(string \<Rightarrow> int64 option) \<Rightarrow> (int64 \<Rightarrow> 'r \<Rightarrow> 'r) \<Rightarrow> 'r \<Rightarrow> string \<Rightarrow> 'r option" where
  "int_field float64 set_count r v = map_option (\<lambda>i. set_count i r) (unmarshal_json_int64 float64 v)"

definition prompt_details_fields where
  "prompt_details_fields float64 =
    [(''cached_tokens'', int_field float64 (\<lambda>i r :: prompt_details. r\<lparr>PdCachedTokens := i\<rparr>))]"

definition input_details_fields where
  "input_details_fields float64 =
    [(''cached_tokens'', int_field float64 (\<lambda>i r :: input_details. r\<lparr>IdCachedTokens := i\<rparr>)),
     (''image_tokens'', int_field float64 (\<lambda>i r. r\<lparr>IdImageTokens := i\<rparr>)),
     (''text_tokens'', int_field float64 (\<lambda>i r. r\<lparr>IdTextTokens := i\<rparr>))]"

definition cache_details_fields where
  "cache_details_fields float64 =
    [(''ephemeral_5m_input_tokens'',
      int_field float64 (\<lambda>i r :: cache_details. r\<lparr>Ephemeral5mInputTokens := i\<rparr>)),
     (''ephemeral_1h_input_tokens'', int_field float64 (\<lambda>i r. r\<lparr>Ephemeral1hInputTokens := i\<rparr>))]"

definition usage_fields_fields where
  "usage_fields_fields float64 =
    [(''prompt_tokens'', int_field float64 (\<lambda>i r :: usage_fields. r\<lparr>PromptTokens := i\<rparr>)),
     (''completion_tokens'', int_field float64 (\<lambda>i r. r\<lparr>CompletionTokens := i\<rparr>)),
     (''total_tokens'', int_field float64 (\<lambda>i r. r\<lparr>TotalTokens := i\<rparr>)),
     (''input_tokens'', int_field float64 (\<lambda>i r. r\<lparr>InputTokens := i\<rparr>)),
     (''output_tokens'', int_field float64 (\<lambda>i r. r\<lparr>OutputTokens := i\<rparr>)),
     (''cached_tokens'', int_field float64 (\<lambda>i r. r\<lparr>CachedTokens := i\<rparr>)),
     (''cache_read_input_tokens'', int_field float64 (\<lambda>i r. r\<lparr>CacheReadInputTokens := i\<rparr>)),
     (''cache_creation_input_tokens'', int_field float64 (\<lambda>i r. r\<lparr>CacheCreationInputTokens := i\<rparr>)),
     (''prompt_cache_hit_tokens'', int_field float64 (\<lambda>i r. r\<lparr>PromptCacheHitTokens := i\<rparr>)),
     (''prompt_cache_miss_tokens'', int_field float64 (\<lambda>i r. r\<lparr>PromptCacheMissTokens := i\<rparr>)),
     (''prompt_eval_count'', int_field float64 (\<lambda>i r. r\<lparr>PromptEvalCount := i\<rparr>)),
     (''eval_count'', int_field float64 (\<lambda>i r. r\<lparr>EvalCount := i\<rparr>)),
     (''image_tokens'', int_field float64 (\<lambda>i r. r\<lparr>ImageTokens := i\<rparr>)),
     (''prompt_tokens_details'', \<lambda>r v.
       map_option (\<lambda>p. r\<lparr>PromptTokensDetails := p\<rparr>)
         (pointer_field (prompt_details_fields float64) zero_prompt_details (PromptTokensDetails r) v)),
     (''input_tokens_details'', \<lambda>r v.
       map_option (\<lambda>p. r\<lparr>InputTokensDetails := p\<rparr>)
         (pointer_field (input_details_fields float64) zero_input_details (InputTokensDetails r) v)),
     (''cache_creation'', \<lambda>r v.
       map_option (\<lambda>p. r\<lparr>CacheCreationDetails := p\<rparr>)
         (pointer_field (cache_details_fields float64) zero_cache_details (CacheCreationDetails r) v))]"

definition first_nonzero :: "int64 list \<Rightarrow> int64" where
  "first_nonzero xs = foldl (\<lambda>acc x. if acc = 0 then x else acc) 0 xs"

text \<open>
  \<^verbatim>\<open>asTokenUsage\<close>, count by count: the chains \<^verbatim>\<open>if x == 0 { x = ... }\<close> take the first count
  that is not zero; a missing details object counts as zero.
\<close>

definition cache_read_of :: "usage_fields \<Rightarrow> int64" where
  "cache_read_of u = first_nonzero
    [CacheReadInputTokens u, PromptCacheHitTokens u,
     (case PromptTokensDetails u of None \<Rightarrow> 0 | Some d \<Rightarrow> PdCachedTokens d),
     (case InputTokensDetails u of None \<Rightarrow> 0 | Some d \<Rightarrow> IdCachedTokens d), CachedTokens u]"

definition cache_creation_of :: "usage_fields \<Rightarrow> int64" where
  "cache_creation_of u =
    (case CacheCreationDetails u of
       None \<Rightarrow> CacheCreationInputTokens u
     | Some d \<Rightarrow> if CacheCreationInputTokens u = 0
                then Ephemeral5mInputTokens d + Ephemeral1hInputTokens d
                else CacheCreationInputTokens u)"

definition output_of :: "usage_fields \<Rightarrow> int64" where
  "output_of u = first_nonzero [CompletionTokens u, OutputTokens u, EvalCount u]"

definition reported_input :: "usage_fields \<Rightarrow> int64" where
  "reported_input u =
    first_nonzero [PromptTokens u,
      InputTokens u + (CacheReadInputTokens u + cache_creation_of u), PromptEvalCount u] + ImageTokens u"

definition input_of :: "usage_fields \<Rightarrow> int64" where
  "input_of u =
    (if reported_input u = 0 \<and> 0 < sint (TotalTokens u)
     then (if sint (TotalTokens u - output_of u) < 0 then 0 else TotalTokens u - output_of u)
     else reported_input u)"

definition as_token_usage :: "usage_fields \<Rightarrow> token_usage" where
  "as_token_usage u =
    (let usage = \<lparr>Input = input_of u, Output = output_of u, CacheRead = cache_read_of u,
                  CacheCreation = cache_creation_of u, Uncached = PromptCacheMissTokens u,
                  ResponseModel = []\<rparr> in
     if Uncached usage = 0 then fill_uncached usage else usage)"

record nested_usage =
  NestedModel :: string
  NestedUsage :: "usage_fields option"

record usage_envelope =
  EnvModel :: string
  EnvUsage :: "usage_fields option"
  EnvMessage :: "nested_usage option"
  EnvResponse :: "nested_usage option"

definition zero_nested :: nested_usage where
  "zero_nested = \<lparr>NestedModel = [], NestedUsage = None\<rparr>"

definition zero_envelope :: usage_envelope where
  "zero_envelope = \<lparr>EnvModel = [], EnvUsage = None, EnvMessage = None, EnvResponse = None\<rparr>"

definition nested_fields where
  "nested_fields float64 =
    [(''model'', \<lambda>r :: nested_usage. \<lambda>v.
       map_option (\<lambda>s. r\<lparr>NestedModel := s\<rparr>) (string_field (NestedModel r) v)),
     (''usage'', \<lambda>r v. map_option (\<lambda>p. r\<lparr>NestedUsage := p\<rparr>)
       (pointer_field (usage_fields_fields float64) zero_fields (NestedUsage r) v))]"

definition envelope_fields where
  "envelope_fields float64 =
    [(''model'', \<lambda>r :: usage_envelope. \<lambda>v.
       map_option (\<lambda>s. r\<lparr>EnvModel := s\<rparr>) (string_field (EnvModel r) v)),
     (''usage'', \<lambda>r v. map_option (\<lambda>p. r\<lparr>EnvUsage := p\<rparr>)
       (pointer_field (usage_fields_fields float64) zero_fields (EnvUsage r) v)),
     (''message'', \<lambda>r v. map_option (\<lambda>p. r\<lparr>EnvMessage := p\<rparr>)
       (pointer_field (nested_fields float64) zero_nested (EnvMessage r) v)),
     (''response'', \<lambda>r v. map_option (\<lambda>p. r\<lparr>EnvResponse := p\<rparr>)
       (pointer_field (nested_fields float64) zero_nested (EnvResponse r) v))]"

definition merge_nested_usage :: "token_usage \<Rightarrow> nested_usage option \<Rightarrow> token_usage" where
  "merge_nested_usage out nested =
    (case nested of
       None \<Rightarrow> out
     | Some n \<Rightarrow>
         let out = (if NestedModel n \<noteq> [] then out\<lparr>ResponseModel := NestedModel n\<rparr> else out) in
         (case NestedUsage n of
            None \<Rightarrow> out
          | Some f \<Rightarrow>
              let u = (as_token_usage f)\<lparr>ResponseModel := NestedModel n\<rparr>;
                  u = (if ResponseModel u = [] then u\<lparr>ResponseModel := ResponseModel out\<rparr> else u) in
              merge_usage out u))"

definition parse_usage_json :: "(string \<Rightarrow> int64 option) \<Rightarrow> bytes \<Rightarrow> token_usage" where
  "parse_usage_json float64 body =
    (case unmarshal_struct (envelope_fields float64) zero_envelope body of
       None \<Rightarrow> no_usage
     | Some resp \<Rightarrow>
         let out = no_usage;
             out = (case unmarshal_struct (usage_fields_fields float64) zero_fields body of
                      None \<Rightarrow> out
                    | Some flat \<Rightarrow> merge_usage out (as_token_usage flat));
             out = merge_nested_usage out (EnvMessage resp);
             out = merge_nested_usage out (EnvResponse resp);
             out = (if EnvModel resp \<noteq> [] then out\<lparr>ResponseModel := EnvModel resp\<rparr> else out) in
         (case EnvUsage resp of None \<Rightarrow> out | Some f \<Rightarrow> merge_usage out (as_token_usage f)))"

definition sse_payload :: "bytes \<Rightarrow> bytes option" where
  "sse_payload line0 =
    (let line = trim_space line0 in
     if prefix ''data:'' line then Some (trim_space (drop (length ''data:'') line)) else None)"

definition parse_usage_sse_line :: "(string \<Rightarrow> int64 option) \<Rightarrow> bytes \<Rightarrow> token_usage" where
  "parse_usage_sse_line float64 line =
    (case sse_payload line of
       None \<Rightarrow> no_usage
     | Some payload \<Rightarrow>
         if payload = [] \<or> payload = ''[DONE]'' then no_usage
         else parse_usage_json float64 payload)"

definition is_sse_data_line :: "bytes \<Rightarrow> bool" where
  "is_sse_data_line line = (case sse_payload line of None \<Rightarrow> False | Some payload \<Rightarrow> payload \<noteq> [])"

subsection \<open>Merging\<close>

text \<open>The last element that is not the default.\<close>

definition last_not :: "'a \<Rightarrow> 'a list \<Rightarrow> 'a" where
  "last_not z xs = foldl (\<lambda>acc x. if x \<noteq> z then x else acc) z xs"

lemma last_not_snoc [simp]: "last_not z (xs @ [x]) = (if x \<noteq> z then x else last_not z xs)"
  by (simp add: last_not_def)

lemma last_not_Nil [simp]: "last_not z [] = z"
  by (simp add: last_not_def)

lemma last_not_mem: "last_not z xs = z \<or> last_not z xs \<in> set xs"
  by (induction xs rule: rev_induct) auto

lemma fill_uncached_simps [simp]:
  "Input (fill_uncached u) = Input u" "Output (fill_uncached u) = Output u"
  "CacheRead (fill_uncached u) = CacheRead u" "CacheCreation (fill_uncached u) = CacheCreation u"
  "ResponseModel (fill_uncached u) = ResponseModel u"
  by (simp_all add: fill_uncached_def Let_def)

lemma merge_usage_simps [simp]:
  "Input (merge_usage d s) = keep_nonzero (Input s) (Input d)"
  "Output (merge_usage d s) = keep_nonzero (Output s) (Output d)"
  "CacheRead (merge_usage d s) = keep_nonzero (CacheRead s) (CacheRead d)"
  "CacheCreation (merge_usage d s) = keep_nonzero (CacheCreation s) (CacheCreation d)"
  "ResponseModel (merge_usage d s) = (if ResponseModel s \<noteq> [] then ResponseModel s else ResponseModel d)"
  by (simp_all add: merge_usage_def usage_empty_def keep_nonzero_def Let_def)

lemma merge_no_usage [simp]: "merge_usage u no_usage = u"
  by (simp add: merge_usage_def usage_empty_def no_usage_def)

lemma no_usage_simps [simp]:
  "Input no_usage = 0" "Output no_usage = 0" "CacheRead no_usage = 0" "CacheCreation no_usage = 0"
  "Uncached no_usage = 0" "ResponseModel no_usage = []"
  by (simp_all add: no_usage_def)

text \<open>The counts of a whole stream, merged line by line.\<close>

definition merge_all :: "token_usage list \<Rightarrow> token_usage" where
  "merge_all us = foldl merge_usage no_usage us"

lemma merge_all_snoc [simp]: "merge_all (us @ [u]) = merge_usage (merge_all us) u"
  by (simp add: merge_all_def)

lemma merge_all_Nil [simp]: "merge_all [] = no_usage"
  by (simp add: merge_all_def)

lemma merge_all_fields:
  "Input (merge_all us) = last_not 0 (map Input us) \<and>
   Output (merge_all us) = last_not 0 (map Output us) \<and>
   CacheRead (merge_all us) = last_not 0 (map CacheRead us) \<and>
   CacheCreation (merge_all us) = last_not 0 (map CacheCreation us) \<and>
   ResponseModel (merge_all us) = last_not [] (map ResponseModel us)"
  by (induction us rule: rev_induct) (simp_all add: keep_nonzero_def)

text \<open>
  What the uncached count of a stream is once a line with counts has come: the last one
  reported, or, when the last line with anything reported none, the input less the cached
  tokens, never negative.
\<close>

definition uncached_of :: "int64 \<Rightarrow> int64 \<Rightarrow> int64 \<Rightarrow> int64" where
  "uncached_of inp cr cc = (if sint (inp - cr - cc) < 0 then 0 else inp - cr - cc)"

lemma merge_usage_uncached:
  "Uncached (merge_usage d s) =
    (if usage_empty s \<and> ResponseModel s = [] then Uncached d
     else if Uncached s \<noteq> 0 then Uncached s
     else if Input (merge_usage d s) = 0 then Uncached d
     else uncached_of (Input (merge_usage d s)) (CacheRead (merge_usage d s))
            (CacheCreation (merge_usage d s)))"
  by (simp add: merge_usage_def fill_uncached_def uncached_of_def Let_def keep_nonzero_def)

subsection \<open>Integers read back\<close>

lemma nat_of_digits_snoc: "nat_of_digits (ds @ [c]) = 10 * nat_of_digits ds + digit_val c"
  by (simp add: nat_of_digits_def)

lemma nat_of_digits: "nat_of_digits (digits n) = n"
proof (induction n rule: digits.induct)
  case (1 n)
  have d: "digit_val (char_of (48 + k :: nat)) = k" if "k < 10" for k
    using that by (simp add: digit_val_def of_char_of)
  show ?case
  proof (cases "n < 10")
    case True
    then show ?thesis using d [of n] by (subst digits.simps) (simp add: nat_of_digits_def)
  next
    case False
    then show ?thesis
      using 1 d [of "n mod 10"] by (subst digits.simps) (simp add: nat_of_digits_snoc)
  qed
qed

lemma digits_no_sign: "\<exists>c r. digits n = c # r \<and> c \<noteq> CHR ''-'' \<and> c \<noteq> CHR 0x22 \<and> is_digit c"
proof -
  obtain c r where "digits n = c # r" "is_digit c"
    using digits_are_digits [of n] by (cases "digits n") auto
  then show ?thesis by (auto simp: is_digit_def)
qed

lemma parse_int_text:
  assumes "- (2 ^ 63) \<le> i" "i < 2 ^ 63"
  shows "parse_int64 (int_text i) = Some (word_of_int i)"
proof (cases "i < 0")
  case True
  then show ?thesis
    using assms digits_are_digits [of "nat (- i)"]
    by (simp add: parse_int64_def int_text_def nat_of_digits Let_def)
next
  case False
  obtain c r where c: "digits (nat i) = c # r" "c \<noteq> CHR ''-''" using digits_no_sign by blast
  then have "nat_of_digits (c # r) = nat i" "list_all is_digit (c # r)"
    using nat_of_digits [of "nat i"] digits_are_digits [of "nat i"] by auto
  with c False assms show ?thesis by (simp add: parse_int64_def int_text_def Let_def)
qed

lemma int_text_head: "\<exists>c r. int_text i = c # r \<and> c \<noteq> CHR 0x22 \<and> int_text i \<noteq> ''null''"
proof (cases "i < 0")
  case False
  then show ?thesis using digits_no_sign [of "nat i"] by (auto simp: int_text_def is_digit_def)
qed (simp add: int_text_def)

lemma unmarshal_int_text:
  assumes "- (2 ^ 63) \<le> i" "i < 2 ^ 63"
  shows "unmarshal_number parse_int64 (int_text i) = Some (word_of_int i)"
proof -
  have j: "jvalue 0 (int_text i)" using num_text_int by (rule jv_num)
  have "scan_num (int_text i) = Some (int_text i, [])" using num_text_int by (simp add: num_text_def)
  with assms int_text_head [of i] show ?thesis
    by (auto simp: unmarshal_number_def jvalue_json_trim [OF j] parse_int_text)
qed

text \<open>
  A count survives its encodings. Every \<^verbatim>\<open>int64\<close>, written as a JSON integer or as a JSON
  string of the same digits, is read back as itself, whatever \<^verbatim>\<open>float64\<close> would have made of it.
\<close>

theorem json_int64_roundtrip:
  assumes "- (2 ^ 63) \<le> i" "i < 2 ^ 63"
  shows "unmarshal_json_int64 float64 (int_text i) = Some (word_of_int i) \<and>
    unmarshal_json_int64 float64 (encode_string (int_text i)) = Some (word_of_int i)"
proof
  have j: "jvalue 0 (int_text i)" using num_text_int by (rule jv_num)
  have t: "trim_space (int_text i) = int_text i" by (rule jvalue_trim [OF j])
  have c: "int_text i \<noteq> []" "hd (int_text i) \<noteq> CHR 0x22" "int_text i \<noteq> ''null''"
    using int_text_head [of i] by auto
  note u = unmarshal_int_text [OF assms]
  show "unmarshal_json_int64 float64 (int_text i) = Some (word_of_int i)"
    using c u by (simp add: unmarshal_json_int64_def jvalue_blank [OF j] t Let_def)
  have j': "jvalue 0 (encode_string (int_text i))" by (rule jvalue_encode_string)
  have "ascii (int_text i)"
    using num_text_chars [OF num_text_int [of i]] num_char_plain
    by (auto simp: ascii_def list_all_iff plain_ascii_def)
  then have s: "sanitize (int_text i) = int_text i" by (simp add: sanitize_valid valid_utf8_ascii)
  have h: "hd (encode_string (int_text i)) = CHR 0x22" by (simp add: encode_string_def)
  then have "encode_string (int_text i) \<noteq> ''null''" by auto
  with c u show "unmarshal_json_int64 float64 (encode_string (int_text i)) = Some (word_of_int i)"
    by (simp add: unmarshal_json_int64_def jvalue_blank [OF j'] jvalue_trim [OF j'] h
        raw_json_string_encode s t Let_def)
qed

theorem json_int64_roundtrip_witness:
  "unmarshal_json_int64 (\<lambda>_. None) (encode_string (int_text (- 9223372036854775808))) =
    Some (word_of_int (- 9223372036854775808))"
  using json_int64_roundtrip [of "- 9223372036854775808" "\<lambda>_. None"] by simp

subsection \<open>Streams\<close>

lemma not_data_line: "\<not> is_sse_data_line line \<Longrightarrow> parse_usage_sse_line float64 line = no_usage"
  by (auto simp: is_sse_data_line_def parse_usage_sse_line_def split: option.splits)

lemma merge_all_filter:
  "merge_all (map (parse_usage_sse_line float64) (filter is_sse_data_line lines)) =
    merge_all (map (parse_usage_sse_line float64) lines)"
  by (induction lines rule: rev_induct) (auto simp: not_data_line)

text \<open>
  The counts of an SSE stream. Each count is the last non-zero one any line reports, the
  model the last one named; lines that are not data (comments, event names, blank lines) take
  no part.
\<close>

theorem stream_usage_last_wins:
  "let us = map (parse_usage_sse_line float64) lines; u = merge_all us in
    Input u = last_not 0 (map Input us) \<and> Output u = last_not 0 (map Output us) \<and>
    CacheRead u = last_not 0 (map CacheRead us) \<and>
    CacheCreation u = last_not 0 (map CacheCreation us) \<and>
    ResponseModel u = last_not [] (map ResponseModel us) \<and>
    u = merge_all (map (parse_usage_sse_line float64) (filter is_sse_data_line lines))"
  using merge_all_fields [of "map (parse_usage_sse_line float64) lines"]
  by (simp add: Let_def merge_all_filter)

subsection \<open>No wrap-around\<close>

definition small :: "int64 \<Rightarrow> bool" where
  "small x \<longleftrightarrow> 0 \<le> sint x \<and> sint x < 2 ^ 60"

lemma small_0 [simp]: "small 0"
  by (simp add: small_def)

definition small_fields :: "usage_fields \<Rightarrow> bool" where
  "small_fields u \<longleftrightarrow>
    small (PromptTokens u) \<and> small (CompletionTokens u) \<and> small (TotalTokens u) \<and>
    small (InputTokens u) \<and> small (OutputTokens u) \<and> small (CachedTokens u) \<and>
    small (CacheReadInputTokens u) \<and> small (CacheCreationInputTokens u) \<and>
    small (PromptCacheHitTokens u) \<and> small (PromptCacheMissTokens u) \<and>
    small (PromptEvalCount u) \<and> small (EvalCount u) \<and> small (ImageTokens u) \<and>
    (\<forall>d. PromptTokensDetails u = Some d \<longrightarrow> small (PdCachedTokens d)) \<and>
    (\<forall>d. InputTokensDetails u = Some d \<longrightarrow> small (IdCachedTokens d)) \<and>
    (\<forall>d. CacheCreationDetails u = Some d \<longrightarrow>
      small (Ephemeral5mInputTokens d) \<and> small (Ephemeral1hInputTokens d))"

lemma sint_add:
  fixes x y :: int64
  assumes "- (2 ^ 63) \<le> sint x + sint y" "sint x + sint y < 2 ^ 63"
  shows "sint (x + y) = sint x + sint y"
  using assms by (simp add: sint_word_ariths signed_take_bit_int_eq_self_iff)

lemma sint_sub:
  fixes x y :: int64
  assumes "- (2 ^ 63) \<le> sint x - sint y" "sint x - sint y < 2 ^ 63"
  shows "sint (x - y) = sint x - sint y"
  using assms by (simp add: sint_word_ariths signed_take_bit_int_eq_self_iff)

lemma small_first_nonzero: "(\<forall>x \<in> set xs. small x) \<Longrightarrow> small (first_nonzero xs)"
proof -
  assume "\<forall>x \<in> set xs. small x"
  then have "small z \<Longrightarrow> small (foldl (\<lambda>acc x. if acc = 0 then x else acc) z xs)" for z
    by (induction xs arbitrary: z) auto
  then show ?thesis by (simp add: first_nonzero_def)
qed

text \<open>Non-negative and far from the limit, in steps of \<open>2 ^ 60\<close>.\<close>

definition tokens_below :: "int \<Rightarrow> int64 \<Rightarrow> bool" where
  "tokens_below n x \<longleftrightarrow> 0 \<le> sint x \<and> sint x < n * 2 ^ 60"

lemma tokens_below_add: "tokens_below m x \<Longrightarrow> tokens_below n y \<Longrightarrow> m + n \<le> 8 \<Longrightarrow> tokens_below (m + n) (x + y)"
  using sint_add [of x y] by (simp add: tokens_below_def algebra_simps)

lemma tokens_below_mono: "tokens_below m x \<Longrightarrow> m \<le> n \<Longrightarrow> tokens_below n x"
  by (auto simp: tokens_below_def)

lemma small_tokens: "small x \<longleftrightarrow> tokens_below 1 x"
  by (simp add: small_def tokens_below_def)

lemma uncached_of_below:
  assumes "tokens_below m a" "tokens_below 1 b" "tokens_below 2 c" "m \<le> 7"
  shows "sint (uncached_of a b c) = max 0 (sint a - sint b - sint c)"
proof -
  have "sint (a - b) = sint a - sint b" using assms by (intro sint_sub) (auto simp: tokens_below_def)
  then have "sint (a - b - c) = sint a - sint b - sint c"
    using assms by (subst sint_sub) (auto simp: tokens_below_def)
  then show ?thesis by (auto simp: uncached_of_def)
qed

lemma tokens_below_if: "tokens_below m x \<Longrightarrow> tokens_below n y \<Longrightarrow> m \<le> n \<Longrightarrow> tokens_below n (if b then x else y)"
  using tokens_below_mono by auto

lemma small_cache_read: "small_fields u \<Longrightarrow> tokens_below 1 (cache_read_of u)"
  unfolding cache_read_of_def small_tokens [symmetric]
  by (rule small_first_nonzero) (auto simp: small_fields_def split: option.splits)

lemma small_output: "small_fields u \<Longrightarrow> tokens_below 1 (output_of u)"
  unfolding output_of_def small_tokens [symmetric]
  by (rule small_first_nonzero) (auto simp: small_fields_def)

lemma small_cache_creation: "small_fields u \<Longrightarrow> tokens_below 2 (cache_creation_of u)"
  unfolding cache_creation_of_def
  using tokens_below_add [of 1 _ 1] tokens_below_mono [of 1 _ 2]
  by (auto simp: small_fields_def small_tokens split: option.splits)

lemma small_reported_input:
  assumes "small_fields u"
  shows "tokens_below 5 (reported_input u)"
proof -
  have f: "tokens_below 1 (PromptTokens u)" "tokens_below 1 (InputTokens u)"
    "tokens_below 1 (CacheReadInputTokens u)" "tokens_below 1 (PromptEvalCount u)"
    "tokens_below 1 (ImageTokens u)"
    using assms by (simp_all add: small_fields_def small_tokens)
  have "tokens_below (1 + (1 + 2)) (InputTokens u + (CacheReadInputTokens u + cache_creation_of u))"
    by (intro tokens_below_add f small_cache_creation assms) auto
  then have "tokens_below 4 (first_nonzero [PromptTokens u,
      InputTokens u + (CacheReadInputTokens u + cache_creation_of u), PromptEvalCount u])"
    using f tokens_below_mono [of 1 _ 4] by (auto simp: first_nonzero_def)
  then have "tokens_below (4 + 1) (reported_input u)"
    unfolding reported_input_def by (intro tokens_below_add f) auto
  then show ?thesis by simp
qed

lemma small_input:
  assumes "small_fields u"
  shows "tokens_below 5 (input_of u)"
proof -
  have t: "tokens_below 1 (TotalTokens u)" "tokens_below 1 (output_of u)"
    using assms small_output by (simp_all add: small_fields_def small_tokens)
  then have "sint (TotalTokens u - output_of u) = sint (TotalTokens u) - sint (output_of u)"
    by (intro sint_sub) (auto simp: tokens_below_def)
  with t have "tokens_below 5 (if sint (TotalTokens u - output_of u) < 0 then 0 else TotalTokens u - output_of u)"
    by (auto simp: tokens_below_def)
  then show ?thesis using small_reported_input [OF assms] by (simp add: input_of_def)
qed



end
