(* ===== verification/Failover.thy ===== *)
theory Failover
  imports Prelude
begin

text \<open>
  \<^verbatim>\<open>failover.go\<close>: which failures of an upstream call may be retried on the next provider.
  A Go error is a tree: \<open>GoError k m es\<close> is an error of kind \<open>k\<close> whose \<^verbatim>\<open>Error\<close> is \<open>m\<close>
  and whose \<^verbatim>\<open>Unwrap\<close> gives \<open>es\<close>. \<open>find_err\<close> is the pre-order search of \<^verbatim>\<open>errors.As\<close> and \<^verbatim>\<open>errors.Is\<close>.
\<close>

subsection \<open>Go errors\<close>

text \<open>
  \<open>NetErr t c d\<close>: any other \<^verbatim>\<open>net.Error\<close>; \<open>t\<close> is its \<^verbatim>\<open>Timeout()\<close>, \<open>c\<close> and \<open>d\<close>
  whether its \<^verbatim>\<open>Is\<close> accepts \<^verbatim>\<open>context.Canceled\<close> and \<^verbatim>\<open>context.DeadlineExceeded\<close>
  (the \<^verbatim>\<open>net\<close> package's own cancellation and time-out errors). \<open>NetClosed\<close>, \<open>ClosedPipe\<close>,
  \<open>Eof\<close>, \<open>ShortWrite\<close>: \<^verbatim>\<open>net.ErrClosed\<close>, \<^verbatim>\<open>io.ErrClosedPipe\<close>, \<^verbatim>\<open>io.EOF\<close>,
  \<^verbatim>\<open>io.ErrShortWrite\<close>; \<open>Errno\<close>: a \<^verbatim>\<open>syscall.Errno\<close> by name. \<open>Opaque\<close>: any other error,
  a \<^verbatim>\<open>fmt.Errorf\<close> with \<^verbatim>\<open>%w\<close> among them.
\<close>

datatype err_kind =
    UrlErr
  | OpErr string
  | DnsErr bool
  | SyscallErr
  | CtxCanceled
  | CtxDeadline
  | NetClosed
  | Errno string
  | ClosedPipe
  | Eof
  | ShortWrite
  | NetErr bool bool bool
  | Opaque

datatype go_error = GoError (kind_of: err_kind) (error_text: string) (wraps: "go_error list")

primrec find_err :: "(err_kind \<Rightarrow> bool) \<Rightarrow> go_error \<Rightarrow> go_error option"
  and find_errs :: "(err_kind \<Rightarrow> bool) \<Rightarrow> go_error list \<Rightarrow> go_error option" where
  "find_err P (GoError k m es) = (if P k then Some (GoError k m es) else find_errs P es)"
| "find_errs P [] = None"
| "find_errs P (e # es) = (case find_err P e of Some x \<Rightarrow> Some x | None \<Rightarrow> find_errs P es)"

text \<open>\<^verbatim>\<open>Timeout()\<close> of the kinds that have the method, false for the others.\<close>

primrec timeout :: "go_error \<Rightarrow> bool" and timeouts :: "go_error list \<Rightarrow> bool" where
  "timeout (GoError k m es) =
    (case k of
       UrlErr \<Rightarrow> timeouts es
     | OpErr _ \<Rightarrow> timeouts es
     | SyscallErr \<Rightarrow> timeouts es
     | DnsErr t \<Rightarrow> t
     | CtxDeadline \<Rightarrow> True
     | NetErr t _ _ \<Rightarrow> t
     | Errno e \<Rightarrow> e \<in> {''EAGAIN'', ''EWOULDBLOCK'', ''ETIMEDOUT''}
     | _ \<Rightarrow> False)"
| "timeouts [] = False"
| "timeouts (e # es) = timeout e"

text \<open>The error is \<open>None\<close> when it is nil.\<close>

definition err_as :: "(err_kind \<Rightarrow> bool) \<Rightarrow> go_error option \<Rightarrow> go_error option" where
  "err_as P err = (case err of None \<Rightarrow> None | Some e \<Rightarrow> find_err P e)"

definition is_canceled :: "err_kind \<Rightarrow> bool" where
  "is_canceled k = (case k of CtxCanceled \<Rightarrow> True | NetErr _ c _ \<Rightarrow> c | _ \<Rightarrow> False)"

definition is_deadline :: "err_kind \<Rightarrow> bool" where
  "is_deadline k = (case k of CtxDeadline \<Rightarrow> True | NetErr _ _ d \<Rightarrow> d | _ \<Rightarrow> False)"

definition is_op :: "err_kind \<Rightarrow> bool" where
  "is_op k = (case k of OpErr _ \<Rightarrow> True | _ \<Rightarrow> False)"

definition is_dns :: "err_kind \<Rightarrow> bool" where
  "is_dns k = (case k of DnsErr _ \<Rightarrow> True | _ \<Rightarrow> False)"

definition is_net_error :: "err_kind \<Rightarrow> bool" where
  "is_net_error k = (case k of UrlErr \<Rightarrow> True | OpErr _ \<Rightarrow> True | DnsErr _ \<Rightarrow> True
    | CtxDeadline \<Rightarrow> True | NetClosed \<Rightarrow> True | Errno _ \<Rightarrow> True | NetErr _ _ _ \<Rightarrow> True | _ \<Rightarrow> False)"

subsection \<open>isCatastrophic\<close>

definition gateway_status :: "int \<Rightarrow> bool" where
  "gateway_status status = (status = 502 \<or> status = 503 \<or> status = 504)"

definition unwrap_url :: "go_error option \<Rightarrow> go_error option" where
  "unwrap_url err =
    (case err_as (\<lambda>k. k = UrlErr) err of
       None \<Rightarrow> err
     | Some ue \<Rightarrow> (case wraps ue of [] \<Rightarrow> None | e # _ \<Rightarrow> Some e))"

definition dial_error :: "go_error option \<Rightarrow> bool" where
  "dial_error err = (case err_as is_op err of Some (GoError (OpErr op) _ _) \<Rightarrow> op = ''dial'' | _ \<Rightarrow> False)"

definition net_timeout :: "go_error option \<Rightarrow> bool" where
  "net_timeout err = (case err_as is_net_error err of Some ne \<Rightarrow> timeout ne | None \<Rightarrow> False)"

definition is_catastrophic :: "go_error option \<Rightarrow> int \<Rightarrow> bool" where
  "is_catastrophic err status =
    (if gateway_status status then True
     else if err = None then False
     else
       let err = unwrap_url err in
       if err_as is_canceled err \<noteq> None then False
       else if dial_error err then True
       else if err_as is_dns err \<noteq> None then True
       else if net_timeout err then False
       else if err_as is_deadline err \<noteq> None then False
       else True)"

subsection \<open>Searching an error\<close>

text \<open>\<open>within P e\<close>: some error of the tree has a kind in \<open>P\<close>.\<close>

primrec within :: "(err_kind \<Rightarrow> bool) \<Rightarrow> go_error \<Rightarrow> bool"
  and within_list :: "(err_kind \<Rightarrow> bool) \<Rightarrow> go_error list \<Rightarrow> bool" where
  "within P (GoError k m es) = (P k \<or> within_list P es)"
| "within_list P [] = False"
| "within_list P (e # es) = (within P e \<or> within_list P es)"

lemma find_err_None:
  "find_err P e = None \<longleftrightarrow> \<not> within P e"
  "find_errs P es = None \<longleftrightarrow> \<not> within_list P es"
  by (induction e and es rule: find_err.induct find_errs.induct) (auto split: option.splits)

lemma find_err_kind:
  "find_err P e = Some x \<Longrightarrow> P (kind_of x)"
  "find_errs P es = Some x \<Longrightarrow> P (kind_of x)"
  by (induction e and es rule: find_err.induct find_errs.induct)
    (auto split: option.splits if_splits)

lemma err_as_None: "err_as P (Some e) = None \<longleftrightarrow> \<not> within P e"
  by (simp add: err_as_def find_err_None)

lemma find_err_wrapped:
  "\<not> P k \<Longrightarrow> find_err P (GoError k m [e]) = find_err P e"
  by (simp split: option.splits)

lemma err_as_wrapped: "\<not> P k \<Longrightarrow> err_as P (Some (GoError k m [e])) = err_as P (Some e)"
  by (simp add: err_as_def find_err_wrapped del: find_err.simps)

lemma opaque_kinds [simp]:
  "\<not> is_canceled Opaque" "\<not> is_deadline Opaque" "\<not> is_op Opaque"
  "\<not> is_dns Opaque" "\<not> is_net_error Opaque"
  by (simp_all add: is_canceled_def is_deadline_def is_op_def is_dns_def is_net_error_def)

lemma unwrap_url_opaque:
  "unwrap_url (Some (GoError Opaque m [e])) =
    (if within (\<lambda>k. k = UrlErr) e then unwrap_url (Some e) else Some (GoError Opaque m [e]))"
  using err_as_None [of "\<lambda>k. k = UrlErr" e]
  by (auto simp: unwrap_url_def err_as_wrapped split: option.splits)

lemma dial_error_within: "dial_error (Some e) \<Longrightarrow> within is_op e"
  using err_as_None [of is_op e] by (auto simp: dial_error_def)

text \<open>
  A message wrapped around an error with \<^verbatim>\<open>%w\<close>, and the \<^verbatim>\<open>*url.Error\<close> the HTTP client puts
  around every failure, do not change whether the failure may be retried.
\<close>

theorem is_catastrophic_wrapping:
  "is_catastrophic (Some (GoError Opaque m [e])) status = is_catastrophic (Some e) status \<and>
   (\<not> within (\<lambda>k. k = UrlErr) e \<longrightarrow>
     is_catastrophic (Some (GoError UrlErr m' [e])) status = is_catastrophic (Some e) status)"
proof
  let ?w = "Some (GoError Opaque m [e])"
  have w: "err_as P ?w = err_as P (Some e)" if "\<not> P Opaque" for P
    using that by (rule err_as_wrapped)
  show "is_catastrophic ?w status = is_catastrophic (Some e) status"
  proof (cases "within (\<lambda>k. k = UrlErr) e")
    case True
    then show ?thesis by (simp add: is_catastrophic_def unwrap_url_opaque)
  next
    case False
    then have "unwrap_url (Some e) = Some e"
      by (simp add: unwrap_url_def err_as_None [symmetric])
    with False show ?thesis
      by (simp add: is_catastrophic_def Let_def unwrap_url_opaque dial_error_def net_timeout_def w)
  qed
  show "\<not> within (\<lambda>k. k = UrlErr) e \<longrightarrow>
      is_catastrophic (Some (GoError UrlErr m' [e])) status = is_catastrophic (Some e) status"
  proof
    assume "\<not> within (\<lambda>k. k = UrlErr) e"
    then have "unwrap_url (Some e) = Some e"
      by (simp add: unwrap_url_def err_as_None [symmetric])
    moreover have "unwrap_url (Some (GoError UrlErr m' [e])) = Some e"
      by (simp add: unwrap_url_def err_as_def)
    ultimately show "is_catastrophic (Some (GoError UrlErr m' [e])) status = is_catastrophic (Some e) status"
      by (simp add: is_catastrophic_def)
  qed
qed

theorem is_catastrophic_wrapping_witness:
  "is_catastrophic (Some (GoError UrlErr ''w'' [GoError (OpErr ''dial'') ''d'' []])) 0 =
    is_catastrophic (Some (GoError (OpErr ''dial'') ''d'' [])) 0"
  using is_catastrophic_wrapping [of "''x''" "GoError (OpErr ''dial'') ''d'' []" 0] by simp



end
