(* ===== verification/Http.thy ===== *)
theory Http
  imports GoStrings Failover
begin

text \<open>
  What the handlers use of \<^verbatim>\<open>net/http\<close>: header maps with their canonical keys, the request a
  handler sees, and the response writer as an explicit state. The writer keeps the header being
  built, the status and header as sent (the first \<^verbatim>\<open>WriteHeader\<close> wins, a \<^verbatim>\<open>Write\<close> before it
  sends 200), the body accepted so far, and how much more the client will take before a write
  fails (\<open>None\<close>: never).
\<close>

subsection \<open>Headers\<close>

type_synonym header = "string list gomap"

definition is_alnum :: "char \<Rightarrow> bool" where
  "is_alnum c = (let n = (of_char c :: nat) in
    0x30 \<le> n \<and> n \<le> 0x39 \<or> 0x41 \<le> n \<and> n \<le> 0x5A \<or> 0x61 \<le> n \<and> n \<le> 0x7A)"

definition header_byte :: "char \<Rightarrow> bool" where
  "header_byte c =
    (is_alnum c \<or> c \<in> {CHR ''!'', CHR ''#'', CHR ''$'', CHR ''%'', CHR ''&'', CHR 0x27, CHR ''*'',
      CHR ''+'', CHR ''-'', CHR ''.'', CHR ''^'', CHR ''_'', CHR 0x60, CHR ''|'', CHR ''~''})"

fun canon_key :: "bool \<Rightarrow> string \<Rightarrow> string" where
  "canon_key up [] = []"
| "canon_key up (c # s) = (if up then upper_char c else lower_char c) # canon_key (c = CHR ''-'') s"

definition canonical_key :: "string \<Rightarrow> string" where
  "canonical_key s = (if list_all header_byte s then canon_key True s else s)"

definition header_values :: "header \<Rightarrow> string \<Rightarrow> string list" where
  "header_values h k = the_or [] (map_of h (canonical_key k))"

definition header_get :: "header \<Rightarrow> string \<Rightarrow> string" where
  "header_get h k = (case header_values h k of [] \<Rightarrow> [] | v # _ \<Rightarrow> v)"

definition header_set :: "string \<Rightarrow> string \<Rightarrow> header \<Rightarrow> header" where
  "header_set k v h = mset_key (canonical_key k) [v] h"

definition header_del :: "string \<Rightarrow> header \<Rightarrow> header" where
  "header_del k h = AList.delete (canonical_key k) h"

subsection \<open>Requests\<close>

text \<open>
  \<open>req_body\<close> is what the client sends, \<open>req_read_fails\<close> whether reading it ends in an error
  after that; \<open>req_key_name\<close> is the context's API key name, \<open>None\<close> before authentication.
\<close>

record http_request =
  req_path :: string
  req_header :: header
  req_body :: bytes
  req_read_fails :: bool
  req_tls :: bool
  req_key_name :: "string option"

subsection \<open>The response writer\<close>

record rw =
  rw_header :: header
  rw_sent :: "(int \<times> header) option"
  rw_body :: bytes
  rw_room :: "(nat \<times> go_error) option"

definition fresh_rw :: rw where
  "fresh_rw = \<lparr>rw_header = [], rw_sent = None, rw_body = [], rw_room = None\<rparr>"

definition write_header :: "int \<Rightarrow> 'a rw_scheme \<Rightarrow> 'a rw_scheme" where
  "write_header status w =
    (if rw_sent w = None then w\<lparr>rw_sent := Some (status, rw_header w)\<rparr> else w)"

definition body_allowed :: "int \<Rightarrow> bool" where
  "body_allowed status = (\<not> (100 \<le> status \<and> status \<le> 199) \<and> status \<noteq> 204 \<and> status \<noteq> 304)"

definition err_body_not_allowed :: go_error where
  "err_body_not_allowed =
    GoError Opaque ''http: request method or response status code does not allow body'' []"

text \<open>The count and the error of a \<^verbatim>\<open>Write\<close>, and the writer after it.\<close>

definition rw_write :: "bytes \<Rightarrow> 'a rw_scheme \<Rightarrow> nat \<times> go_error option \<times> 'a rw_scheme" where
  "rw_write p w0 =
    (let w = write_header 200 w0 in
     if \<not> body_allowed (case rw_sent w of Some (st, _) \<Rightarrow> st | None \<Rightarrow> 0)
     then (0, Some err_body_not_allowed, w)
     else (case rw_room w of
             None \<Rightarrow> (length p, None, w\<lparr>rw_body := rw_body w @ p\<rparr>)
           | Some (k, e) \<Rightarrow>
               if length p \<le> k
               then (length p, None, w\<lparr>rw_body := rw_body w @ p, rw_room := Some (k - length p, e)\<rparr>)
               else (k, Some e, w\<lparr>rw_body := rw_body w @ take k p, rw_room := Some (0, e)\<rparr>)))"

abbreviation write_ignoring :: "bytes \<Rightarrow> 'a rw_scheme \<Rightarrow> 'a rw_scheme" where
  "write_ignoring p w \<equiv> snd (snd (rw_write p w))"

definition set_header :: "string \<Rightarrow> string \<Rightarrow> 'a rw_scheme \<Rightarrow> 'a rw_scheme" where
  "set_header k v w = w\<lparr>rw_header := header_set k v (rw_header w)\<rparr>"

subsection \<open>Laws\<close>

lemma header_get_set:
  "header_get (header_set k v h) k' = (if canonical_key k' = canonical_key k then v else header_get h k')"
  by (simp add: header_get_def header_values_def header_set_def)

lemma header_values_del:
  "header_values (header_del k h) k' =
    (if canonical_key k' = canonical_key k then [] else header_values h k')"
  by (simp add: header_values_def header_del_def delete_conv')

lemma header_get_del:
  "header_get (header_del k h) k' =
    (if canonical_key k' = canonical_key k then [] else header_get h k')"
  by (simp add: header_get_def header_values_del)

lemma of_char_upper_char:
  "(of_char (upper_char c) :: nat) =
    (if 0x61 \<le> (of_char c :: nat) \<and> (of_char c :: nat) \<le> 0x7A then of_char c - 32 else of_char c)"
  by (auto simp: upper_char_def of_char_of intro!: mod_less)

lemma upper_char_idem [simp]: "upper_char (upper_char c) = upper_char c"
  by (rule of_char_eqI [where 'a = nat]) (auto simp: of_char_upper_char)

lemma dash_iff: "c = CHR ''-'' \<longleftrightarrow> (of_char c :: nat) = 45"
  by (subst of_char_eq_iff [where 'a = nat, symmetric]) simp

lemma case_dash [simp]: "upper_char c = CHR ''-'' \<longleftrightarrow> c = CHR ''-''"
  "lower_char c = CHR ''-'' \<longleftrightarrow> c = CHR ''-''"
  unfolding dash_iff of_char_upper_char of_char_lower_char by auto

lemma header_byte_case [simp]: "header_byte (upper_char c) = header_byte c"
  "header_byte (lower_char c) = header_byte c"
proof -
  have "is_alnum (upper_char c) \<and> is_alnum c" if "upper_char c \<noteq> c"
    using that by (auto simp: is_alnum_def Let_def of_char_upper_char upper_char_def split: if_splits)
  moreover have "is_alnum (lower_char c) \<and> is_alnum c" if "lower_char c \<noteq> c"
    using that by (auto simp: is_alnum_def Let_def of_char_lower_char lower_char_def split: if_splits)
  ultimately show "header_byte (upper_char c) = header_byte c"
    "header_byte (lower_char c) = header_byte c" unfolding header_byte_def by metis+
qed

lemma canon_key_idem [simp]: "canon_key b (canon_key b s) = canon_key b s"
  by (induction b s rule: canon_key.induct) auto

lemma canon_key_bytes [simp]: "list_all header_byte (canon_key b s) = list_all header_byte s"
  by (induction b s rule: canon_key.induct) auto

lemma canonical_key_idem [simp]: "canonical_key (canonical_key k) = canonical_key k"
  by (simp add: canonical_key_def)

end
