(* ===== verification/Pump.thy ===== *)
theory Pump
  imports Usage Http
begin

text \<open>
  Copying a response body: the writers of \<^verbatim>\<open>proxy.go\<close> (\<open>cap_buffer\<close>, \<^verbatim>\<open>io.MultiWriter\<close>) and the
  loop of \<^verbatim>\<open>usage.go\<close> that copies a stream while it scans its lines (\<open>pump\<close>, \<open>copy_sse\<close>,
  \<open>copy_ndjson\<close>). A writer is a function from the bytes and its state to the count, the error
  and the new state of a \<^verbatim>\<open>Write\<close>. What comes from outside is a list of events, in the order the
  loop sees them: reads of the upstream body and ticks of the keepalive timer.
\<close>

subsection \<open>Writers\<close>

type_synonym 's writer = "bytes \<Rightarrow> 's \<Rightarrow> nat \<times> go_error option \<times> 's"

definition max_medium_blob :: int where
  "max_medium_blob = 16777215"

record cap_buffer =
  cb_b :: bytes
  cb_max :: int

definition cap_write :: "cap_buffer writer" where
  "cap_write p c =
    (let n = length p in
     if cb_max c \<le> 0 \<or> cb_max c \<le> int (length (cb_b c)) then (n, None, c)
     else
       let left = nat (cb_max c - int (length (cb_b c)));
           p = (if left < length p then take left p else p) in
       (n, None, c\<lparr>cb_b := cb_b c @ p\<rparr>))"

definition err_short_write :: go_error where
  "err_short_write = GoError ShortWrite ''short write'' []"

text \<open>\<^verbatim>\<open>io.MultiWriter\<close> of two writers.\<close>

definition multi_write :: "'a writer \<Rightarrow> 'b writer \<Rightarrow> ('a \<times> 'b) writer" where
  "multi_write wa wb p s =
    (let (n, err, a) = wa p (fst s) in
     (case err of
        Some e \<Rightarrow> (n, Some e, (a, snd s))
      | None \<Rightarrow>
          if n \<noteq> length p then (n, Some err_short_write, (a, snd s))
          else
            (let (n, err, b) = wb p (snd s) in
             (case err of
                Some e \<Rightarrow> (n, Some e, (a, b))
              | None \<Rightarrow>
                  if n \<noteq> length p then (n, Some err_short_write, (a, b))
                  else (length p, None, (a, b))))))"

abbreviation cap_put :: "cap_buffer \<Rightarrow> bytes \<Rightarrow> cap_buffer" where
  "cap_put c p \<equiv> snd (snd (cap_write p c))"

text \<open>A writer that reaches the client alone, past the log beside it.\<close>

definition beside :: "'s writer \<Rightarrow> ('s \<times> 'l) writer" where
  "beside put p s = (let (n, err, w) = put p (fst s) in (n, err, (w, snd s)))"

text \<open>\<^verbatim>\<open>flushWriter\<close>: the flush has no effect on the state kept here.\<close>

definition flush_write :: "'a rw_scheme writer" where
  "flush_write p w = rw_write p w"

subsection \<open>The pump\<close>

text \<open>\<open>Read t p err\<close>: at time \<open>t\<close>, a read returned the bytes \<open>p\<close> and the error \<open>err\<close>.\<close>

datatype pump_event =
    Read int bytes "go_error option"
  | Tick

lemma cut_length: "cut c s = (a, b, True) \<Longrightarrow> length b < length s"
  using cut_found by fastforce

text \<open>The loop over the complete lines of the carry; the rest stays in it.\<close>

function scan_lines :: "(bytes \<Rightarrow> 'u \<Rightarrow> 'u) \<Rightarrow> bytes \<Rightarrow> 'u \<Rightarrow> bytes \<times> 'u" where
  "scan_lines scan carry u =
    (case cut CHR 0x0A carry of
       (line, rest, found) \<Rightarrow>
         if found then scan_lines scan rest (scan (trim_right {CHR 0x0D} line) u) else (carry, u))"
  by pat_completeness auto

termination
  by (relation "measure (\<lambda>(scan, carry, u). length carry)") (auto dest: cut_length [OF sym])

declare scan_lines.simps [simp del]

definition max_sse_scan :: int where
  "max_sse_scan = max_medium_blob"

definition pump_consume ::
  "'s writer \<Rightarrow> (bytes \<Rightarrow> 'u \<Rightarrow> 'u) \<Rightarrow> bytes \<Rightarrow> bytes \<times> 's \<times> 'u \<Rightarrow> go_error option \<times> bytes \<times> 's \<times> 'u" where
  "pump_consume dst scan chunk st =
    (case st of (carry, s, u) \<Rightarrow>
       (let (_, err, s) = dst chunk s in
        (case err of
           Some e \<Rightarrow> (Some e, carry, s, u)
         | None \<Rightarrow>
             (let (carry, u) = scan_lines scan (carry @ chunk) u in
              if max_sse_scan < int (length carry) then (None, [], s, scan carry u)
              else (None, carry, s, u)))))"

definition is_eof :: "go_error \<Rightarrow> bool" where
  "is_eof e = (err_as (\<lambda>k. k = Eof) (Some e) \<noteq> None)"

definition pump_finish ::
  "(bytes \<Rightarrow> 'u \<Rightarrow> 'u) \<Rightarrow> go_error \<Rightarrow> bytes \<times> 's \<times> 'u \<Rightarrow> go_error option \<times> 's \<times> 'u" where
  "pump_finish scan err st =
    (case st of (carry, s, u) \<Rightarrow>
       if is_eof err then (None, s, if carry \<noteq> [] then scan carry u else u)
       else (Some err, s, u))"

definition sse_comment :: bytes where
  "sse_comment = [CHR '':'', CHR 0x0A, CHR 0x0A]"

text \<open>
  The result is \<open>None\<close> while the loop still waits for an event. Without a keepalive the loop
  has no timer, so a tick does nothing.
\<close>

fun pump ::
  "'s writer \<Rightarrow> 's writer \<Rightarrow> bool \<Rightarrow> (int \<Rightarrow> bytes \<Rightarrow> 'u \<Rightarrow> 'u) \<Rightarrow> pump_event list \<Rightarrow> bytes \<times> 's \<times> 'u \<Rightarrow>
    (go_error option \<times> 's \<times> 'u) option" where
  "pump dst ping keepalive scan [] st = None"
| "pump dst ping keepalive scan (Read t p err # es) st =
    (let (werr, st') = (if p \<noteq> [] then pump_consume dst (scan t) p st else (None, st)) in
     (case werr of
        Some e \<Rightarrow> Some (Some e, snd st')
      | None \<Rightarrow>
          (case err of
             Some e \<Rightarrow> Some (pump_finish (scan t) e st')
           | None \<Rightarrow> pump dst ping keepalive scan es st')))"
| "pump dst ping keepalive scan (Tick # es) (carry, s, u) =
    (if \<not> keepalive then pump dst ping keepalive scan es (carry, s, u)
     else
       (let (_, err, s) = ping sse_comment s in
        (case err of
           Some e \<Rightarrow> Some (Some e, s, u)
         | None \<Rightarrow> pump dst ping keepalive scan es (carry, s, u))))"

type_synonym stream_counts = "token_usage \<times> int option"

definition scan_sse :: "(string \<Rightarrow> int64 option) \<Rightarrow> int \<Rightarrow> bytes \<Rightarrow> stream_counts \<Rightarrow> stream_counts" where
  "scan_sse float64 t line u =
    (merge_usage (fst u) (parse_usage_sse_line float64 line),
     if snd u = None \<and> is_sse_data_line line then Some t else snd u)"

definition copy_sse where
  "copy_sse float64 dst ping es keepalive s =
    pump dst ping keepalive (scan_sse float64) es ([], s, no_usage, None)"

definition scan_ndjson :: "(string \<Rightarrow> int64 option) \<Rightarrow> int \<Rightarrow> bytes \<Rightarrow> stream_counts \<Rightarrow> stream_counts" where
  "scan_ndjson float64 t line0 u =
    (let line = trim_space line0 in
     if line = [] then u
     else (merge_usage (fst u) (parse_usage_json float64 line), if snd u = None then Some t else snd u))"

definition copy_ndjson where
  "copy_ndjson float64 dst es s = pump dst dst False (scan_ndjson float64) es ([], s, no_usage, None)"

text \<open>\<^verbatim>\<open>json.Marshal\<close> of a string, which also escapes the characters HTML gives a meaning.\<close>

definition html_escape :: "char \<Rightarrow> string" where
  "html_escape c =
    (if c = CHR ''<'' then CHR 0x5C # ''u003c''
     else if c = CHR ''>'' then CHR 0x5C # ''u003e''
     else if c = CHR ''&'' then CHR 0x5C # ''u0026''
     else [c])"

definition marshal_string :: "string \<Rightarrow> string" where
  "marshal_string s = CHR 0x22 # concat (map html_escape (quote_body s)) @ [CHR 0x22]"

definition encode_response_blob :: "bytes \<Rightarrow> bool \<Rightarrow> bytes option" where
  "encode_response_blob body sse =
    (if body = [] then None else if \<not> sse then Some body else Some (marshal_string body))"

subsection \<open>Writer contracts\<close>

text \<open>
  A writer the client sees: what it accepts is appended to what was seen, all of it when it
  reports neither an error nor a short count, a prefix of it otherwise.
\<close>

locale sink =
  fixes put :: "'s writer" and seen :: "'s \<Rightarrow> bytes"
  assumes accepts: "put p s = (n, err, s') \<Longrightarrow> seen s' = seen s @ take n p"
    and count: "put p s = (n, None, s') \<Longrightarrow> n = length p"
begin

lemma accepts_all: "put p s = (n, None, s') \<Longrightarrow> seen s' = seen s @ p"
  using accepts [of p s n None s'] count [of p s n s'] by simp

lemma accepts_prefix: "put p s = (n, err, s') \<Longrightarrow> \<exists>q. prefix q p \<and> seen s' = seen s @ q"
  using accepts [of p s n err s'] take_is_prefix by blast

end

text \<open>A writer that stands beside the client's in a \<^verbatim>\<open>MultiWriter\<close>: it never gets in the way.\<close>

locale quiet =
  fixes put :: "'l writer"
  assumes full: "put p l = (n, err, l') \<Longrightarrow> n = length p \<and> err = None"

text \<open>The client's writer with a quiet one beside it is again a writer the client sees.\<close>

locale tee = sink put seen + log: quiet log_put
  for put :: "'s writer" and seen :: "'s \<Rightarrow> bytes" and log_put :: "'l writer"
begin

lemma multi_write_eq:
  "multi_write put log_put p (s, l) =
    (let (n, err, s') = put p s in
     if err = None then (length p, None, s', snd (snd (log_put p l))) else (n, err, s', l))"
proof -
  obtain n err s' where w: "put p s = (n, err, s')" by (cases "put p s")
  obtain n2 err2 l' where l: "log_put p l = (n2, err2, l')" by (cases "log_put p l")
  show ?thesis
    using count [of p s n s'] log.full [OF l] w l
    by (cases err) (auto simp: multi_write_def)
qed

end

sublocale tee \<subseteq> both: sink "multi_write put log_put" "\<lambda>s. seen (fst s)"
proof
  fix p and s :: "'s \<times> 'l" and n err s'
  assume m: "multi_write put log_put p s = (n, err, s')"
  obtain a l where s: "s = (a, l)" by (cases s)
  obtain k e a' where w: "put p a = (k, e, a')" by (cases "put p a")
  show "seen (fst s') = seen (fst s) @ take n p"
    using m accepts [OF w] count [of p a k a'] unfolding s multi_write_eq
    by (auto simp: w split: if_splits)
next
  fix p and s :: "'s \<times> 'l" and n s'
  assume m: "multi_write put log_put p s = (n, None, s')"
  obtain a l where s: "s = (a, l)" by (cases s)
  obtain k e a' where w: "put p a = (k, e, a')" by (cases "put p a")
  show "n = length p" using m unfolding s multi_write_eq by (auto simp: w split: if_splits)
qed

text \<open>What the reads of a run deliver, up to the one that reports an error; and with the comments.\<close>

fun read_bytes :: "pump_event list \<Rightarrow> bytes" where
  "read_bytes [] = []"
| "read_bytes (Tick # es) = read_bytes es"
| "read_bytes (Read t p err # es) = p @ (if err = None then read_bytes es else [])"

fun stream_text :: "bool \<Rightarrow> pump_event list \<Rightarrow> bytes" where
  "stream_text keepalive [] = []"
| "stream_text keepalive (Tick # es) = (if keepalive then sse_comment else []) @ stream_text keepalive es"
| "stream_text keepalive (Read t p err # es) = p @ (if err = None then stream_text keepalive es else [])"

lemma stream_text_quiet: "stream_text False es = read_bytes es"
  by (induction es rule: read_bytes.induct) auto

text \<open>The lines a run scans: complete ones without their line end, then what is left over.\<close>

definition scanned_lines :: "bytes \<Rightarrow> bytes list" where
  "scanned_lines body =
    map (trim_right {CHR 0x0D}) (butlast (split_on (CHR 0x0A) body)) @
    (if last (split_on (CHR 0x0A) body) = [] then [] else [last (split_on (CHR 0x0A) body)])"

lemma scan_lines_split:
  "scan_lines scan carry u =
    (last (split_on (CHR 0x0A) carry),
     foldl (\<lambda>u l. scan (trim_right {CHR 0x0D} l) u) u (butlast (split_on (CHR 0x0A) carry)))"
proof (induction scan carry u rule: scan_lines.induct)
  case (1 scan carry u)
  obtain line rest found where c: "cut (CHR 0x0A) carry = (line, rest, found)"
    by (cases "cut (CHR 0x0A) carry")
  show ?case
  proof (cases found)
    case True
    with c have "split_on (CHR 0x0A) carry = line # split_on (CHR 0x0A) rest"
      using cut_found [of "CHR 0x0A" carry line rest] by (simp add: split_on_append)
    with True c 1 show ?thesis by (subst scan_lines.simps) simp
  next
    case False
    with c have "split_on (CHR 0x0A) carry = [carry]"
      using cut_not_found [of "CHR 0x0A" carry line rest] by (simp add: split_on_single)
    with False c show ?thesis by (subst scan_lines.simps) simp
  qed
qed

subsection \<open>What the client receives\<close>

locale pump_io = sink dst seen + ping: sink ping seen
  for dst :: "'s writer" and ping :: "'s writer" and seen :: "'s \<Rightarrow> bytes"
begin

lemma consume_seen:
  assumes "pump_consume dst scan p (carry, s, u) = (err, carry', s', u')"
  shows "\<exists>q. prefix q p \<and> seen s' = seen s @ q \<and> (err = None \<longrightarrow> q = p)"
proof -
  obtain n e s1 where w: "dst p s = (n, e, s1)" by (cases "dst p s")
  have "s' = s1" "err = None \<longleftrightarrow> e = None"
    using assms w by (auto simp: pump_consume_def Let_def split: option.splits prod.splits if_splits)
  with accepts_prefix [OF w] accepts_all [of p s n s1] w show ?thesis by (cases e) auto
qed

lemma pump_seen:
  "pump dst ping keepalive scan es (carry, s, u) = Some (err, s', u') \<Longrightarrow>
    \<exists>q. prefix q (stream_text keepalive es) \<and> seen s' = seen s @ q \<and>
      (err = None \<longrightarrow> q = stream_text keepalive es)"
proof (induction es arbitrary: carry s u)
  case (Cons e es)
  show ?case
  proof (cases e)
    case (Read t p rerr)
    obtain werr st' where c: "(if p \<noteq> [] then pump_consume dst (scan t) p (carry, s, u)
        else (None, carry, s, u)) = (werr, st')" using surj_pair by metis
    obtain carry1 s1 u1 where st': "st' = (carry1, s1, u1)" by (cases st')
    obtain q where q: "prefix q p" "seen s1 = seen s @ q" "werr = None \<longrightarrow> q = p"
      using c consume_seen [of "scan t" p carry s u werr carry1 s1 u1] st'
      by (cases "p = []") auto
    show ?thesis
    proof (cases "werr = None \<and> rerr = None")
      case True
      with Cons.prems Read c st' have "pump dst ping keepalive scan es (carry1, s1, u1) = Some (err, s', u')"
        by simp
      from Cons.IH [OF this] q True Read show ?thesis by auto
    next
      case False
      with Cons.prems Read c st' have "s' = s1" "err = None \<longrightarrow> werr = None"
        by (auto simp: pump_finish_def split: option.splits if_splits)
      with False q Read show ?thesis
        by (intro exI [of _ q]) (auto intro: prefix_prefix)
    qed
  next
    case Tick
    obtain n werr s1 where w: "ping sse_comment s = (n, werr, s1)" by (cases "ping sse_comment s")
    show ?thesis
    proof (cases "keepalive \<and> werr \<noteq> None")
      case True
      with Cons.prems Tick w have "s' = s1" "err \<noteq> None" by (auto simp: Let_def)
      obtain q where "prefix q sse_comment" "seen s1 = seen s @ q"
        using ping.accepts_prefix [OF w] by blast
      with \<open>s' = s1\<close> \<open>err \<noteq> None\<close> Tick True show ?thesis
        by (intro exI [of _ q]) (auto simp: prefix_prefix)
    next
      case False
      then have c: "seen (if keepalive then s1 else s) = seen s @ (if keepalive then sse_comment else [])"
        using ping.accepts_all [of sse_comment s n s1] w by auto
      from False Cons.prems Tick w
      have "pump dst ping keepalive scan es (carry, if keepalive then s1 else s, u) = Some (err, s', u')"
        by (auto split: if_splits)
      from Cons.IH [OF this] c Tick show ?thesis by auto
    qed
  qed
qed simp

end

subsection \<open>What the lines add up to\<close>

lemma scanned_lines_app:
  "scanned_lines (a @ b) =
    map (trim_right {CHR 0x0D}) (butlast (split_on (CHR 0x0A) a)) @
    scanned_lines (last (split_on (CHR 0x0A) a) @ b)"
proof -
  have "butlast (xs @ split_on (CHR 0x0A) y) = xs @ butlast (split_on (CHR 0x0A) y)" for xs y
    by (simp add: butlast_append)
  moreover have "last (xs @ split_on (CHR 0x0A) y) = last (split_on (CHR 0x0A) y)" for xs y
    by simp
  ultimately show ?thesis by (simp add: scanned_lines_def split_on_app [of _ a b])
qed

text \<open>No line of a text is longer than what the scanner holds.\<close>

definition lines_fit :: "bytes \<Rightarrow> bool" where
  "lines_fit body \<longleftrightarrow> (\<forall>l \<in> set (split_on (CHR 0x0A) body). int (length l) \<le> max_sse_scan)"

lemma lines_fit_app: "lines_fit (a @ b) \<Longrightarrow> lines_fit (last (split_on (CHR 0x0A) a) @ b)"
  by (auto simp: lines_fit_def split_on_app [of _ a b])

lemma split_on_hd_prefix: "\<exists>p ps. split_on c (a @ b) = p # ps \<and> (c \<notin> set a \<longrightarrow> prefix a p)"
proof (induction a)
  case Nil
  then show ?case by (cases "split_on c b") auto
next
  case (Cons x a)
  then show ?case by auto
qed

lemma lines_fit_carry: "lines_fit (a @ b) \<Longrightarrow> int (length (last (split_on (CHR 0x0A) a))) \<le> max_sse_scan"
proof -
  let ?l = "last (split_on (CHR 0x0A) a)"
  assume f: "lines_fit (a @ b)"
  have "CHR 0x0A \<notin> set ?l" using split_on_no_sep [of ?l "CHR 0x0A" a] by simp
  then obtain p ps where p: "split_on (CHR 0x0A) (?l @ b) = p # ps" "prefix ?l p"
    using split_on_hd_prefix [of "CHR 0x0A" ?l b] by blast
  then have "p \<in> set (split_on (CHR 0x0A) (a @ b))" by (simp add: split_on_app [of _ a b])
  with f have "int (length p) \<le> max_sse_scan" by (simp add: lines_fit_def)
  with prefix_length_le [OF p(2)] show ?thesis by linarith
qed

text \<open>
  The scan of a whole run, seen through \<open>view\<close>: a part of its state that each line changes by
  \<open>g\<close>, whatever the time.
\<close>

lemma pump_scans:
  assumes "\<And>t l u. view (scan t l u) = g l (view u)"
  shows "pump dst ping keepalive scan es (carry, s, u) = Some (None, s', u') \<Longrightarrow>
    CHR 0x0A \<notin> set carry \<Longrightarrow> lines_fit (carry @ read_bytes es) \<Longrightarrow>
    view u' = foldl (\<lambda>v l. g l v) (view u) (scanned_lines (carry @ read_bytes es))"
proof (induction es arbitrary: carry s u)
  case (Cons e es)
  have view_foldl: "view (foldl (\<lambda>u l. scan t (h l) u) u ls) = foldl (\<lambda>v l. g l v) (view u) (map h ls)"
    for t h u ls by (induction ls arbitrary: u) (simp_all add: assms)
  show ?case
  proof (cases e)
    case (Read t p rerr)
    let ?ls = "split_on (CHR 0x0A) (carry @ p)"
    let ?u1 = "foldl (\<lambda>u l. scan t (trim_right {CHR 0x0D} l) u) u (butlast ?ls)"
    have fit: "lines_fit ((carry @ p) @ (if rerr = None then read_bytes es else []))"
      using Cons.prems(3) Read by simp
    have len: "int (length (last ?ls)) \<le> max_sse_scan" by (rule lines_fit_carry [OF fit])
    have single: "?ls = [carry]" if "p = []" using that Cons.prems(2) by (simp add: split_on_single)
    obtain n werr s1 where w: "(if p \<noteq> [] then dst p s else (0, None, s)) = (n, werr, s1)"
      using surj_pair by metis
    have "werr = None" using Cons.prems(1) Read w
      by (cases werr) (auto simp: pump_consume_def Let_def split: if_splits)
    then have c: "(if p \<noteq> [] then pump_consume dst (scan t) p (carry, s, u) else (None, carry, s, u)) =
        (None, last ?ls, s1, ?u1)"
      using w len single by (auto simp: pump_consume_def scan_lines_split Let_def)
    have v: "view ?u1 = foldl (\<lambda>v l. g l v) (view u) (map (trim_right {CHR 0x0D}) (butlast ?ls))"
      by (rule view_foldl)
    show ?thesis
    proof (cases rerr)
      case None
      with Cons.prems(1) Read c
      have "pump dst ping keepalive scan es (last ?ls, s1, ?u1) = Some (None, s', u')" by simp
      moreover have "CHR 0x0A \<notin> set (last ?ls)"
        using split_on_no_sep [of "last ?ls" "CHR 0x0A" "carry @ p"] by simp
      moreover have "lines_fit (last ?ls @ read_bytes es)"
        using lines_fit_app [OF fit] None by simp
      ultimately have "view u' = foldl (\<lambda>v l. g l v) (view ?u1) (scanned_lines (last ?ls @ read_bytes es))"
        by (rule Cons.IH)
      then show ?thesis
        using None Read v scanned_lines_app [of "carry @ p" "read_bytes es"] by simp
    next
      case (Some re)
      with Cons.prems(1) Read c have "pump_finish (scan t) re (last ?ls, s1, ?u1) = (None, s', u')"
        by simp
      then have "u' = (if last ?ls \<noteq> [] then scan t (last ?ls) ?u1 else ?u1)"
        by (simp add: pump_finish_def split: if_splits)
      then show ?thesis using Some Read v by (simp add: scanned_lines_def assms)
    qed
  next
    case Tick
    then obtain s1 where "pump dst ping keepalive scan es (carry, s1, u) = Some (None, s', u')"
      using Cons.prems(1) by (auto simp: Let_def split: if_splits option.splits prod.splits)
    from Cons.IH [OF this Cons.prems(2)] Cons.prems(3) Tick show ?thesis by simp
  qed
qed simp

subsection \<open>The pieces a run writes\<close>

fun read_pieces :: "pump_event list \<Rightarrow> bytes list" where
  "read_pieces [] = []"
| "read_pieces (Tick # es) = read_pieces es"
| "read_pieces (Read t p err # es) =
    (if p = [] then [] else [p]) @ (if err = None then read_pieces es else [])"

lemma concat_read_pieces: "concat (read_pieces es) = read_bytes es"
  by (induction es rule: read_pieces.induct) auto

text \<open>A view of the writer's state that each accepted piece changes by \<open>h\<close>, and no comment.\<close>

lemma pump_writes:
  assumes "\<And>p s n s'. dst p s = (n, None, s') \<Longrightarrow> view s' = h (view s) p"
    and "\<And>p s n s'. keepalive \<Longrightarrow> ping p s = (n, None, s') \<Longrightarrow> view s' = view s"
  shows "pump dst ping keepalive scan es (carry, s, u) = Some (None, s', u') \<Longrightarrow>
    view s' = foldl h (view s) (read_pieces es)"
proof (induction es arbitrary: carry s u)
  case (Cons e es)
  show ?case
  proof (cases e)
    case (Read t p rerr)
    obtain werr carry1 s1 u1 where c: "(if p \<noteq> [] then pump_consume dst (scan t) p (carry, s, u)
        else (None, carry, s, u)) = (werr, carry1, s1, u1)" using surj_pair by metis
    have "werr = None" using Cons.prems Read c by (cases werr) auto
    have v: "view s1 = foldl h (view s) (if p = [] then [] else [p])"
    proof (cases "p = []")
      case False
      obtain n err s2 where d: "dst p s = (n, err, s2)" by (cases "dst p s")
      with False c \<open>werr = None\<close> have "err = None" "s2 = s1"
        by (auto simp: pump_consume_def Let_def split: option.splits prod.splits if_splits)
      with d False assms(1) show ?thesis by auto
    qed (use c in auto)
    show ?thesis
    proof (cases rerr)
      case None
      with Cons.prems Read c \<open>werr = None\<close>
      have "pump dst ping keepalive scan es (carry1, s1, u1) = Some (None, s', u')" by simp
      from Cons.IH [OF this] v None Read show ?thesis by simp
    next
      case (Some re)
      with Cons.prems Read c \<open>werr = None\<close> have "s' = s1" by (auto simp: pump_finish_def split: if_splits)
      with v Some Read show ?thesis by simp
    qed
  next
    case Tick
    obtain n werr s1 where w: "ping sse_comment s = (n, werr, s1)" by (cases "ping sse_comment s")
    show ?thesis
    proof (cases keepalive)
      case True
      with Cons.prems Tick w have "werr = None" by (cases werr) auto
      with Cons.prems Tick w True
      have "pump dst ping keepalive scan es (carry, s1, u) = Some (None, s', u')" by simp
      from Cons.IH [OF this] assms(2) [OF True] w \<open>werr = None\<close> Tick show ?thesis by auto
    next
      case False
      with Cons Tick show ?thesis by auto
    qed
  qed
qed simp

subsection \<open>A client with a log beside it\<close>

context tee
begin

lemma beside_sink: "sink (beside put) (\<lambda>s. seen (fst s))"
proof
  fix p s n err s'
  assume "beside put p s = (n, err, s')"
  then obtain w where "put p (fst s) = (n, err, w)" "fst s' = w"
    by (auto simp: beside_def split: prod.splits)
  with accepts show "seen (fst s') = seen (fst s) @ take n p" by metis
next
  fix p s n s'
  assume "beside put p s = (n, None, s')"
  then show "n = length p" by (auto simp: beside_def dest: count split: prod.splits)
qed

lemma io: "pump_io (multi_write put log_put) (beside put) (\<lambda>s. seen (fst s))"
  by (intro pump_io.intro both.sink_axioms beside_sink)

lemma quiet_io: "pump_io (multi_write put log_put) (multi_write put log_put) (\<lambda>s. seen (fst s))"
  by (intro pump_io.intro both.sink_axioms)

lemma log_step: "multi_write put log_put p s = (n, None, s') \<Longrightarrow> snd s' = snd (snd (log_put p (snd s)))"
  by (cases s) (auto simp: multi_write_eq Let_def split: prod.splits if_splits)

lemma beside_log: "beside put p s = (n, err, s') \<Longrightarrow> snd s' = snd s"
  by (auto simp: beside_def split: prod.splits)

text \<open>Both keep what the client's writer keeps.\<close>

lemma both_keeps:
  assumes "\<And>p s n e s'. I s \<Longrightarrow> put p s = (n, e, s') \<Longrightarrow> I s'"
  shows "I (fst s) \<Longrightarrow> multi_write put log_put p s = (n, e, s') \<Longrightarrow> I (fst s')"
    and "I (fst s) \<Longrightarrow> beside put p s = (n, e, s') \<Longrightarrow> I (fst s')"
  using assms by (cases s; force simp: multi_write_eq beside_def Let_def split: prod.splits if_splits)+

end

subsection \<open>NDJSON streams\<close>

locale ndjson_client = tee put seen cap_write for put :: "'s writer" and seen :: "'s \<Rightarrow> bytes"
begin

lemma copy_ndjson_seen:
  assumes "copy_ndjson float64 (multi_write put cap_write) es (w, c) = Some (err, (w', c'), u)"
  shows "\<exists>q. prefix q (read_bytes es) \<and> seen w' = seen w @ q \<and> (err = None \<longrightarrow> q = read_bytes es)"
  using pump_io.pump_seen [OF quiet_io assms [unfolded copy_ndjson_def]] by (simp add: stream_text_quiet)

lemma copy_ndjson_log:
  assumes "copy_ndjson float64 (multi_write put cap_write) es (w, c) = Some (None, (w', c'), u)"
  shows "c' = foldl cap_put c (read_pieces es)"
  using pump_writes [where view = snd and h = "\<lambda>l p. snd (snd (cap_write p l))",
      OF _ _ assms [unfolded copy_ndjson_def]]
  by (auto dest: log_step)

lemma copy_ndjson_usage:
  assumes "copy_ndjson float64 (multi_write put cap_write) es (w, c) = Some (None, s', (usage, first))"
    and fit: "lines_fit (read_bytes es)"
  shows "usage = merge_all (map (parse_usage_json float64)
        (filter (\<lambda>l. l \<noteq> []) (map trim_space (scanned_lines (read_bytes es)))))"
proof -
  note run = assms(1) [unfolded copy_ndjson_def]
  let ?g = "\<lambda>l v. if trim_space l = [] then v else merge_usage v (parse_usage_json float64 (trim_space l))"
  have "fst (scan_ndjson float64 t l u) = ?g l (fst u)" for t l u
    by (simp add: scan_ndjson_def Let_def)
  from pump_scans [where view = fst, OF this run] fit
  have "usage = foldl (\<lambda>v l. ?g l v) no_usage (scanned_lines (read_bytes es))" by simp
  moreover have "foldl (\<lambda>v l. ?g l v) v ls = foldl merge_usage v
      (map (parse_usage_json float64) (filter (\<lambda>l. l \<noteq> []) (map trim_space ls)))" for v ls
    by (induction ls arbitrary: v) auto
  ultimately show ?thesis by (simp add: merge_all_def)
qed

end

subsection \<open>The writers of a response\<close>

interpretation client: sink flush_write "rw_body :: 'a rw_scheme \<Rightarrow> bytes"
proof
  fix p and s :: "'a rw_scheme" and n err s'
  assume w: "flush_write p s = (n, err, s')"
  have "rw_body (write_header 200 s) = rw_body s" by (simp add: write_header_def)
  with w show "rw_body s' = rw_body s @ take n p"
    by (auto simp: flush_write_def rw_write_def Let_def split: if_splits option.splits prod.splits)
next
  fix p and s :: "'a rw_scheme" and n s'
  assume "flush_write p s = (n, None, s')"
  then show "n = length p"
    by (auto simp: flush_write_def rw_write_def Let_def split: if_splits option.splits prod.splits)
qed

interpretation client_pump: pump_io flush_write flush_write "rw_body :: 'a rw_scheme \<Rightarrow> bytes" ..

interpretation cap_log: quiet cap_write
  by unfold_locales (auto simp: cap_write_def Let_def split: if_splits)

interpretation client_cap: ndjson_client flush_write "rw_body :: 'a rw_scheme \<Rightarrow> bytes" ..

subsection \<open>Properties\<close>

lemma cap_put_take:
  assumes "int (length (cb_b c)) \<le> max 0 (cb_max c)"
  shows "cb_b (cap_put c p) = take (nat (cb_max c)) (cb_b c @ p) \<and> cb_max (cap_put c p) = cb_max c"
  using assms by (auto simp: cap_write_def Let_def nat_diff_distrib)

lemma cap_puts_take:
  "cb_b (foldl cap_put \<lparr>cb_b = [], cb_max = m\<rparr> ps) = take (nat m) (concat ps)"
proof -
  have "cb_b (foldl cap_put \<lparr>cb_b = [], cb_max = m\<rparr> ps) = take (nat m) (concat ps) \<and>
      cb_max (foldl cap_put \<lparr>cb_b = [], cb_max = m\<rparr> ps) = m"
  proof (induction ps rule: rev_induct)
    case (snoc p ps)
    let ?c = "foldl cap_put \<lparr>cb_b = [], cb_max = m\<rparr> ps"
    have "int (length (cb_b ?c)) \<le> max 0 (cb_max ?c)" using snoc by auto
    from cap_put_take [OF this, of p] snoc show ?case by (simp add: min_def)
  qed simp
  then show ?thesis by blast
qed

text \<open>
  The log buffer. Whatever is written to it, piece by piece, it takes every piece without
  an error or a short count, and holds the first \<open>max\<close> bytes of the whole, no more.
\<close>

theorem cap_buffer_prefix:
  "cb_b (foldl cap_put \<lparr>cb_b = [], cb_max = m\<rparr> ps) = take (nat m) (concat ps) \<and>
   fst (cap_write p c) = length p \<and> fst (snd (cap_write p c)) = None"
  using cap_puts_take [of m ps] cap_log.full [of p c] by (metis prod.collapse)

text \<open>What every write keeps holds after a run.\<close>

lemma pump_keeps:
  assumes "\<And>p s n e s'. I s \<Longrightarrow> dst p s = (n, e, s') \<Longrightarrow> I s'"
    and "\<And>p s n e s'. I s \<Longrightarrow> ping p s = (n, e, s') \<Longrightarrow> I s'"
  shows "pump dst ping keepalive scan es (carry, s, u) = Some (err, s', u') \<Longrightarrow> I s \<Longrightarrow> I s'"
proof (induction es arbitrary: carry s u)
  case (Cons e es)
  show ?case
  proof (cases e)
    case (Read t p rerr)
    obtain werr carry1 s1 u1 where c: "(if p \<noteq> [] then pump_consume dst (scan t) p (carry, s, u)
        else (None, carry, s, u)) = (werr, carry1, s1, u1)" using surj_pair by metis
    have v: "I s1"
    proof (cases "p = []")
      case False
      obtain n err s2 where d: "dst p s = (n, err, s2)" by (cases "dst p s")
      with False c have "s2 = s1"
        by (auto simp: pump_consume_def Let_def split: option.splits prod.splits if_splits)
      with assms(1) [OF Cons.prems(2) d] show ?thesis by simp
    qed (use c Cons.prems(2) in auto)
    from Cons.prems(1) Read c
    consider "pump dst ping keepalive scan es (carry1, s1, u1) = Some (err, s', u')" | "s' = s1"
      by (auto simp: pump_finish_def split: option.splits if_splits)
    then show ?thesis using Cons.IH v by cases auto
  next
    case Tick
    obtain n werr s1 where w: "ping sse_comment s = (n, werr, s1)" by (cases "ping sse_comment s")
    from Cons.prems(1) Tick w
    consider "pump dst ping keepalive scan es (carry, s1, u) = Some (err, s', u')"
      | "pump dst ping keepalive scan es (carry, s, u) = Some (err, s', u')" | "s' = s1"
      by (auto split: option.splits if_splits)
    then show ?thesis using Cons.IH Cons.prems(2) assms(2) [OF Cons.prems(2) w] by cases auto
  qed
qed simp

lemma pump_ends:
  assumes "\<exists>t p e. Read t p (Some e) \<in> set es"
  shows "\<exists>r. pump dst ping keepalive scan es st = Some r"
  using assms
proof (induction es arbitrary: st)
  case (Cons ev es)
  obtain carry s u where st: "st = (carry, s, u)" by (cases st)
  show ?case
  proof (cases ev)
    case (Read t p err)
    then show ?thesis
      using Cons
      by (cases err) (auto simp: Let_def simp del: split_paired_Ex split: prod.splits option.splits)
  next
    case Tick
    then show ?thesis
      using Cons
      by (auto simp: st Let_def simp del: split_paired_Ex split: prod.splits option.splits)
  qed
qed simp

text \<open>
  C37: a copy ends. Once the upstream body reports its end or an error, the loop has returned,
  whatever was read before, however the writers behaved, and whether or not comments were due.
\<close>

theorem pump_returns:
  assumes "\<exists>t p e. Read t p (Some e) \<in> set es"
  shows "\<exists>r. pump dst ping keepalive scan es st = Some r"
  using assms by (rule pump_ends)

definition end_of_file :: go_error where
  "end_of_file = GoError Eof ''EOF'' []"

theorem pump_returns_witness:
  "\<exists>r. pump cap_write cap_write True (\<lambda>_ _. id) [Tick, Read 1 ''ab'' (Some end_of_file)]
    ([], \<lparr>cb_b = [], cb_max = 9\<rparr>, ()) = Some r"
  by (rule pump_returns) auto

text \<open>
  An NDJSON stream. When the copy ends without an error, the client has received exactly
  the bytes of the upstream body, and the counts are those of its non-blank lines, wherever the
  reads cut it.
\<close>

theorem copy_ndjson_transparent:
  assumes "copy_ndjson float64 (multi_write flush_write cap_write) es (w, c) =
      Some (None, (w', c'), (usage, first))"
  shows "rw_body w' = rw_body w @ read_bytes es \<and>
    (lines_fit (read_bytes es) \<longrightarrow>
      usage = merge_all (map (parse_usage_json float64)
        (filter (\<lambda>l. l \<noteq> []) (map trim_space (scanned_lines (read_bytes es))))))"
  using client_cap.copy_ndjson_seen [OF assms] client_cap.copy_ndjson_usage [OF assms] by simp

theorem copy_ndjson_transparent_witness:
  "\<exists>w' c' usage first. copy_ndjson (\<lambda>_. None) (multi_write flush_write cap_write)
      [Read 1 [CHR 0x0A] None, Read 2 [] (Some end_of_file)] (fresh_rw, \<lparr>cb_b = [], cb_max = 9\<rparr>) =
      Some (None, (w', c'), (usage, first)) \<and> rw_body w' = [CHR 0x0A]"
proof -
  have "\<exists>w' c' usage first. copy_ndjson (\<lambda>_. None) (multi_write flush_write cap_write)
      [Read 1 [CHR 0x0A] None, Read 2 [] (Some end_of_file)] (fresh_rw, \<lparr>cb_b = [], cb_max = 9\<rparr>) =
      Some (None, (w', c'), (usage, first))"
    by (simp add: copy_ndjson_def pump_consume_def pump_finish_def multi_write_def flush_write_def
        rw_write_def write_header_def fresh_rw_def body_allowed_def cap_write_def scan_lines.simps
        max_sse_scan_def max_medium_blob_def is_eof_def err_as_def end_of_file_def)
  then obtain w' c' usage first where r: "copy_ndjson (\<lambda>_. None) (multi_write flush_write cap_write)
      [Read 1 [CHR 0x0A] None, Read 2 [] (Some end_of_file)] (fresh_rw, \<lparr>cb_b = [], cb_max = 9\<rparr>) =
      Some (None, (w', c'), (usage, first))" by blast
  from copy_ndjson_transparent [OF r] have "rw_body w' = [CHR 0x0A]" by (simp add: fresh_rw_def)
  with r show ?thesis by blast
qed

end
