(* ===== verification/Files.thy ===== *)
theory Files
  imports JsonMap Pump
begin

text \<open>
  \<^verbatim>\<open>files.go\<close>: inline files (base64 payloads in the JSON of a call, data URLs in its strings) are
  taken out of a logged body and replaced by a placeholder naming their SHA-256. \<open>sha\<close> is the
  digest, \<open>detect\<close> is \<^verbatim>\<open>http.DetectContentType\<close>. The files found so far and the digests seen are
  threaded through as a pair; a Go map is visited in the order of its association list.
\<close>

subsection \<open>Placeholders and kinds\<close>

record extracted_file =
  ef_sha :: string
  ef_mime :: string
  ef_data :: bytes

definition min_decoded_file_bytes :: nat where
  "min_decoded_file_bytes = 32"

definition audio_formats :: "string gomap" where
  "audio_formats =
    [(''wav'', ''audio/wav''), (''mp3'', ''audio/mpeg''), (''mpeg'', ''audio/mpeg''),
     (''pcm16'', ''audio/pcm''), (''ogg'', ''audio/ogg''), (''flac'', ''audio/flac''),
     (''webm'', ''audio/webm'')]"

definition system_one_image_formats :: "string gomap" where
  "system_one_image_formats =
    [(''png'', ''image/png''), (''jpg'', ''image/jpeg''), (''jpeg'', ''image/jpeg'')]"

definition file_placeholder :: "string \<Rightarrow> string" where
  "file_placeholder s = ''<file:'' @ s @ ''>''"

definition valid_file_sha256 :: "string \<Rightarrow> bool" where
  "valid_file_sha256 s =
    (length s = 64 \<and> list_all (\<lambda>c. is_digit c \<or> 0x61 \<le> byte_of c \<and> byte_of c \<le> 0x66) s)"

definition system_one_asset_mime :: "string gomap \<Rightarrow> string" where
  "system_one_asset_mime obj =
    (let format = the_or [] (raw_json_string (mget obj ''format'')) in
     (case map_of system_one_image_formats (to_lower (trim_space format)) of
        None \<Rightarrow> []
      | Some mime \<Rightarrow>
          let typ = the_or [] (raw_json_string (mget obj ''type'')) in
          if typ \<noteq> [] \<and> typ \<noteq> ''image'' then [] else mime))"

definition file_kind :: "string \<Rightarrow> string" where
  "file_kind mime0 =
    (let mime = to_lower (trim_space mime0) in
     if mime = ''image/svg+xml'' then ''file''
     else if prefix ''image/'' mime then ''image''
     else if prefix ''video/'' mime then ''video''
     else if prefix ''audio/'' mime then ''audio''
     else ''file'')"

definition inline_mimes :: "string list" where
  "inline_mimes = [''image/png'', ''image/jpeg'', ''image/gif'', ''image/webp'', ''image/avif'',
    ''video/mp4'', ''video/webm'', ''video/ogg'', ''application/pdf'']"

definition inline_file_mime :: "string \<Rightarrow> bool" where
  "inline_file_mime mime0 =
    (let mime = to_lower (trim_space mime0) in
     if prefix ''audio/'' mime then True else mime \<in> set inline_mimes)"

subsection \<open>Base64\<close>

definition b64_val :: "char \<Rightarrow> nat option" where
  "b64_val c =
    (let n = byte_of c in
     if 0x41 \<le> n \<and> n \<le> 0x5A then Some (n - 0x41)
     else if 0x61 \<le> n \<and> n \<le> 0x7A then Some (n - 0x61 + 26)
     else if 0x30 \<le> n \<and> n \<le> 0x39 then Some (n - 0x30 + 52)
     else if c = CHR ''+'' then Some 62
     else if c = CHR ''/'' then Some 63
     else None)"

definition b64_one :: "char \<Rightarrow> char \<Rightarrow> bytes option" where
  "b64_one a b = do { x \<leftarrow> b64_val a; y \<leftarrow> b64_val b; Some [char_of (x * 4 + y div 16)] }"

definition b64_two :: "char \<Rightarrow> char \<Rightarrow> char \<Rightarrow> bytes option" where
  "b64_two a b c =
    do { x \<leftarrow> b64_val a; y \<leftarrow> b64_val b; z \<leftarrow> b64_val c;
         Some [char_of (x * 4 + y div 16), char_of (y mod 16 * 16 + z div 4)] }"

definition b64_three :: "char \<Rightarrow> char \<Rightarrow> char \<Rightarrow> char \<Rightarrow> bytes option" where
  "b64_three a b c d =
    do { x \<leftarrow> b64_val a; y \<leftarrow> b64_val b; z \<leftarrow> b64_val c; u \<leftarrow> b64_val d;
         Some [char_of (x * 4 + y div 16), char_of (y mod 16 * 16 + z div 4), char_of (z mod 4 * 64 + u)] }"

text \<open>\<^verbatim>\<open>base64.StdEncoding.DecodeString\<close> and \<^verbatim>\<open>base64.RawStdEncoding.DecodeString\<close>, no line ends.\<close>

fun b64_std :: "string \<Rightarrow> bytes option" where
  "b64_std [] = Some []"
| "b64_std (a # b # c # d # s) =
    (if s = [] \<and> d = CHR ''='' then (if c = CHR ''='' then b64_one a b else b64_two a b c)
     else do { p \<leftarrow> b64_three a b c d; q \<leftarrow> b64_std s; Some (p @ q) })"
| "b64_std _ = None"

fun b64_raw :: "string \<Rightarrow> bytes option" where
  "b64_raw [] = Some []"
| "b64_raw [a, b] = b64_one a b"
| "b64_raw [a, b, c] = b64_two a b c"
| "b64_raw (a # b # c # d # s) = do { p \<leftarrow> b64_three a b c d; q \<leftarrow> b64_raw s; Some (p @ q) }"
| "b64_raw [a] = None"

text \<open>
  \<^verbatim>\<open>strings.Map\<close> also replaces malformed UTF-8; a payload with any non-ASCII byte is refused by
  both decoders either way.
\<close>

definition decode_base64_payload :: "string \<Rightarrow> bytes option" where
  "decode_base64_payload s0 =
    (let s = filter (\<lambda>c. c \<notin> {CHR 0x0A, CHR 0x0D, CHR '' '', CHR 0x09}) s0 in
     if s = [] then None
     else
       (case (case (if length s mod 4 \<noteq> 0 then b64_raw s else b64_std s) of
                None \<Rightarrow> b64_raw s
              | Some data \<Rightarrow> Some data) of
          None \<Rightarrow> None
        | Some data \<Rightarrow>
            if length data < min_decoded_file_bytes \<or> max_medium_blob < int (length data) then None
            else Some data))"

definition hex_bytes :: "bytes \<Rightarrow> string" where
  "hex_bytes b = concat (map (\<lambda>c. [hex_digit (byte_of c div 16), hex_digit (byte_of c mod 16)]) b)"

definition file_from_base64 ::
  "(bytes \<Rightarrow> bytes) \<Rightarrow> (bytes \<Rightarrow> string) \<Rightarrow> string \<Rightarrow> string \<Rightarrow> extracted_file option" where
  "file_from_base64 sha detect payload mime0 =
    (case decode_base64_payload payload of
       None \<Rightarrow> None
     | Some data \<Rightarrow>
         let mime = trim_space mime0;
             mime = (if mime = [] then detect data else mime) in
         Some \<lparr>ef_sha = hex_bytes (sha data), ef_mime = mime, ef_data = data\<rparr>)"

subsection \<open>Data URLs\<close>

definition allowed_data_url_mime :: "string \<Rightarrow> bool" where
  "allowed_data_url_mime mime =
    (case cut (CHR ''/'') mime of
       (typ, _, found) \<Rightarrow>
         if \<not> found \<or> typ = [] then False
         else if typ \<in> {''image'', ''video'', ''audio''} then True
         else mime = ''application/pdf'')"

text \<open>\<^verbatim>\<open>strings.Index\<close>.\<close>

fun index_of :: "string \<Rightarrow> string \<Rightarrow> nat option" where
  "index_of sub [] = (if sub = [] then Some 0 else None)"
| "index_of sub (c # s) = (if prefix sub (c # s) then Some 0 else map_option Suc (index_of sub s))"

definition parse_data_url :: "string \<Rightarrow> (string \<times> string) option" where
  "parse_data_url s =
    (if \<not> prefix ''data:'' s then None
     else
       let rest = drop 5 s in
       (case index_of '';base64,'' rest of
          None \<Rightarrow> None
        | Some i \<Rightarrow>
            let meta = take i rest;
                payload = drop (i + 8) rest;
                mime = (case cut (CHR '';'') meta of (a, _, found) \<Rightarrow> if found then a else meta);
                mime = to_lower (trim_space mime) in
            if \<not> allowed_data_url_mime mime then None else Some (mime, payload)))"

text \<open>
  The two regular expressions, as matchers at the start of a text. Each class excludes the
  character that follows its run, so a run is always taken whole and no match is missed by not
  backtracking. The result of a match is its length.
\<close>

definition mime_char :: "char \<Rightarrow> bool" where
  "mime_char c = (is_alnum c \<or> c \<in> {CHR ''.'', CHR ''+'', CHR ''-''})"

definition param_char :: "char \<Rightarrow> bool" where
  "param_char c = (mime_char c \<or> c = CHR ''='')"

definition base64_char :: "char \<Rightarrow> bool" where
  "base64_char c = (is_alnum c \<or> c \<in> {CHR ''+'', CHR ''/'', CHR ''=''})"

text \<open>What follows the parameters and the marker \<^verbatim>\<open>;base64,\<close>.\<close>

function after_params :: "string \<Rightarrow> string option" where
  "after_params s =
    (case s of
       [] \<Rightarrow> None
     | c # t \<Rightarrow>
         if c \<noteq> CHR '';'' then None
         else
           let seg = takeWhile param_char t; r = dropWhile param_char t in
           if seg = [] then None
           else if r \<noteq> [] \<and> hd r = CHR '','' then (if seg = ''base64'' then Some (tl r) else None)
           else after_params r)"
  by pat_completeness auto
termination
  by (relation "measure length") (auto simp: less_Suc_eq_le length_dropWhile_le)

declare after_params.simps [simp del]

definition match_data_url :: "string \<Rightarrow> nat option" where
  "match_data_url s =
    (case (if prefix ''data:image/'' s \<or> prefix ''data:video/'' s \<or> prefix ''data:audio/'' s
           then (let t = drop 11 s in
                 if takeWhile mime_char t = [] then None else after_params (dropWhile mime_char t))
           else if prefix ''data:application/pdf'' s then after_params (drop 20 s)
           else None) of
       None \<Rightarrow> None
     | Some r \<Rightarrow>
         if takeWhile base64_char r = [] then None
         else Some (length s - length (dropWhile base64_char r)))"

definition regexp_space :: "char \<Rightarrow> bool" where
  "regexp_space c = (c \<in> {CHR 0x09, CHR 0x0A, CHR 0x0C, CHR 0x0D, CHR '' ''})"

text \<open>The three groups of a match of the \<^verbatim>\<open>b64_json\<close> pattern.\<close>

definition match_b64_field :: "string \<Rightarrow> (string \<times> string \<times> string) option" where
  "match_b64_field s =
    (let q = CHR 0x22; name = q # ''b64_json'' @ [q] in
     if \<not> prefix name s then None
     else
       let t = dropWhile regexp_space (drop (length name) s) in
       if t = [] \<or> hd t \<noteq> CHR '':'' then None
       else
         let u = dropWhile regexp_space (tl t) in
         if u = [] \<or> hd u \<noteq> q then None
         else
           let payload = takeWhile base64_char (tl u); r = dropWhile base64_char (tl u) in
           if payload = [] \<or> r = [] \<or> hd r \<noteq> q then None
           else Some (take (length s - length (tl u)) s, payload, [q]))"

subsection \<open>Extraction\<close>

type_synonym found_files = "extracted_file list \<times> string list"

definition add_extracted :: "extracted_file \<Rightarrow> found_files \<Rightarrow> found_files" where
  "add_extracted f st =
    (case st of (files, seen) \<Rightarrow>
       if ef_sha f \<in> set seen then st else (files @ [f], ef_sha f # seen))"

text \<open>
  \<^verbatim>\<open>ReplaceAllStringFunc\<close>: \<open>m\<close> gives the length of a match at the start of a text, \<open>f\<close> its
  replacement, \<open>None\<close> to leave it.
\<close>

function replace_all ::
  "(string \<Rightarrow> nat option) \<Rightarrow> (string \<Rightarrow> 'a \<Rightarrow> (string \<times> 'a) option) \<Rightarrow> string \<Rightarrow> bool \<times> 'a \<Rightarrow>
    string \<times> bool \<times> 'a" where
  "replace_all m f s st =
    (case s of
       [] \<Rightarrow> ([], st)
     | c # t \<Rightarrow>
         (case m s of
            Some n \<Rightarrow>
              if n = 0 then (case replace_all m f t st of (out, st) \<Rightarrow> (c # out, st))
              else
                (case f (take n s) (snd st) of
                   None \<Rightarrow> (case replace_all m f (drop n s) st of (out, st) \<Rightarrow> (take n s @ out, st))
                 | Some (r, a) \<Rightarrow>
                     (case replace_all m f (drop n s) (True, a) of (out, st) \<Rightarrow> (r @ out, st)))
          | None \<Rightarrow> (case replace_all m f t st of (out, st) \<Rightarrow> (c # out, st))))"
  by pat_completeness auto
termination
  by (relation "measure (\<lambda>(m, f, s, st). length s)") auto

declare replace_all.simps [simp del]

definition replace_data_url ::
  "(bytes \<Rightarrow> bytes) \<Rightarrow> (bytes \<Rightarrow> string) \<Rightarrow> string \<Rightarrow> found_files \<Rightarrow> (string \<times> found_files) option" where
  "replace_data_url sha detect m st =
    do {
      (mime, payload) \<leftarrow> parse_data_url m;
      f \<leftarrow> file_from_base64 sha detect payload mime;
      Some (file_placeholder (ef_sha f), add_extracted f st)
    }"

definition replace_b64_field ::
  "(bytes \<Rightarrow> bytes) \<Rightarrow> (bytes \<Rightarrow> string) \<Rightarrow> string \<Rightarrow> found_files \<Rightarrow> (string \<times> found_files) option" where
  "replace_b64_field sha detect m st =
    do {
      (before, payload, after) \<leftarrow> match_b64_field m;
      f \<leftarrow> file_from_base64 sha detect payload [];
      Some (before @ file_placeholder (ef_sha f) @ after, add_extracted f st)
    }"

definition rewrite_text ::
  "(bytes \<Rightarrow> bytes) \<Rightarrow> (bytes \<Rightarrow> string) \<Rightarrow> string \<Rightarrow> found_files \<Rightarrow> string \<times> bool \<times> found_files" where
  "rewrite_text sha detect s st =
    (if \<not> contains s ''data:'' \<and> \<not> contains s ''b64_json'' then (s, False, st)
     else
       (case replace_all match_data_url (replace_data_url sha detect) s (False, st) of
          (s, st) \<Rightarrow>
            replace_all (\<lambda>s. map_option (\<lambda>(a, b, c). length a + length b + length c) (match_b64_field s))
              (replace_b64_field sha detect) s st))"

definition rewrite_json_string ::
  "(bytes \<Rightarrow> bytes) \<Rightarrow> (bytes \<Rightarrow> string) \<Rightarrow> bytes \<Rightarrow> bytes \<Rightarrow> found_files \<Rightarrow> bytes \<times> bool \<times> found_files" where
  "rewrite_json_string sha detect raw trimmed st =
    (case raw_json_string trimmed of
       None \<Rightarrow> (raw, False, st)
     | Some s \<Rightarrow>
         (case rewrite_text sha detect s st of
            (ns, changed, st) \<Rightarrow> if changed then (encode_string ns, True, st) else (raw, False, st)))"

text \<open>The loops over the elements of an array and the members of an object.\<close>

fun rewrite_items :: "(bytes \<Rightarrow> found_files \<Rightarrow> bytes \<times> bool \<times> found_files) \<Rightarrow> bytes list \<Rightarrow> bool \<Rightarrow> found_files \<Rightarrow>
    bytes list \<times> bool \<times> found_files" where
  "rewrite_items f [] changed st = ([], changed, st)"
| "rewrite_items f (v # vs) changed st =
    (case f v st of
       (nv, c, st) \<Rightarrow>
         (case rewrite_items f vs (changed \<or> c) st of
            (nvs, changed, st) \<Rightarrow> ((if c then nv else v) # nvs, changed, st)))"

fun rewrite_members :: "(bytes \<Rightarrow> found_files \<Rightarrow> bytes \<times> bool \<times> found_files) \<Rightarrow> string list \<Rightarrow> string gomap \<Rightarrow>
    bool \<Rightarrow> found_files \<Rightarrow> string gomap \<times> bool \<times> found_files" where
  "rewrite_members f skip [] changed st = ([], changed, st)"
| "rewrite_members f skip ((k, v) # m) changed st =
    (if k \<in> set skip then
       (case rewrite_members f skip m changed st of (m, changed, st) \<Rightarrow> ((k, v) # m, changed, st))
     else
       (case f v st of
          (nv, c, st) \<Rightarrow>
            (case rewrite_members f skip m (changed \<or> c) st of
               (m, changed, st) \<Rightarrow> ((k, if c then nv else v) # m, changed, st))))"

text \<open>
  The four special fields of an object. The state is the object, the fields replaced so far, and
  the files; \<open>take_field\<close> replaces the field \<open>k\<close> whose payload is \<open>data\<close>.
\<close>

type_synonym object_state = "string gomap \<times> string list \<times> found_files"

definition take_field ::
  "(bytes \<Rightarrow> bytes) \<Rightarrow> (bytes \<Rightarrow> string) \<Rightarrow> string \<Rightarrow> string \<Rightarrow> string \<Rightarrow> object_state \<Rightarrow> object_state" where
  "take_field sha detect k data mime s =
    (case s of (obj, skip, st) \<Rightarrow>
       (case file_from_base64 sha detect data mime of
          None \<Rightarrow> s
        | Some f \<Rightarrow>
            (mset_key k (encode_string (file_placeholder (ef_sha f))) obj, k # skip, add_extracted f st)))"

definition field_text :: "string gomap \<Rightarrow> string \<Rightarrow> string" where
  "field_text obj k = the_or [] (raw_json_string (mget obj k))"

definition take_source :: "(bytes \<Rightarrow> bytes) \<Rightarrow> (bytes \<Rightarrow> string) \<Rightarrow> object_state \<Rightarrow> object_state" where
  "take_source sha detect s =
    (let obj = fst s; data = field_text obj ''data'' in
     if field_text obj ''type'' = ''base64'' \<and> data \<noteq> []
     then take_field sha detect ''data'' data (field_text obj ''media_type'') s else s)"

definition take_b64_json :: "(bytes \<Rightarrow> bytes) \<Rightarrow> (bytes \<Rightarrow> string) \<Rightarrow> object_state \<Rightarrow> object_state" where
  "take_b64_json sha detect s =
    (let b64 = field_text (fst s) ''b64_json'' in
     if b64 \<noteq> [] then take_field sha detect ''b64_json'' b64 [] s else s)"

definition take_audio :: "(bytes \<Rightarrow> bytes) \<Rightarrow> (bytes \<Rightarrow> string) \<Rightarrow> object_state \<Rightarrow> object_state" where
  "take_audio sha detect s =
    (let obj = fst s; mime = mget audio_formats (to_lower (field_text obj ''format''));
         data = field_text obj ''data'' in
     if mime \<noteq> [] \<and> data \<noteq> [] \<and> \<not> prefix ''data:'' data
     then take_field sha detect ''data'' data mime s else s)"

definition take_asset :: "(bytes \<Rightarrow> bytes) \<Rightarrow> (bytes \<Rightarrow> string) \<Rightarrow> object_state \<Rightarrow> object_state" where
  "take_asset sha detect s =
    (let obj = fst s; data = field_text obj ''data_base64''; mime = system_one_asset_mime obj in
     if data \<noteq> [] \<and> mime \<noteq> [] then take_field sha detect ''data_base64'' data mime s else s)"

text \<open>The four of them in the order of the code, on the object as it was decoded.\<close>

definition take_payloads :: "(bytes \<Rightarrow> bytes) \<Rightarrow> (bytes \<Rightarrow> string) \<Rightarrow> string gomap \<Rightarrow> found_files \<Rightarrow> object_state" where
  "take_payloads sha detect obj st =
    take_asset sha detect (take_audio sha detect (take_b64_json sha detect (take_source sha detect (obj, [], st))))"

definition rewrite_json_object ::
  "(bytes \<Rightarrow> bytes) \<Rightarrow> (bytes \<Rightarrow> string) \<Rightarrow> (bytes \<Rightarrow> found_files \<Rightarrow> bytes \<times> bool \<times> found_files) \<Rightarrow>
    bytes \<Rightarrow> bytes \<Rightarrow> found_files \<Rightarrow> bytes \<times> bool \<times> found_files" where
  "rewrite_json_object sha detect f raw trimmed st =
    (case decode_json_raw_object trimmed of
       None \<Rightarrow> (raw, False, st)
     | Some obj \<Rightarrow>
         (case take_payloads sha detect obj st of
            (obj, skip, st) \<Rightarrow>
              (case rewrite_members f skip obj (skip \<noteq> []) st of
                 (obj, changed, st) \<Rightarrow>
                   if \<not> changed then (raw, False, st)
                   else (case encode_json_raw_object obj of
                           None \<Rightarrow> (raw, False, st)
                         | Some out \<Rightarrow> (out, True, st)))))"

definition rewrite_json_array ::
  "(bytes \<Rightarrow> found_files \<Rightarrow> bytes \<times> bool \<times> found_files) \<Rightarrow> bytes \<Rightarrow> bytes \<Rightarrow> found_files \<Rightarrow>
    bytes \<times> bool \<times> found_files" where
  "rewrite_json_array f raw trimmed st =
    (case unmarshal_raw_array trimmed of
       None \<Rightarrow> (raw, False, st)
     | Some arr \<Rightarrow>
         (case rewrite_items f arr False st of
            (arr, changed, st) \<Rightarrow>
              if \<not> changed then (raw, False, st)
              else (case encode_json_raw_array arr of
                      None \<Rightarrow> (raw, False, st)
                    | Some out \<Rightarrow> (out, True, st))))"

text \<open>
  The recursion goes from a value to the values in it, which are shorter; the first argument
  bounds its depth, and the length of the text is enough (\<open>rewrite_json_fuel\<close>).
\<close>

fun rewrite_json ::
  "(bytes \<Rightarrow> bytes) \<Rightarrow> (bytes \<Rightarrow> string) \<Rightarrow> nat \<Rightarrow> bytes \<Rightarrow> found_files \<Rightarrow> bytes \<times> bool \<times> found_files" where
  "rewrite_json sha detect 0 raw st = (raw, False, st)"
| "rewrite_json sha detect (Suc n) raw st =
    (let trimmed = trim_space raw in
     if trimmed = [] then (raw, False, st)
     else if hd trimmed = CHR 0x22 then rewrite_json_string sha detect raw trimmed st
     else if hd trimmed = CHR 0x5B then rewrite_json_array (rewrite_json sha detect n) raw trimmed st
     else if hd trimmed = CHR ''{'' then rewrite_json_object sha detect (rewrite_json sha detect n) raw trimmed st
     else (raw, False, st))"

definition extract_files ::
  "(bytes \<Rightarrow> bytes) \<Rightarrow> (bytes \<Rightarrow> string) \<Rightarrow> bytes \<Rightarrow> bytes \<times> extracted_file list" where
  "extract_files sha detect body =
    (if body = [] then (body, [])
     else
       (case rewrite_json sha detect (length body) body ([], []) of
          (out, changed, files, _) \<Rightarrow> if changed then (out, files) else (body, [])))"

fun merge_into :: "string list \<Rightarrow> extracted_file list \<Rightarrow> extracted_file list" where
  "merge_into seen [] = []"
| "merge_into seen (f # fs) =
    (if ef_sha f \<in> set seen then merge_into seen fs else f # merge_into (ef_sha f # seen) fs)"

definition merge_extracted :: "extracted_file list \<Rightarrow> extracted_file list \<Rightarrow> extracted_file list" where
  "merge_extracted a b = (if a = [] then b else if b = [] then a else merge_into [] (a @ b))"

subsection \<open>Base64: a reference encoder and its round trip\<close>

definition b64_char :: "nat \<Rightarrow> char" where
  "b64_char n =
    (if n < 26 then char_of (0x41 + n) else if n < 52 then char_of (0x61 + (n - 26))
     else if n < 62 then char_of (0x30 + (n - 52)) else if n = 62 then CHR ''+'' else CHR ''/'')"

fun b64_encode :: "bytes \<Rightarrow> string" where
  "b64_encode [] = []"
| "b64_encode [a] =
    [b64_char (byte_of a div 4), b64_char (byte_of a mod 4 * 16), CHR ''='', CHR ''='']"
| "b64_encode [a, b] =
    [b64_char (byte_of a div 4), b64_char (byte_of a mod 4 * 16 + byte_of b div 16),
     b64_char (byte_of b mod 16 * 4), CHR ''='']"
| "b64_encode (a # b # c # s) =
    b64_char (byte_of a div 4) # b64_char (byte_of a mod 4 * 16 + byte_of b div 16) #
    b64_char (byte_of b mod 16 * 4 + byte_of c div 64) # b64_char (byte_of c mod 64) # b64_encode s"

lemma byte_of_b64_char:
  "n < 64 \<Longrightarrow> byte_of (b64_char n) =
    (if n < 26 then 0x41 + n else if n < 52 then 0x47 + n else if n < 62 then n - 4
     else if n = 62 then 0x2B else 0x2F)"
  by (auto simp: b64_char_def of_char_of)

lemma b64_val_char [simp]: "n < 64 \<Longrightarrow> b64_val (b64_char n) = Some n"
  using byte_of_b64_char [of n] by (auto simp: b64_val_def b64_char_def Let_def)

lemma b64_char_neq [simp]:
  assumes "n < 64"
  shows "b64_char n \<noteq> CHR ''=''"
proof -
  have "b64_val CHR ''='' = None" by (simp add: b64_val_def)
  with b64_val_char [OF assms] show ?thesis by (metis option.discI)
qed

lemma byte_digit:
  assumes "y < (256 :: nat)"
  shows "y div 4 < 64" "y div 16 < 16" "y div 64 < 4" "y mod 4 * 16 < 64" "y mod 16 * 4 < 64"
  using assms by (auto simp: less_mult_imp_div_less)

lemma digit_sum:
  fixes x u :: nat
  shows "u < 16 \<Longrightarrow> x mod 4 * 16 + u < 64" "u < 4 \<Longrightarrow> x mod 16 * 4 + u < 64"
  using mod_less_divisor [of 4 x] mod_less_divisor [of 16 x] by linarith+

lemmas b64_digit_bounds [simp] = byte_digit [OF byte_of_less] digit_sum

lemma byte_regroup:
  fixes x y z :: nat
  assumes "x < 256" "y < 256" "z < 256"
  shows "x div 4 * 4 + (x mod 4 * 16 + y div 16) div 16 = x"
    and "(x mod 4 * 16 + y div 16) mod 16 * 16 + (y mod 16 * 4 + z div 64) div 4 = y"
    and "(y mod 16 * 4 + z div 64) mod 4 * 64 + z mod 64 = z"
    and "x div 4 * 4 + x mod 4 * 16 div 16 = x"
    and "(x mod 4 * 16 + y div 16) mod 16 * 16 + y mod 16 * 4 div 4 = y"
  using assms by (simp_all add: less_mult_imp_div_less)

lemmas b64_regroup = byte_regroup [OF byte_of_less byte_of_less byte_of_less]

lemma b64_three_encode:
  "b64_three (b64_char (byte_of a div 4)) (b64_char (byte_of a mod 4 * 16 + byte_of b div 16))
     (b64_char (byte_of b mod 16 * 4 + byte_of c div 64)) (b64_char (byte_of c mod 64)) = Some [a, b, c]"
  unfolding b64_three_def by (simp add: b64_regroup del: mult.commute)

lemma b64_two_encode:
  "b64_two (b64_char (byte_of a div 4)) (b64_char (byte_of a mod 4 * 16 + byte_of b div 16))
     (b64_char (byte_of b mod 16 * 4)) = Some [a, b]"
  unfolding b64_two_def by (simp add: b64_regroup)

lemma b64_one_encode:
  "b64_one (b64_char (byte_of a div 4)) (b64_char (byte_of a mod 4 * 16)) = Some [a]"
  unfolding b64_one_def by (simp add: b64_regroup)

lemma b64_std_encode: "b64_std (b64_encode data) = Some data"
  by (induction data rule: b64_encode.induct)
    (simp_all add: b64_three_encode b64_two_encode b64_one_encode)

lemma b64_encode_length: "length (b64_encode data) mod 4 = 0"
  by (induction data rule: b64_encode.induct) auto

lemma b64_encode_Nil: "b64_encode data = [] \<longleftrightarrow> data = []"
  by (cases data rule: b64_encode.cases) auto

lemma decode_base64_encode:
  assumes "filter (\<lambda>c. c \<notin> {CHR 0x0A, CHR 0x0D, CHR '' '', CHR 0x09}) s = b64_encode data"
  shows "decode_base64_payload s =
    (if length data < min_decoded_file_bytes \<or> max_medium_blob < int (length data) then None else Some data)"
  unfolding decode_base64_payload_def assms Let_def
  by (simp add: b64_std_encode b64_encode_Nil b64_encode_length min_decoded_file_bytes_def)

lemma b64_blocks:
  "b64_one a b = Some d \<Longrightarrow> b64_val a \<noteq> None \<and> b64_val b \<noteq> None"
  "b64_two a b c = Some d \<Longrightarrow> b64_val a \<noteq> None \<and> b64_val b \<noteq> None \<and> b64_val c \<noteq> None"
  "b64_three a b c e = Some d \<Longrightarrow>
    b64_val a \<noteq> None \<and> b64_val b \<noteq> None \<and> b64_val c \<noteq> None \<and> b64_val e \<noteq> None"
  by (auto simp: b64_one_def b64_two_def b64_three_def bind_eq_Some_conv)

lemma b64_std_chars: "b64_std s = Some d \<Longrightarrow> c \<in> set s \<Longrightarrow> b64_val c \<noteq> None \<or> c = CHR ''=''"
  by (induction s arbitrary: d rule: b64_std.induct)
    (auto simp: bind_eq_Some_conv split: if_splits dest: b64_blocks)

lemma b64_raw_chars: "b64_raw s = Some d \<Longrightarrow> c \<in> set s \<Longrightarrow> b64_val c \<noteq> None"
  by (induction s arbitrary: d rule: b64_raw.induct)
    (auto simp: bind_eq_Some_conv dest: b64_blocks)

lemma decode_base64_chars:
  assumes "decode_base64_payload s = Some d" "c \<in> set s"
  shows "b64_val c \<noteq> None \<or> c \<in> {CHR ''='', CHR 0x0A, CHR 0x0D, CHR '' '', CHR 0x09}"
  using assms b64_std_chars [of _ d c] b64_raw_chars [of _ d c]
  by (fastforce simp: decode_base64_payload_def Let_def split: if_splits option.splits)

lemma decode_placeholder: "decode_base64_payload (file_placeholder x) = None"
proof (rule ccontr)
  assume "decode_base64_payload (file_placeholder x) \<noteq> None"
  moreover have "CHR ''<'' \<in> set (file_placeholder x)" "b64_val CHR ''<'' = None"
    by (simp_all add: file_placeholder_def b64_val_def)
  ultimately show False using decode_base64_chars by fastforce
qed

end
