(* ===== verification/FileExtract.thy ===== *)
theory FileExtract
  imports Files
begin

text \<open>
  What \<^verbatim>\<open>extractFiles\<close> promises, as a specification that knows nothing of the order, the recursion
  or the state of the code: the new body is the old one \<open>redacted\<close>, the placeholders in it name
  files of the result, and every file is what its digest says. The proofs go bottom up: texts
  (locale \<open>replacer\<close>), the loops over arrays and objects (locale \<open>value_rewriter\<close>), the payload
  fields, and the recursion.
\<close>

subsection \<open>What an extraction may do to a body\<close>

text \<open>
  The specification. \<open>payload_sha\<close> is the digest of the file a base64 payload holds. A text is
  redacted when data URLs and \<^verbatim>\<open>b64_json\<close> payloads in it have been replaced by placeholders; a
  JSON value when its strings are, or the payload fields of its objects have been replaced whole.
  \<open>S\<close> is the set of digests a placeholder may name.
\<close>

definition payload_sha :: "(bytes \<Rightarrow> bytes) \<Rightarrow> string \<Rightarrow> string option" where
  "payload_sha sha p = map_option (\<lambda>data. hex_bytes (sha data)) (decode_base64_payload p)"

inductive text_redacted :: "(bytes \<Rightarrow> bytes) \<Rightarrow> string set \<Rightarrow> string \<Rightarrow> string \<Rightarrow> bool" for sha S where
  tr_same: "text_redacted sha S s s"
| tr_url: "parse_data_url m = Some (mime, p) \<Longrightarrow> payload_sha sha p = Some x \<Longrightarrow> x \<in> S \<Longrightarrow>
    text_redacted sha S (a @ file_placeholder x @ b) t \<Longrightarrow> text_redacted sha S (a @ m @ b) t"
| tr_field: "match_b64_field m = Some (u, p, w) \<Longrightarrow> payload_sha sha p = Some x \<Longrightarrow> x \<in> S \<Longrightarrow>
    text_redacted sha S (a @ u @ file_placeholder x @ w @ b) t \<Longrightarrow> text_redacted sha S (a @ m @ b) t"

definition payload_fields :: "string list" where
  "payload_fields = [''data'', ''b64_json'', ''data_base64'']"

definition payload_redacted :: "(bytes \<Rightarrow> bytes) \<Rightarrow> string set \<Rightarrow> bytes \<Rightarrow> bytes \<Rightarrow> bool" where
  "payload_redacted sha S v w \<longleftrightarrow>
    (\<exists>p x. raw_json_string v = Some p \<and> payload_sha sha p = Some x \<and> x \<in> S \<and>
      w = encode_string (file_placeholder x))"

inductive redacted :: "(bytes \<Rightarrow> bytes) \<Rightarrow> string set \<Rightarrow> bytes \<Rightarrow> bytes \<Rightarrow> bool" for sha S where
  rd_same: "redacted sha S v v"
| rd_text: "raw_json_string (trim_space v) = Some s \<Longrightarrow> text_redacted sha S s t \<Longrightarrow>
    redacted sha S v (encode_string t)"
| rd_array: "unmarshal_raw_array (trim_space v) = Some vs \<Longrightarrow> list_all2 (redacted sha S) vs ws \<Longrightarrow>
    encode_json_raw_array ws = Some out \<Longrightarrow> redacted sha S v out"
| rd_object: "decode_json_raw_object (trim_space v) = Some m \<Longrightarrow>
    list_all2 (\<lambda>a b. fst a = fst b \<and> (redacted sha S (snd a) (snd b) \<or>
      fst a \<in> set payload_fields \<and> payload_redacted sha S (snd a) (snd b))) m m' \<Longrightarrow>
    encode_json_raw_object m' = Some out \<Longrightarrow> redacted sha S v out"

lemma text_redacted_mono: "text_redacted sha S s t \<Longrightarrow> S \<subseteq> S' \<Longrightarrow> text_redacted sha S' s t"
  by (induction rule: text_redacted.induct) (blast intro: text_redacted.intros)+

lemma payload_redacted_mono: "payload_redacted sha S v w \<Longrightarrow> S \<subseteq> S' \<Longrightarrow> payload_redacted sha S' v w"
  by (auto simp: payload_redacted_def)

lemma redacted_mono: "redacted sha S v w \<Longrightarrow> S \<subseteq> S' \<Longrightarrow> redacted sha S' v w"
proof (induction rule: redacted.induct)
  case (rd_array v vs ws out)
  then show ?case
    by (blast intro: redacted.rd_array list_all2_mono)
next
  case (rd_object v m m' out)
  have "list_all2 (\<lambda>a b. fst a = fst b \<and> (redacted sha S' (snd a) (snd b) \<or>
      fst a \<in> set payload_fields \<and> payload_redacted sha S' (snd a) (snd b))) m m'"
    using rd_object.IH(1) by (rule list_all2_mono) (use rd_object.prems payload_redacted_mono in blast)
  with rd_object show ?case by (blast intro: redacted.rd_object)
qed (blast intro: redacted.intros text_redacted_mono)+

lemma text_redacted_trans:
  "text_redacted sha S s t \<Longrightarrow> text_redacted sha S t u \<Longrightarrow> text_redacted sha S s u"
  by (induction rule: text_redacted.induct) (blast intro: text_redacted.intros)+

lemma text_redacted_app:
  "text_redacted sha S s t \<Longrightarrow> text_redacted sha S (a @ s) (a @ t)"
proof (induction rule: text_redacted.induct)
  case (tr_url m mime p x a' b t)
  then show ?case using text_redacted.tr_url [of m mime p sha x S "a @ a'" b] by simp
next
  case (tr_field m u p w x a' b t)
  then show ?case using text_redacted.tr_field [of m u p w sha x S "a @ a'" b] by simp
qed (rule tr_same)

subsection \<open>The files found\<close>

definition adds :: "(bytes \<Rightarrow> bytes) \<Rightarrow> (bytes \<Rightarrow> string) \<Rightarrow> found_files \<Rightarrow> found_files \<Rightarrow> bool" where
  "adds sha detect st st' \<longleftrightarrow>
    (\<exists>p mime f. file_from_base64 sha detect p mime = Some f \<and> st' = add_extracted f st)"

abbreviation grows :: "(bytes \<Rightarrow> bytes) \<Rightarrow> (bytes \<Rightarrow> string) \<Rightarrow> found_files \<Rightarrow> found_files \<Rightarrow> bool" where
  "grows sha detect \<equiv> (adds sha detect)\<^sup>*\<^sup>*"

abbreviation named :: "found_files \<Rightarrow> string set" where
  "named st \<equiv> set (snd st)"

lemma named_add [simp]: "named (add_extracted f st) = insert (ef_sha f) (named st)"
  by (cases st) (auto simp: add_extracted_def)

lemma adds_named: "adds sha detect st st' \<Longrightarrow> named st \<subseteq> named st'"
  by (auto simp: adds_def)

lemma grows_named: "grows sha detect st st' \<Longrightarrow> named st \<subseteq> named st'"
  by (induction rule: rtranclp_induct) (auto dest: adds_named)

lemma decode_base64_bounds:
  "decode_base64_payload p = Some d \<Longrightarrow>
    min_decoded_file_bytes \<le> length d \<and> int (length d) \<le> max_medium_blob"
  by (auto simp: decode_base64_payload_def Let_def split: if_splits option.splits)

lemma file_from_base64_SomeD:
  assumes "file_from_base64 sha detect p mime = Some f"
  shows "payload_sha sha p = Some (ef_sha f)" "ef_sha f = hex_bytes (sha (ef_data f))"
    "min_decoded_file_bytes \<le> length (ef_data f)" "int (length (ef_data f)) \<le> max_medium_blob"
  using assms decode_base64_bounds [of p]
  by (auto simp: file_from_base64_def payload_sha_def Let_def split: option.splits)

text \<open>
  What holds of the files in every state an extraction reaches: one entry per digest, the digest
  is the data's, the size is in bounds, and the digests seen are those of the files.
\<close>

definition files_ok :: "(bytes \<Rightarrow> bytes) \<Rightarrow> found_files \<Rightarrow> bool" where
  "files_ok sha st \<longleftrightarrow> distinct (map ef_sha (fst st)) \<and> named st = ef_sha ` set (fst st) \<and>
    (\<forall>f \<in> set (fst st). ef_sha f = hex_bytes (sha (ef_data f)) \<and>
      min_decoded_file_bytes \<le> length (ef_data f) \<and> int (length (ef_data f)) \<le> max_medium_blob)"

lemma adds_files_ok: "adds sha detect st st' \<Longrightarrow> files_ok sha st \<Longrightarrow> files_ok sha st'"
  unfolding adds_def
  by (cases st) (auto simp: add_extracted_def files_ok_def split: if_splits dest: file_from_base64_SomeD)

lemma grows_files_ok: "grows sha detect st st' \<Longrightarrow> files_ok sha st \<Longrightarrow> files_ok sha st'"
  by (induction rule: rtranclp_induct) (auto intro: adds_files_ok)

subsection \<open>Texts\<close>

text \<open>
  A replacement inside a text, as \<open>replace_all\<close> calls it: it adds one file and names it in what
  it puts for the match.
\<close>

locale replacer =
  fixes sha :: "bytes \<Rightarrow> bytes" and detect :: "bytes \<Rightarrow> string"
    and rep :: "string \<Rightarrow> found_files \<Rightarrow> (string \<times> found_files) option"
  assumes adds_file: "rep m st = Some (r, st') \<Longrightarrow> adds sha detect st st'"
    and redacts: "rep m st = Some (r, st') \<Longrightarrow> named st' \<subseteq> S \<Longrightarrow>
      text_redacted sha S (a @ r @ b) t \<Longrightarrow> text_redacted sha S (a @ m @ b) t"
    and leaves_name: "rep m st = Some (r, st') \<Longrightarrow> snd st' \<noteq> []"
begin

lemma replace_all_redacts:
  assumes "replace_all mt rep s (c, st) = (out, c', st')"
  shows "grows sha detect st st' \<and> (named st' \<subseteq> S \<longrightarrow> text_redacted sha S s out) \<and>
    (c' \<longrightarrow> c \<or> snd st' \<noteq> []) \<and> (c \<longrightarrow> c') \<and> (\<not> c' \<longrightarrow> out = s)"
  using assms
proof (induction "length s" arbitrary: s c st out rule: less_induct)
  case (less s)
  note ih = less.hyps and prems = less.prems
  show ?case
  proof (cases s)
    case Nil
    with prems show ?thesis by (simp add: replace_all.simps [of mt rep "[]"] tr_same)
  next
    case (Cons x t)
    have one: ?thesis
      if e: "(case replace_all mt rep t (c, st) of (out, st) \<Rightarrow> (x # out, st)) = (out, c', st')"
    proof -
      obtain o' where o: "replace_all mt rep t (c, st) = (o', c', st')" "out = x # o'"
        using e by (auto split: prod.splits)
      with ih [of t c st o'] text_redacted_app [of sha S t o' "[x]"] Cons show ?thesis by auto
    qed
    show ?thesis
    proof (cases "mt s")
      case None
      with Cons prems one show ?thesis by (simp add: replace_all.simps [of mt rep "x # t"])
    next
      case (Some n)
      show ?thesis
      proof (cases "n = 0 \<or> rep (take n s) st = None")
        case True
        consider "n = 0" | "n \<noteq> 0" "rep (take n s) st = None" using True by auto
        then show ?thesis
        proof cases
          case 1
          with Cons Some prems one show ?thesis by (simp add: replace_all.simps [of mt rep "x # t"])
        next
          case 2
          then obtain o' where o: "replace_all mt rep (drop n s) (c, st) = (o', c', st')" "out = take n s @ o'"
            using prems Cons Some by (auto simp: replace_all.simps [of mt rep "x # t"] split: prod.splits)
          with ih [of "drop n s" c st o'] 2 Cons
            text_redacted_app [of sha S "drop n s" o' "take n s"] show ?thesis by auto
        qed
      next
        case False
        then obtain r a where rep: "rep (take n s) st = Some (r, a)" "n \<noteq> 0" by auto
        then obtain o' where o: "replace_all mt rep (drop n s) (True, a) = (o', c', st')" "out = r @ o'"
          using prems Cons Some by (auto simp: replace_all.simps [of mt rep "x # t"] split: prod.splits)
        then have rest: "grows sha detect a st'" "named st' \<subseteq> S \<longrightarrow> text_redacted sha S (drop n s) o'" "c'"
          using ih [of "drop n s" True a o'] rep Cons by auto
        then have st: "adds sha detect st a" "snd a \<noteq> []" "named a \<subseteq> named st'"
          using rep adds_file leaves_name grows_named by blast+
        then have "grows sha detect st st'" using rest by (blast intro: converse_rtranclp_into_rtranclp)
        moreover have "named st' \<subseteq> S \<longrightarrow> text_redacted sha S s out"
          using redacts [of "take n s" st r a S "[]" "drop n s" out] rep st(3) rest(2) o(2)
            text_redacted_app [of sha S "drop n s" o' r] by auto
        moreover have "snd st' \<noteq> []" using st by auto
        ultimately show ?thesis using rest by blast
      qed
    qed
  qed
qed

end

lemma replace_data_url_SomeD:
  "replace_data_url sha detect m st = Some (r, st') \<Longrightarrow> \<exists>mime p f. parse_data_url m = Some (mime, p) \<and>
    file_from_base64 sha detect p mime = Some f \<and> r = file_placeholder (ef_sha f) \<and> st' = add_extracted f st"
  by (auto simp: replace_data_url_def bind_eq_Some_conv split: prod.splits)

lemma replace_b64_field_SomeD:
  "replace_b64_field sha detect m st = Some (r, st') \<Longrightarrow> \<exists>u p w f. match_b64_field m = Some (u, p, w) \<and>
    file_from_base64 sha detect p [] = Some f \<and> r = u @ file_placeholder (ef_sha f) @ w \<and>
    st' = add_extracted f st"
  by (auto simp: replace_b64_field_def bind_eq_Some_conv split: prod.splits)

lemma named_nonempty: "named st \<noteq> {} \<longleftrightarrow> snd st \<noteq> []"
  by simp

lemma snd_add_extracted [simp]: "snd (add_extracted f st) \<noteq> []"
  using named_add [of f st] by force

interpretation data_url: replacer sha detect "replace_data_url sha detect"
proof
  fix m st r st' S a b t
  assume e: "replace_data_url sha detect m st = Some (r, st')"
  then obtain mime p f where f: "parse_data_url m = Some (mime, p)" "file_from_base64 sha detect p mime = Some f"
      "r = file_placeholder (ef_sha f)" "st' = add_extracted f st"
    using replace_data_url_SomeD by blast
  then show "adds sha detect st st'" "snd st' \<noteq> []" by (auto simp: adds_def)
  assume "named st' \<subseteq> S" "text_redacted sha S (a @ r @ b) t"
  then show "text_redacted sha S (a @ m @ b) t"
    using text_redacted.tr_url [OF f(1), of sha "ef_sha f" S a b t] file_from_base64_SomeD [OF f(2)] f(3,4)
    by simp
qed

interpretation b64_field: replacer sha detect "replace_b64_field sha detect"
proof
  fix m st r st' S a b t
  assume e: "replace_b64_field sha detect m st = Some (r, st')"
  then obtain u p w f where f: "match_b64_field m = Some (u, p, w)" "file_from_base64 sha detect p [] = Some f"
      "r = u @ file_placeholder (ef_sha f) @ w" "st' = add_extracted f st"
    using replace_b64_field_SomeD by blast
  then show "adds sha detect st st'" "snd st' \<noteq> []" by (auto simp: adds_def)
  assume "named st' \<subseteq> S" "text_redacted sha S (a @ r @ b) t"
  then show "text_redacted sha S (a @ m @ b) t"
    using text_redacted.tr_field [OF f(1), of sha "ef_sha f" S a b t] file_from_base64_SomeD [OF f(2)] f(3,4)
    by simp
qed

lemma grows_trans: "grows sha detect st st' \<Longrightarrow> grows sha detect st' st'' \<Longrightarrow> grows sha detect st st''"
  by simp

lemma grows_nonempty: "grows sha detect st st' \<Longrightarrow> snd st \<noteq> [] \<Longrightarrow> snd st' \<noteq> []"
  using grows_named by fastforce

text \<open>
  The contract every rewriting of a value keeps: the files grow, the new value is the old one
  redacted, with placeholders for the files found by then only, a change means that a file has been
  found, and without a change the value is the old one.
\<close>

definition blanks ::
  "(bytes \<Rightarrow> bytes) \<Rightarrow> (bytes \<Rightarrow> string) \<Rightarrow> (string set \<Rightarrow> 'a \<Rightarrow> 'a \<Rightarrow> bool) \<Rightarrow> 'a \<Rightarrow> found_files \<Rightarrow>
    'a \<times> bool \<times> found_files \<Rightarrow> bool" where
  "blanks sha detect R v st res \<longleftrightarrow> (case res of (out, c, st') \<Rightarrow>
    grows sha detect st st' \<and> (\<forall>S. named st' \<subseteq> S \<longrightarrow> R S v out) \<and> (c \<longrightarrow> snd st' \<noteq> []) \<and> (\<not> c \<longrightarrow> out = v))"

lemma blanks_same: "(\<And>S. R S v v) \<Longrightarrow> blanks sha detect R v st (v, False, st)"
  by (simp add: blanks_def)

lemma rewrite_text_blanks: "blanks sha detect (text_redacted sha) s st (rewrite_text sha detect s st)"
proof (cases "\<not> contains s ''data:'' \<and> \<not> contains s ''b64_json''")
  case True
  then show ?thesis by (simp add: rewrite_text_def blanks_same tr_same)
next
  case False
  obtain s1 c1 st1 where one:
    "replace_all match_data_url (replace_data_url sha detect) s (False, st) = (s1, c1, st1)"
    by (metis prod_cases3)
  let ?m = "\<lambda>s. map_option (\<lambda>(a, b, c). length a + length b + length c) (match_b64_field s)"
  obtain s2 c2 st2 where two: "replace_all ?m (replace_b64_field sha detect) s1 (c1, st1) = (s2, c2, st2)"
    by (metis prod_cases3)
  have "rewrite_text sha detect s st = (s2, c2, st2)"
    unfolding rewrite_text_def if_not_P [OF False] one by (simp add: two)
  moreover have "text_redacted sha S s s2" if "named st2 \<subseteq> S" for S
    using data_url.replace_all_redacts [OF one, of S] b64_field.replace_all_redacts [OF two, of S] that
      grows_named [of sha detect st1 st2] text_redacted_trans [of sha S s s1 s2] by auto
  moreover have "grows sha detect st st2" "c2 \<longrightarrow> snd st2 \<noteq> []" "\<not> c2 \<longrightarrow> s2 = s"
    using data_url.replace_all_redacts [OF one, of UNIV] b64_field.replace_all_redacts [OF two, of UNIV]
      grows_nonempty [of sha detect st1 st2] grows_trans [of sha detect st st1 st2] by blast+
  ultimately show ?thesis by (simp add: blanks_def)
qed

lemma rewrite_json_string_blanks:
  "blanks sha detect (redacted sha) raw st (rewrite_json_string sha detect raw (trim_space raw) st)"
proof (cases "raw_json_string (trim_space raw)")
  case None
  then show ?thesis by (simp add: rewrite_json_string_def blanks_same rd_same)
next
  case (Some s)
  obtain t c st' where "rewrite_text sha detect s st = (t, c, st')" by (metis prod_cases3)
  with Some rewrite_text_blanks [of sha detect s st] show ?thesis
    by (auto simp: rewrite_json_string_def blanks_def intro: redacted.intros)
qed

text \<open>The loops over arrays and objects, for any rewriting of the values in them.\<close>

locale value_rewriter =
  fixes sha :: "bytes \<Rightarrow> bytes" and detect :: "bytes \<Rightarrow> string"
    and f :: "bytes \<Rightarrow> found_files \<Rightarrow> bytes \<times> bool \<times> found_files"
  assumes blanks_value: "blanks sha detect (redacted sha) v st (f v st)"
begin

lemma rewrite_items_blanks:
  assumes "rewrite_items f vs changed st = (ws, changed', st')"
  shows "grows sha detect st st' \<and> (named st' \<subseteq> S \<longrightarrow> list_all2 (redacted sha S) vs ws) \<and>
    (changed' \<longrightarrow> changed \<or> snd st' \<noteq> [])"
  using assms
proof (induction vs arbitrary: changed st ws)
  case (Cons v vs)
  obtain nv c st1 where f: "f v st = (nv, c, st1)" by (metis prod_cases3)
  then obtain nvs where r: "rewrite_items f vs (changed \<or> c) st1 = (nvs, changed', st')"
      "ws = (if c then nv else v) # nvs"
    using Cons.prems by (auto split: prod.splits)
  have "redacted sha S v (if c then nv else v)" if "named st1 \<subseteq> S"
    using blanks_value [of v st] f that by (auto simp: blanks_def)
  with Cons.IH [OF r(1)] r(2) blanks_value [of v st] f show ?case
    by (auto simp: blanks_def dest: grows_named grows_nonempty)
qed simp

lemma rewrite_array_blanks:
  "blanks sha detect (redacted sha) raw st (rewrite_json_array f raw (trim_space raw) st)"
proof (cases "unmarshal_raw_array (trim_space raw)")
  case None
  then show ?thesis by (simp add: rewrite_json_array_def blanks_same rd_same)
next
  case (Some vs)
  obtain ws c st' where r: "rewrite_items f vs False st = (ws, c, st')" by (metis prod_cases3)
  show ?thesis
  proof (cases "encode_json_raw_array ws")
    case None
    with Some r rewrite_items_blanks [OF r] show ?thesis
      by (auto simp: rewrite_json_array_def blanks_def intro: rd_same)
  next
    case e: (Some out)
    with Some r rewrite_items_blanks [OF r] show ?thesis
      by (auto simp: rewrite_json_array_def blanks_def intro: rd_same rd_array)
  qed
qed

lemma rewrite_members_blanks:
  assumes "rewrite_members f skip m changed st = (m', changed', st')"
  shows "grows sha detect st st' \<and> (changed' \<longrightarrow> changed \<or> snd st' \<noteq> []) \<and>
    (named st' \<subseteq> S \<longrightarrow> list_all2 (\<lambda>a b. fst a = fst b \<and> redacted sha S (snd a) (snd b) \<and>
      (fst a \<in> set skip \<longrightarrow> snd a = snd b)) m m')"
  using assms
proof (induction m arbitrary: changed st m')
  case (Cons kv m)
  obtain k v where kv: "kv = (k, v)" by (cases kv)
  show ?case
  proof (cases "k \<in> set skip")
    case True
    then obtain nm where nm: "rewrite_members f skip m changed st = (nm, changed', st')" "m' = (k, v) # nm"
      using Cons.prems kv by (auto split: prod.splits)
    with Cons.IH [OF nm(1)] kv show ?thesis by (auto intro: rd_same)
  next
    case False
    obtain nv c st1 where f: "f v st = (nv, c, st1)" by (metis prod_cases3)
    then obtain nm where r: "rewrite_members f skip m (changed \<or> c) st1 = (nm, changed', st')"
        "m' = (k, if c then nv else v) # nm"
      using Cons.prems False kv by (auto split: prod.splits)
    have "redacted sha S v (if c then nv else v)" if "named st1 \<subseteq> S"
      using blanks_value [of v st] f that by (auto simp: blanks_def)
    with Cons.IH [OF r(1)] r(2) blanks_value [of v st] f False kv show ?thesis
      by (auto simp: blanks_def dest: grows_named grows_nonempty)
  qed
qed simp

end

text \<open>
  The payload fields. \<open>taken sha obj0 s\<close>: on the way from the decoded object \<open>obj0\<close> to the state
  \<open>s\<close>, exactly the fields in the skip list have been replaced, each by the placeholder of the file
  its payload holds.
\<close>

definition taken :: "(bytes \<Rightarrow> bytes) \<Rightarrow> string gomap \<Rightarrow> object_state \<Rightarrow> bool" where
  "taken sha obj0 s = (case s of (obj, skip, st) \<Rightarrow>
     set skip \<subseteq> set payload_fields \<and> (skip \<noteq> [] \<longrightarrow> snd st \<noteq> []) \<and>
     list_all2 (\<lambda>a b. fst a = fst b \<and> (if fst a \<in> set skip then \<forall>S. named st \<subseteq> S \<longrightarrow> payload_redacted sha S (snd a) (snd b)
       else snd a = snd b)) obj0 obj)"

lemma update_existing:
  "distinct_keys m \<Longrightarrow> k \<in> fst ` set m \<Longrightarrow>
    AList.update k v m = map (\<lambda>kv. (fst kv, if fst kv = k then v else snd kv)) m"
proof (induction m)
  case (Cons kv m)
  have "map (\<lambda>kv. (fst kv, if fst kv = k then v else snd kv)) m = m" if "k \<notin> fst ` set m"
    using that by (intro map_idI) force
  with Cons show ?case by (cases kv) auto
qed simp

lemma field_text_present:
  assumes "field_text obj k \<noteq> []"
  shows "k \<in> fst ` set obj" "raw_json_string (mget obj k) = Some (field_text obj k)"
proof -
  have "raw_json_string [] = Some []" by (simp add: raw_json_string_def json_blank_def)
  with assms show "k \<in> fst ` set obj"
    using map_of_eq_None_iff [of obj k] by (auto simp: field_text_def mget_def)
  show "raw_json_string (mget obj k) = Some (field_text obj k)"
    using assms by (auto simp: field_text_def split: option.splits)
qed

lemma hex_digit_ascii: "n < 16 \<Longrightarrow> byte_of (hex_digit n) < 0x80"
  by (simp add: hex_digit_def of_char_of)

lemma hex_bytes_ascii: "ascii (hex_bytes b)"
  by (auto simp: ascii_def hex_bytes_def list_all_iff less_mult_imp_div_less
      intro!: hex_digit_ascii [simplified] byte_of_less)

lemma valid_placeholder: "valid_utf8 (file_placeholder (hex_bytes b))"
  by (rule valid_utf8_ascii) (simp add: file_placeholder_def ascii_def hex_bytes_ascii [unfolded ascii_def])

lemma payload_shaD: "payload_sha sha p = Some x \<Longrightarrow> (\<exists>b. x = hex_bytes b) \<and> decode_base64_payload p \<noteq> None"
  by (auto simp: payload_sha_def)

lemma redacted_field_empty:
  assumes "payload_redacted sha S v w"
  shows "\<exists>x. raw_json_string w = Some x \<and> decode_base64_payload x = None"
proof -
  obtain p x where x: "payload_sha sha p = Some x" "w = encode_string (file_placeholder x)"
    using assms by (auto simp: payload_redacted_def)
  then have "raw_json_string w = Some (file_placeholder x)"
    using payload_shaD [OF x(1)] by (auto simp: raw_json_string_encode sanitize_valid valid_placeholder)
  then show ?thesis by (simp add: decode_placeholder)
qed

lemma list_all2_keys: "list_all2 (\<lambda>a b. fst a = fst b \<and> P a b) xs ys \<Longrightarrow> map fst xs = map fst ys"
  by (induction rule: list_all2_induct) auto

lemma mget_mem: "distinct_keys m \<Longrightarrow> kv \<in> set m \<Longrightarrow> mget m (fst kv) = snd kv"
  by (cases kv) (simp add: mget_def)

lemma take_field_taken:
  assumes t: "taken sha obj0 (obj, skip, st)" and d: "distinct_keys obj0"
    and k: "k \<in> set payload_fields" and ne: "field_text obj k \<noteq> []"
    and f: "file_from_base64 sha detect (field_text obj k) mime = Some f"
  shows "taken sha obj0 (mset_key k (encode_string (file_placeholder (ef_sha f))) obj, k # skip, add_extracted f st)"
    and "distinct_keys obj"
proof -
  let ?P = "\<lambda>skip st a b. fst a = fst b \<and> (if fst a \<in> set skip
    then \<forall>S. named st \<subseteq> S \<longrightarrow> payload_redacted sha S (snd a) (snd b) else snd a = snd b)"
  let ?w = "encode_string (file_placeholder (ef_sha f))"
  have t': "list_all2 (?P skip st) obj0 obj" "set skip \<subseteq> set payload_fields"
    using t by (simp_all add: taken_def)
  have "map fst obj0 = map fst obj" by (rule list_all2_keys [OF t'(1)])
  with d show dk: "distinct_keys obj" by simp
  have p: "decode_base64_payload (field_text obj k) \<noteq> None" "payload_sha sha (field_text obj k) = Some (ef_sha f)"
    using file_from_base64_SomeD(1) [OF f] payload_shaD by blast+
  have upd: "mset_key k ?w obj = map (\<lambda>kv. (fst kv, if fst kv = k then ?w else snd kv)) obj"
    using update_existing [OF dk] field_text_present(1) [OF ne] by blast
  have "list_all2 (\<lambda>a b. ?P (k # skip) (add_extracted f st) a (fst b, if fst b = k then ?w else snd b)) obj0 obj"
  proof (rule list.rel_mono_strong [OF t'(1)])
    fix a b assume ab: "a \<in> set obj0" "b \<in> set obj" "?P skip st a b"
    show "?P (k # skip) (add_extracted f st) a (fst b, if fst b = k then ?w else snd b)"
    proof (cases "fst a = k")
      case True
      then have raw: "raw_json_string (snd b) = Some (field_text obj k)"
        using ab field_text_present(2) [OF ne] mget_mem [OF dk, of b] by simp
      have "k \<notin> set skip"
        using ab(3) True redacted_field_empty [of sha UNIV "snd a" "snd b"] raw p(1) by auto
      with ab True raw p(2) show ?thesis by (auto simp: payload_redacted_def)
    next
      case False
      with ab show ?thesis by auto
    qed
  qed
  then show "taken sha obj0 (mset_key k ?w obj, k # skip, add_extracted f st)"
    using k t'(2) by (simp add: taken_def upd list.rel_map)
qed

text \<open>Each of the four either leaves the state or takes one payload field.\<close>

definition takes :: "(bytes \<Rightarrow> bytes) \<Rightarrow> (bytes \<Rightarrow> string) \<Rightarrow> (object_state \<Rightarrow> object_state) \<Rightarrow> bool" where
  "takes sha detect t \<longleftrightarrow> (\<forall>s. t s = s \<or> (\<exists>k mime. k \<in> set payload_fields \<and> field_text (fst s) k \<noteq> [] \<and>
    t s = take_field sha detect k (field_text (fst s) k) mime s))"

lemma takes_each:
  "takes sha detect (take_source sha detect)" "takes sha detect (take_b64_json sha detect)"
  "takes sha detect (take_audio sha detect)" "takes sha detect (take_asset sha detect)"
  unfolding takes_def take_source_def take_b64_json_def take_audio_def take_asset_def payload_fields_def Let_def
  by (auto simp del: split_paired_Ex split_paired_All)

lemma takes_taken:
  assumes k: "takes sha detect t" and t: "taken sha obj0 s" and d: "distinct_keys obj0"
  shows "taken sha obj0 (t s) \<and> grows sha detect (snd (snd s)) (snd (snd (t s)))"
proof (cases "t s = s")
  case True
  with t show ?thesis by simp
next
  case False
  then obtain k mime where k: "k \<in> set payload_fields" "field_text (fst s) k \<noteq> []"
      "t s = take_field sha detect k (field_text (fst s) k) mime s"
    using k unfolding takes_def by blast
  obtain obj skip st where s: "s = (obj, skip, st)" by (cases s)
  show ?thesis
  proof (cases "file_from_base64 sha detect (field_text obj k) mime")
    case None
    with k s t show ?thesis by (simp add: take_field_def)
  next
    case (Some f)
    then have "adds sha detect st (add_extracted f st)" by (auto simp: adds_def)
    with take_field_taken(1) [OF _ d k(1), of sha obj skip st detect mime f] Some k s t
    show ?thesis by (simp add: take_field_def r_into_rtranclp)
  qed
qed

lemma take_payloads_taken:
  assumes "distinct_keys obj0"
  shows "taken sha obj0 (take_payloads sha detect obj0 st) \<and>
    grows sha detect st (snd (snd (take_payloads sha detect obj0 st)))"
proof -
  let ?s0 = "(obj0, [], st)"
  let ?s1 = "take_source sha detect ?s0"
  let ?s2 = "take_b64_json sha detect ?s1"
  let ?s3 = "take_audio sha detect ?s2"
  have "taken sha obj0 ?s0" by (simp add: taken_def list_all2_refl)
  note 1 = takes_taken [OF takes_each(1) [of sha detect] this assms]
  note 2 = takes_taken [OF takes_each(2) [of sha detect] conjunct1 [OF 1] assms]
  note 3 = takes_taken [OF takes_each(3) [of sha detect] conjunct1 [OF 2] assms]
  note 4 = takes_taken [OF takes_each(4) [of sha detect] conjunct1 [OF 3] assms]
  from 1 2 3 4 show ?thesis
    unfolding take_payloads_def by (auto intro: grows_trans)
qed

lemma take_payloads_rest:
  assumes "take_payloads sha detect obj0 st = (obj, skip, st1)" "distinct_keys obj0"
    "kv \<in> set obj" "fst kv \<notin> set skip"
  shows "kv \<in> set obj0"
proof -
  have "list_all2 (\<lambda>a b. fst a = fst b \<and> (if fst a \<in> set skip then \<forall>S. named st1 \<subseteq> S \<longrightarrow>
      payload_redacted sha S (snd a) (snd b) else snd a = snd b)) obj0 obj"
    using take_payloads_taken [OF assms(2), of sha detect st] by (simp add: taken_def assms(1))
  then have "list_all2 (\<lambda>a b. fst a = fst b \<and> (fst a \<notin> set skip \<longrightarrow> snd a = snd b)) obj0 obj"
    by (rule list_all2_mono) simp
  moreover obtain i where "i < length obj" "obj ! i = kv" using assms(3) by (auto simp: in_set_conv_nth)
  ultimately have "i < length obj0" "fst (obj0 ! i) = fst kv" "snd (obj0 ! i) = snd kv"
    using assms(4) by (auto dest: list_all2_lengthD list_all2_nthD2)
  then show ?thesis using nth_mem prod_eqI by metis
qed

context value_rewriter
begin

lemma rewrite_object_blanks:
  "blanks sha detect (redacted sha) raw st (rewrite_json_object sha detect f raw (trim_space raw) st)"
proof (cases "decode_json_raw_object (trim_space raw)")
  case None
  then show ?thesis by (simp add: rewrite_json_object_def blanks_same rd_same)
next
  case (Some obj0)
  then have d: "distinct_keys obj0" using raw_map_distinct [OF decode_raw_map] by blast
  obtain obj skip st1 where t: "take_payloads sha detect obj0 st = (obj, skip, st1)" by (metis prod_cases3)
  obtain m c st' where r: "rewrite_members f skip obj (skip \<noteq> []) st1 = (m, c, st')" by (metis prod_cases3)
  have tk: "taken sha obj0 (obj, skip, st1)" "grows sha detect st st1"
    using take_payloads_taken [OF d, of sha detect st] t by auto
  have g: "grows sha detect st1 st'" "c \<longrightarrow> skip \<noteq> [] \<or> snd st' \<noteq> []"
    using rewrite_members_blanks [OF r, of UNIV] by auto
  then have g': "grows sha detect st st'" "c \<longrightarrow> snd st' \<noteq> []"
    using tk grows_trans [OF tk(2)] grows_nonempty [OF g(1)] by (auto simp: taken_def)
  have m: "list_all2 (\<lambda>a b. fst a = fst b \<and> (redacted sha S (snd a) (snd b) \<or>
      fst a \<in> set payload_fields \<and> payload_redacted sha S (snd a) (snd b))) obj0 m" if "named st' \<subseteq> S" for S
  proof -
    have "named st1 \<subseteq> S" using grows_named [OF g(1)] that by simp
    with tk(1) have "list_all2 (\<lambda>a b. fst a = fst b \<and> (if fst a \<in> set skip
        then fst a \<in> set payload_fields \<and> payload_redacted sha S (snd a) (snd b) else snd a = snd b)) obj0 obj"
      unfolding taken_def by (auto elim!: list_all2_mono)
    moreover have "list_all2 (\<lambda>a b. fst a = fst b \<and> redacted sha S (snd a) (snd b) \<and>
        (fst a \<in> set skip \<longrightarrow> snd a = snd b)) obj m"
      using rewrite_members_blanks [OF r, of S] that by blast
    ultimately show ?thesis
      by (rule list_all2_trans [rotated 1]) (auto split: if_splits)
  qed
  show ?thesis
  proof (cases "c \<and> encode_json_raw_object m \<noteq> None")
    case True
    then obtain out where "encode_json_raw_object m = Some out" by auto
    with True Some t r g' m show ?thesis
      by (auto simp: rewrite_json_object_def blanks_def intro: rd_object)
  next
    case False
    then have "rewrite_json_object sha detect f raw (trim_space raw) st = (raw, False, st')"
      using Some t r by (auto simp: rewrite_json_object_def)
    with g' show ?thesis by (simp add: blanks_def rd_same)
  qed
qed

end

lemma rewrite_json_blanks: "value_rewriter sha detect (rewrite_json sha detect n)"
proof (induction n)
  case 0
  show ?case by unfold_locales (simp add: blanks_same rd_same)
next
  case (Suc n)
  show ?case
    using value_rewriter.rewrite_object_blanks [OF Suc] value_rewriter.rewrite_array_blanks [OF Suc]
    by unfold_locales (simp add: Let_def rewrite_json_string_blanks blanks_same rd_same)
qed

interpretation json_rewriter: value_rewriter sha detect "rewrite_json sha detect n"
  by (rule rewrite_json_blanks)

lemma extract_cases:
  obtains "extract_files sha detect body = (body, [])"
  | out files seen where "extract_files sha detect body = (out, files)" "files \<noteq> []"
    "redacted sha (ef_sha ` set files) body out" "files_ok sha (files, seen)"
    "rewrite_json sha detect (length body) body ([], []) = (out, True, files, seen)"
proof (cases "extract_files sha detect body = (body, [])")
  case False
  obtain out c files seen where r: "rewrite_json sha detect (length body) body ([], []) = (out, c, files, seen)"
    by (metis prod_cases4)
  have c: "c" using False r by (auto simp: extract_files_def split: if_splits)
  then have e: "extract_files sha detect body = (out, files)"
    using False r by (auto simp: extract_files_def)
  have b: "grows sha detect ([], []) (files, seen)" "redacted sha (set seen) body out" "seen \<noteq> []"
    using json_rewriter.blanks_value [where sha = sha and detect = detect and n = "length body" and v = body
        and st = "([], [])"] r c
    by (auto simp: blanks_def)
  moreover have ok: "files_ok sha (files, seen)"
    by (rule grows_files_ok [OF b(1)]) (simp add: files_ok_def)
  moreover have "set seen = ef_sha ` set files" using ok unfolding files_ok_def fst_conv snd_conv by blast
  ultimately show ?thesis using that(2) [OF e, of seen] r c by (metis set_empty image_is_empty)
qed (use that in blast)

subsection \<open>Depth\<close>

lemma jelems_shorter: "jelems d vs t \<Longrightarrow> \<forall>v \<in> set vs. length v < length t"
  by (induction d vs t rule: jvalue_jelems_jmembers.inducts(2)
      [where ?P1.0 = "\<lambda>_ _. True" and ?P3.0 = "\<lambda>_ _ _. True"]) auto

lemma jmembers_shorter: "jmembers d ms t \<Longrightarrow> \<forall>kv \<in> set ms. length (snd kv) < length t"
  by (induction d ms t rule: jvalue_jelems_jmembers.inducts(3)
      [where ?P1.0 = "\<lambda>_ _. True" and ?P2.0 = "\<lambda>_ _ _. True"]) (auto simp: jkey_def)

text \<open>The text of an array and its elements.\<close>

definition jarray :: "int \<Rightarrow> string list \<Rightarrow> string \<Rightarrow> bool" where
  "jarray d vs v \<longleftrightarrow> d < max_nesting \<and>
    (vs = [] \<and> (\<exists>w. all_ws w \<and> v = CHR 0x5B # w @ [CHR 0x5D]) \<or>
     (\<exists>w t. all_ws w \<and> jelems (d + 1) vs t \<and> v = CHR 0x5B # w @ t))"

lemma scan_array_sound:
  assumes "scan_array s = Some (vs, r)"
  shows "\<exists>w v. all_ws w \<and> s = w @ v @ r \<and> jarray 0 vs v"
proof -
  obtain y where y: "skip_ws s = CHR 0x5B # y"
    using assms by (auto simp: scan_array_def split: list.splits if_splits)
  obtain w1 where w1: "all_ws w1" "s = w1 @ CHR 0x5B # y" using skip_ws_split [of s] y by auto
  obtain x t where x: "skip_ws y = x # t"
    using assms y by (auto simp: scan_array_def split: list.splits if_splits)
  obtain w2 where w2: "all_ws w2" "y = w2 @ x # t" using skip_ws_split [of y] x by auto
  have d: "0 < max_nesting" by (simp add: max_nesting_def)
  show ?thesis
  proof (cases "x = CHR 0x5D")
    case True
    with assms x y have "vs = []" "r = t" by (auto simp: scan_array_def)
    with w1 w2 d True show ?thesis
      by (intro exI [of _ w1] exI [of _ "CHR 0x5B # w2 @ [CHR 0x5D]"]) (auto simp: jarray_def)
  next
    case False
    with assms x y have "scan_elems (length s) 1 (x # t) = Some (vs, r)"
      by (simp add: scan_array_def)
    then obtain t' where t': "jelems 1 vs t'" "x # t = t' @ r" using scan_elems_sound by blast
    with w1 w2 d show ?thesis
      by (intro exI [of _ w1] exI [of _ "CHR 0x5B # w2 @ t'"]) (auto simp: jarray_def)
  qed
qed

lemma jarray_shorter: "jarray d vs t \<Longrightarrow> v \<in> set vs \<Longrightarrow> length v < length t"
  using jelems_shorter by (fastforce simp: jarray_def)

lemma unmarshal_shorter:
  assumes "unmarshal_raw_array raw = Some vs" "v \<in> set vs"
  shows "length v < length raw"
proof -
  obtain r where "scan_array raw = Some (vs, r)"
    using assms by (auto simp: unmarshal_raw_array_def split: if_splits option.splits)
  then obtain w t where t: "raw = w @ t @ r" "jarray 0 vs t" using scan_array_sound by blast
  have "length v < length t" by (rule jarray_shorter [OF t(2) assms(2)])
  with t(1) show ?thesis by simp
qed

lemma set_foldl_update:
  "set (foldl (\<lambda>m (k, v). AList.update k v m) m0 kvs) \<subseteq> set m0 \<union> set kvs"
  by (induction kvs arbitrary: m0) (fastforce dest: set_update_subset)+

lemma jobject_shorter: "jobject d ms v \<Longrightarrow> kv \<in> set ms \<Longrightarrow> length (snd kv) < length v"
  using jmembers_shorter by (fastforce simp: jobject_def)

lemma decode_shorter:
  assumes "decode_json_raw_object s = Some m" "kv \<in> set m"
  shows "length (snd kv) < length s"
proof -
  obtain w1 v w2 ms where v: "s = w1 @ v @ w2" "jobject 0 ms v" "m = decode_members ms"
    using assms(1) decode_json_raw_object_sound by metis
  have "kv \<in> set (map (\<lambda>(k, v). (the_or [] (unquote k), v)) ms)"
    using assms(2) set_foldl_update [of "[]" "map (\<lambda>(k, v). (the_or [] (unquote k), v)) ms"]
    unfolding v(3) decode_members_def map_from_def by (rule_tac subsetD) auto
  then have "snd kv \<in> snd ` set ms" by force
  moreover have "\<forall>kv \<in> set ms. length (snd kv) < length v"
    using v(2) jobject_shorter by blast
  ultimately show ?thesis using v(1) by auto
qed

lemma rewrite_items_cong:
  "(\<And>v st. v \<in> set vs \<Longrightarrow> f v st = g v st) \<Longrightarrow> rewrite_items f vs c st = rewrite_items g vs c st"
  by (induction vs arbitrary: c st) (auto split: prod.splits)

lemma rewrite_members_cong:
  "(\<And>kv st. kv \<in> set m \<Longrightarrow> fst kv \<notin> set skip \<Longrightarrow> f (snd kv) st = g (snd kv) st) \<Longrightarrow>
    rewrite_members f skip m c st = rewrite_members g skip m c st"
proof (induction m arbitrary: c st)
  case (Cons kv m)
  then have "rewrite_members f skip m c st = rewrite_members g skip m c st" for c st by simp
  moreover have "fst kv \<notin> set skip \<Longrightarrow> f (snd kv) st = g (snd kv) st" using Cons.prems by simp
  ultimately show ?case by (cases kv) (auto split: prod.splits)
qed simp

lemma rewrite_json_fuel:
  assumes "length raw \<le> n"
  shows "rewrite_json sha detect n raw st = rewrite_json sha detect (length raw) raw st"
  using assms
proof (induction raw arbitrary: n st rule: measure_induct_rule [where f = length])
  case (less raw)
  show ?case
  proof (cases raw)
    case Nil
    then show ?thesis by (cases n) auto
  next
    case (Cons x xs)
    then obtain n' where n: "n = Suc n'" "length raw = Suc (length xs)" using less.prems by (cases n) auto
    let ?f = "rewrite_json sha detect n'" and ?g = "rewrite_json sha detect (length xs)"
    have eq: "?f v st = ?g v st" if "length v < length raw" for v st
      using less.IH [OF that, of n' st] less.IH [OF that, of "length xs" st] that n less.prems by simp
    have short: "length v < length raw" if "length v < length (trim_space raw)" for v :: string
      using that length_trim_space [of raw] by simp
    have "rewrite_items ?f vs False st = rewrite_items ?g vs False st"
      if "unmarshal_raw_array (trim_space raw) = Some vs" for vs
      using unmarshal_shorter [OF that] short eq by (intro rewrite_items_cong) blast
    moreover have "rewrite_members ?f skip obj c st1 = rewrite_members ?g skip obj c st1"
      if "decode_json_raw_object (trim_space raw) = Some obj0"
        "take_payloads sha detect obj0 st = (obj, skip, st1)" for obj0 obj skip st1 c
    proof (rule rewrite_members_cong)
      fix kv st' assume kv: "kv \<in> set obj" "fst kv \<notin> set skip"
      have "distinct_keys obj0" by (rule raw_map_distinct [OF decode_raw_map [OF that(1)]])
      then have "kv \<in> set obj0" using take_payloads_rest [OF that(2)] kv by blast
      then show "?f (snd kv) st' = ?g (snd kv) st'"
        using decode_shorter [OF that(1)] short eq by blast
    qed
    ultimately have "rewrite_json_array ?f raw (trim_space raw) st = rewrite_json_array ?g raw (trim_space raw) st"
      "rewrite_json_object sha detect ?f raw (trim_space raw) st =
        rewrite_json_object sha detect ?g raw (trim_space raw) st"
      unfolding rewrite_json_array_def rewrite_json_object_def
      by (auto split: option.splits prod.splits)
    then show ?thesis unfolding n by (simp add: Let_def)
  qed
qed

end
