(* ===== verification/FileJson.thy ===== *)
theory FileJson
  imports FileExtract
begin

text \<open>
  An extracted body is still JSON: rewriting keeps well-formed values well-formed at every depth.
  With that, an object that holds a payload is shown to come out with the placeholder in the
  payload's place, and the properties of \<^verbatim>\<open>extractFiles\<close> are stated.
\<close>

subsection \<open>Arrays, as texts\<close>

lemma jvalue_bracketE:
  assumes "jvalue d v" "hd v = CHR 0x5B"
  obtains vs where "jarray d vs v"
  using assms
proof (cases rule: jvalue.cases)
  case jv_num
  then have "num_char CHR 0x5B" using num_text_chars assms(2) by (metis hd_in_set)
  then show ?thesis by (simp add: num_char_def is_digit_def)
next
  case (jv_arr0 w)
  then show ?thesis using that [of "[]"] by (auto simp: jarray_def)
next
  case (jv_arr w vs t)
  then show ?thesis using that [of vs] by (auto simp: jarray_def)
qed (use assms(2) in auto)

lemma jarray_values: "jarray d vs v \<Longrightarrow> \<forall>u \<in> set vs. jvalue (d + 1) u"
  by (auto simp: jarray_def dest: jelems_values)

lemma scan_array_complete:
  assumes "jarray d vs v" "0 \<le> d"
  shows "scan_array v = Some (vs, [])"
  using assms(1) unfolding jarray_def
proof (elim conjE disjE exE)
  fix w assume "vs = []" "all_ws w" "v = CHR 0x5B # w @ [CHR 0x5D]"
  then show ?thesis by (simp add: scan_array_def skip_ws_all_ws)
next
  fix w t assume t: "all_ws w" "jelems (d + 1) vs t" "v = CHR 0x5B # w @ t"
  then have "jelems 1 vs t" using assms(2) by (auto intro: jvalue_depth_mono)
  then have "scan_elems (length v) 1 (t @ []) = Some (vs, [])" using t by (intro scan_elems_complete) auto
  moreover obtain x t' where "t = x # t'" "value_head x"
    using grammar_heads(2) [OF t(2)] by (cases t) auto
  ultimately show ?thesis using t by (auto simp: scan_array_def skip_ws_all_ws dest: value_head_not_close)
qed

lemma jarray_jvalue: "jarray d vs v \<Longrightarrow> jvalue d v"
  by (auto simp: jarray_def intro: grammar_intros)

lemma unmarshal_jarray:
  assumes "jarray d vs v" "0 \<le> d"
  shows "unmarshal_raw_array v = Some vs"
proof -
  have "\<not> json_blank v"
    using jvalue_blank [OF jarray_jvalue [OF assms(1)]] assms(1) by (auto simp: jarray_def)
  then show ?thesis using scan_array_complete [OF assms] by (simp add: unmarshal_raw_array_def)
qed

lemma encode_array_jvalue:
  assumes "\<forall>v \<in> set vs. jvalue (d + 1) v" "0 \<le> d" "d < max_nesting"
  shows "\<exists>out. encode_json_raw_array vs = Some out \<and> jvalue d out"
proof -
  have "those (map encode_raw vs) = Some (map compact vs)"
    using assms by (intro those_Some jvalue_encode_raw [of "d + 1"]) auto
  moreover have "jvalue d (CHR 0x5B # join '','' (map compact vs) @ [CHR 0x5D])"
    using assms grammar_compact(1) by (intro jvalue_array) auto
  ultimately show ?thesis by (simp add: encode_json_raw_array_def)
qed

subsection \<open>Rewriting keeps JSON\<close>

locale json_keeper =
  fixes f :: "bytes \<Rightarrow> found_files \<Rightarrow> bytes \<times> bool \<times> found_files"
  assumes keeps_value: "0 \<le> d \<Longrightarrow> jvalue d v \<Longrightarrow> f v st = (w, c, st') \<Longrightarrow> c \<Longrightarrow> jvalue d w"
begin

lemma items_keep:
  "0 \<le> d \<Longrightarrow> \<forall>v \<in> set vs. jvalue d v \<Longrightarrow> rewrite_items f vs c0 st = (ws, c, st') \<Longrightarrow> \<forall>w \<in> set ws. jvalue d w"
proof (induction vs arbitrary: c0 st ws)
  case (Cons v vs)
  obtain w c1 st1 where w: "f v st = (w, c1, st1)" by (metis prod_cases3)
  then obtain nvs where "rewrite_items f vs (c0 \<or> c1) st1 = (nvs, c, st')" "ws = (if c1 then w else v) # nvs"
    using Cons.prems(3) by (auto split: prod.splits)
  with Cons keeps_value [OF Cons.prems(1) _ w] show ?case by auto
qed auto

lemma members_keep:
  "0 \<le> d \<Longrightarrow> raw_map d m \<Longrightarrow> rewrite_members f skip m c0 st = (m', c, st') \<Longrightarrow>
    raw_map d m' \<and> map fst m' = map fst m \<and> (\<forall>kv \<in> set m. fst kv \<in> set skip \<longrightarrow> kv \<in> set m')"
proof (induction m arbitrary: c0 st m')
  case (Cons kv m)
  obtain k v where kv: "kv = (k, v)" by (cases kv)
  have m: "raw_map d m" "k \<notin> fst ` set m" "jvalue d v" "valid_utf8 k" using Cons.prems(2) kv by (auto simp: raw_map_def)
  have step: ?case if r: "rewrite_members f skip m c1 st1 = (nm, c, st')" and e: "m' = (k, w) # nm" and
      w: "jvalue d w" "k \<in> set skip \<Longrightarrow> w = v" for c1 st1 nm w
  proof -
    note ih = Cons.IH [OF Cons.prems(1) m(1) r]
    have "fst ` set nm = fst ` set m" using ih by (metis list.set_map)
    with ih e w m kv show ?thesis by (auto simp: raw_map_def)
  qed
  show ?case
  proof (cases "k \<in> set skip")
    case True
    then obtain nm where "rewrite_members f skip m c0 st = (nm, c, st')" "m' = (k, v) # nm"
      using Cons.prems(3) kv by (auto split: prod.splits)
    with step m show ?thesis by blast
  next
    case False
    obtain w c1 st1 where w: "f v st = (w, c1, st1)" by (metis prod_cases3)
    then obtain nm where nm: "rewrite_members f skip m (c0 \<or> c1) st1 = (nm, c, st')" "m' = (k, if c1 then w else v) # nm"
      using Cons.prems(3) kv False by (auto split: prod.splits)
    show ?thesis
      by (rule step [OF nm]) (use keeps_value [OF Cons.prems(1) m(3) w] m(3) False in auto)
  qed
qed (simp add: raw_map_def)

end

lemma take_field_raw_map:
  "raw_map d (fst s) \<Longrightarrow> k \<in> set payload_fields \<Longrightarrow> raw_map d (fst (take_field sha detect k p mime s))"
  by (auto simp: take_field_def payload_fields_def valid_utf8_ascii
      split: prod.splits option.splits intro!: raw_map_update jvalue_encode_string)

lemma takes_raw_map:
  assumes "takes sha detect t" "raw_map d (fst s)"
  shows "raw_map d (fst (t s))"
proof (cases "t s = s")
  case False
  then obtain k mime where k: "k \<in> set payload_fields"
      "t s = take_field sha detect k (field_text (fst s) k) mime s"
    using assms(1) unfolding takes_def by blast
  show ?thesis unfolding k(2) by (rule take_field_raw_map [OF assms(2) k(1)])
qed (use assms in simp)

lemma take_payloads_raw_map: "raw_map d obj \<Longrightarrow> raw_map d (fst (take_payloads sha detect obj st))"
  unfolding take_payloads_def
  by (rule takes_raw_map [OF takes_each(4)], rule takes_raw_map [OF takes_each(3)],
      rule takes_raw_map [OF takes_each(2)], rule takes_raw_map [OF takes_each(1)]) simp

context json_keeper
begin

lemma array_keeps:
  assumes "0 \<le> d" "jvalue d v" "hd v = CHR 0x5B" "rewrite_json_array f v v st = (w, c, st')" "c"
  shows "jvalue d w"
proof -
  obtain vs where vs: "jarray d vs v" using jvalue_bracketE [OF assms(2,3)] .
  obtain ws c1 st1 where ws: "rewrite_items f vs False st = (ws, c1, st1)" by (metis prod_cases3)
  have "\<forall>w \<in> set ws. jvalue (d + 1) w"
    using items_keep [OF _ jarray_values [OF vs] ws] assms(1) by simp
  moreover have "d < max_nesting" using vs by (simp add: jarray_def)
  ultimately obtain out where "encode_json_raw_array ws = Some out" "jvalue d out"
    using encode_array_jvalue assms(1) by blast
  then show ?thesis
    using assms(4,5) ws unmarshal_jarray [OF vs assms(1)] by (auto simp: rewrite_json_array_def split: if_splits)
qed

text \<open>What an object comes out as: the encoding of a map with the same keys, the taken fields kept.\<close>

lemma object_result:
  assumes "jobject d ms v" "0 \<le> d" "take_payloads sha detect (decode_members ms) st = (obj, skip, st1)"
  shows "\<exists>m c st' out. rewrite_members f skip obj (skip \<noteq> []) st1 = (m, c, st') \<and>
    rewrite_json_object sha detect f raw v st = (if c then (out, True, st') else (raw, False, st')) \<and>
    encode_json_raw_object m = Some out \<and> jvalue d out \<and> raw_map (d + 1) m \<and>
    map fst m = map fst obj \<and> (\<forall>kv \<in> set obj. fst kv \<in> set skip \<longrightarrow> kv \<in> set m)"
proof -
  have "raw_map (d + 1) (decode_members ms)"
    by (rule raw_map_decode_members) (use jobject_values [OF assms(1)] in auto)
  then have obj: "raw_map (d + 1) obj" using take_payloads_raw_map [of "d + 1" _ sha detect st] assms(3) by fastforce
  obtain m c st' where m: "rewrite_members f skip obj (skip \<noteq> []) st1 = (m, c, st')" by (metis prod_cases3)
  note keep = members_keep [OF _ obj m]
  have "d < max_nesting" using assms(1) by (simp add: jobject_def)
  moreover obtain out where out: "encode_json_raw_object m = Some out"
    using encode_total [of "d + 1" m] keep assms(2) by auto
  ultimately have "jvalue d out" using encode_jvalue [OF out, of d] keep assms(2) by auto
  moreover have "decode_json_raw_object v = Some (decode_members ms)"
    using decode_jobject [OF assms(1,2), of "[]" "[]"] by simp
  ultimately show ?thesis
    using m keep out assms(2,3) by (auto simp: rewrite_json_object_def)
qed

lemma object_keeps:
  assumes "0 \<le> d" "jvalue d v" "hd v = CHR ''{''" "rewrite_json_object sha detect f v v st = (w, c, st')" "c"
  shows "jvalue d w"
proof -
  obtain ms where ms: "jobject d ms v" using jvalue_braceE [OF assms(2,3)] .
  obtain obj skip st1 where "take_payloads sha detect (decode_members ms) st = (obj, skip, st1)" by (metis prod_cases3)
  from object_result [OF ms assms(1) this, of v] show ?thesis using assms(4,5) by (auto split: if_splits)
qed

end

lemma rewrite_json_keeps: "json_keeper (rewrite_json sha detect n)"
proof (induction n)
  case (Suc n)
  show ?case
  proof
    fix d v st w c st'
    assume v: "0 \<le> d" "jvalue d v" and r: "rewrite_json sha detect (Suc n) v st = (w, c, st')" "c"
    have "jvalue d w" if "rewrite_json_string sha detect v v st = (w, c, st')"
      using that r(2) by (auto simp: rewrite_json_string_def jvalue_encode_string split: option.splits prod.splits if_splits)
    then show "jvalue d w"
      using r v(2) json_keeper.array_keeps [OF Suc v] json_keeper.object_keeps [OF Suc v]
      by (auto simp: Let_def split: if_splits)
  qed
qed (unfold_locales, simp)

interpretation json_keeping: json_keeper "rewrite_json sha detect n"
  by (rule rewrite_json_keeps)

subsection \<open>White space around a document\<close>

lemma trim_lead_ws:
  assumes "json_ws c"
  shows "trim_lead space_seqs (c # s) = trim_lead space_seqs s"
    and "trim_lead (map rev space_seqs) (c # s) = trim_lead (map rev space_seqs) s"
proof -
  have "lead_len space_seqs (c # s) = 1" "lead_len (map rev space_seqs) (c # s) = 1"
    using assms unfolding json_ws_def by (elim disjE; simp add: space_seqs_def)+
  then show "trim_lead space_seqs (c # s) = trim_lead space_seqs s"
    "trim_lead (map rev space_seqs) (c # s) = trim_lead (map rev space_seqs) s"
    by (subst trim_lead.simps, simp)+
qed

lemma trim_lead_all_ws:
  assumes "all_ws w"
  shows "trim_lead space_seqs (w @ s) = trim_lead space_seqs s"
    and "trim_lead (map rev space_seqs) (w @ s) = trim_lead (map rev space_seqs) s"
  using assms by (induction w) (auto simp: all_ws_def trim_lead_ws)

lemma trim_space_ws:
  assumes "all_ws w1" "all_ws w2" "trim_space v = v" "v \<noteq> []" "plain_ascii (hd v)" "plain_ascii (last v)"
  shows "trim_space (w1 @ v @ w2) = v"
proof -
  obtain c t where v: "v = c # t" using assms(4) by (cases v) auto
  have l: "trim_left_space (w1 @ v @ w2) = v @ w2"
    using assms(1,5) by (simp add: trim_left_space_def trim_lead_all_ws v trim_lead_id lead_len_plain)
  obtain t' where "rev v = last v # t'"
    using assms(4) by (metis append_butlast_last_id rev_eq_Cons_iff rev_rev_ident)
  then have "trim_lead (map rev space_seqs) (rev v) = rev v"
    using lead_len_plain(2) [OF assms(6), of t'] by (simp only: trim_lead_id)
  moreover have "all_ws (rev w2)" using assms(2) by (simp add: all_ws_def)
  ultimately have "trim_right_space (v @ w2) = v"
    by (simp add: trim_right_space_def trim_lead_all_ws)
  with l show ?thesis by (simp add: trim_space_def)
qed

lemma trim_space_jvalue: "all_ws w1 \<Longrightarrow> all_ws w2 \<Longrightarrow> jvalue d v \<Longrightarrow> trim_space (w1 @ v @ w2) = v"
  using grammar_heads(1) [of d v] grammar_last(1) [of d v] by (intro trim_space_ws) (auto simp: value_head_plain)

subsection \<open>A payload at the top of a body\<close>

lemma takes_skip: "takes sha detect t \<Longrightarrow> set (fst (snd s)) \<subseteq> set (fst (snd (t s)))"
proof (cases "t s = s")
  case False
  assume "takes sha detect t"
  then obtain k mime where "t s = take_field sha detect k (field_text (fst s) k) mime s"
    using False unfolding takes_def by blast
  then show ?thesis by (auto simp: take_field_def split: prod.splits option.splits)
qed simp

lemma adds_files: "adds sha detect st st' \<Longrightarrow> set (fst st) \<subseteq> set (fst st')"
  by (cases st) (auto simp: adds_def add_extracted_def)

lemma grows_files: "grows sha detect st st' \<Longrightarrow> set (fst st) \<subseteq> set (fst st')"
  by (induction rule: rtranclp_induct) (auto dest: adds_files)

lemma take_payloads_source:
  assumes "distinct_keys m" "field_text m ''type'' = ''base64''"
    "file_from_base64 sha detect (field_text m ''data'') (field_text m ''media_type'') = Some f"
    "take_payloads sha detect m ([], []) = (obj, skip, st)"
  shows "''data'' \<in> set skip" "f \<in> set (fst st)" "map fst obj = map fst m"
    "(''data'', encode_string (file_placeholder (ef_sha f))) \<in> set obj"
proof -
  let ?s1 = "take_source sha detect (m, [], [], [])"
  have ne: "field_text m ''data'' \<noteq> []"
    using assms(3) by (auto simp: file_from_base64_def decode_base64_payload_def)
  then have s1: "fst (snd ?s1) = [''data'']" "snd (snd ?s1) = ([f], [ef_sha f])"
    using assms(2,3) by (simp_all add: take_source_def take_field_def add_extracted_def)
  have "taken sha m (m, [], [], [])" by (simp add: taken_def list_all2_refl)
  then have t1: "taken sha m ?s1" using takes_taken [OF takes_each(1) _ assms(1)] by blast
  have chain: "set (fst (snd s)) \<subseteq> set (fst (snd (t s))) \<and> set (fst (snd (snd s))) \<subseteq> set (fst (snd (snd (t s)))) \<and>
      taken sha m (t s)" if "takes sha detect t" "taken sha m s" for t s
    using takes_skip [OF that(1)] takes_taken [OF that assms(1)] grows_files by blast
  let ?s2 = "take_b64_json sha detect ?s1"
  let ?s3 = "take_audio sha detect ?s2"
  note c2 = chain [OF takes_each(2) t1]
  note c3 = chain [OF takes_each(3) conjunct2 [OF conjunct2 [OF c2]]]
  note c4 = chain [OF takes_each(4) conjunct2 [OF conjunct2 [OF c3]]]
  have fin: "take_asset sha detect ?s3 = (obj, skip, st)" using assms(4) by (simp add: take_payloads_def)
  show skip: "''data'' \<in> set skip" and "f \<in> set (fst st)" using c2 c3 c4 s1 fin by auto
  have l: "list_all2 (\<lambda>a b. fst a = fst b \<and> (if fst a \<in> set skip
      then \<forall>S. named st \<subseteq> S \<longrightarrow> payload_redacted sha S (snd a) (snd b) else snd a = snd b)) m obj"
    using c4 unfolding fin taken_def by simp
  show keys: "map fst obj = map fst m" by (rule list_all2_keys [OF l, symmetric])
  obtain v where v: "(''data'', v) \<in> set m" using field_text_present(1) [OF ne] by force
  then obtain i where i: "i < length m" "m ! i = (''data'', v)" by (auto simp: in_set_conv_nth)
  then have ri: "i < length obj" "fst (obj ! i) = ''data''" "payload_redacted sha UNIV v (snd (obj ! i))"
    using list_all2_nthD [OF l i(1)] list_all2_lengthD [OF l] skip by (auto split: if_splits)
  have "raw_json_string v = Some (field_text m ''data'')"
    using field_text_present(2) [OF ne] mget_mem [OF assms(1) v] by simp
  then have "snd (obj ! i) = encode_string (file_placeholder (ef_sha f))"
    using ri(3) file_from_base64_SomeD(1) [OF assms(3)] by (auto simp: payload_redacted_def)
  with ri show "(''data'', encode_string (file_placeholder (ef_sha f))) \<in> set obj"
    by (metis nth_mem prod.collapse)
qed

lemma rewrite_members_changed: "rewrite_members f skip m True st = (m', c, st') \<Longrightarrow> c"
  by (induction m arbitrary: st m') (auto split: prod.splits if_splits)

subsection \<open>The properties of \<^verbatim>\<open>extractFiles\<close>\<close>


text \<open>
  An image block of a request (a JSON object whose type is base64, at the top of the body, in
  any white space) whose data decodes to a file of an acceptable size comes out as the JSON object
  of the same keys with the placeholder of that file for data, and the file is among those
  returned.
\<close>

theorem extract_files_takes_source:
  assumes "decode_json_raw_object body = Some m" "field_text m ''type'' = ''base64''"
    "file_from_base64 sha detect (field_text m ''data'') (field_text m ''media_type'') = Some f"
  shows "\<exists>out files m'. extract_files sha detect body = (out, files) \<and> f \<in> set files \<and>
    decode_json_raw_object out = Some m' \<and> fst ` set m' = fst ` set m \<and>
    map_of m' ''data'' = Some (encode_string (file_placeholder (ef_sha f)))"
proof -
  obtain w1 v w2 ms where v: "all_ws w1" "all_ws w2" "body = w1 @ v @ w2" "jobject 0 ms v" "m = decode_members ms"
    using assms(1) decode_json_raw_object_sound by metis
  then have d: "distinct_keys m" using raw_map_distinct [OF decode_raw_map [OF assms(1)]] by simp
  obtain obj skip st1 where t: "take_payloads sha detect m ([], []) = (obj, skip, st1)" by (metis prod_cases3)
  note src = take_payloads_source [OF d assms(2,3) t]
  have "body \<noteq> []" using v(3,4) by (auto simp: jobject_def)
  then obtain x xs where body: "body = x # xs" by (cases body) auto
  let ?f = "rewrite_json sha detect (length xs)"
  obtain m' c files seen out where r: "rewrite_members ?f skip obj (skip \<noteq> []) st1 = (m', c, files, seen)"
      "rewrite_json_object sha detect ?f body v ([], []) =
        (if c then (out, True, files, seen) else (body, False, files, seen))"
      "encode_json_raw_object m' = Some out" "raw_map 1 m'" "map fst m' = map fst obj"
      "\<forall>kv \<in> set obj. fst kv \<in> set skip \<longrightarrow> kv \<in> set m'"
    using json_keeping.object_result [OF v(4) order.refl t [unfolded v(5)], where n = "length xs" and raw = body]
    by fastforce
  have c: c using r(1) src(1) rewrite_members_changed [of ?f skip obj st1] by (cases skip) auto
  have "trim_space body = v" unfolding v(3) by (rule trim_space_jvalue [OF v(1,2) jobject_jvalue [OF v(4)]])
  moreover have "hd v = CHR ''{''" "v \<noteq> []" using v(4) by (auto simp: jobject_def)
  ultimately have "rewrite_json sha detect (length body) body ([], []) = (out, True, files, seen)"
    using r(2) c by (simp add: body Let_def)
  then have "extract_files sha detect body = (out, files)" by (simp add: extract_files_def body)
  moreover have "f \<in> set files"
    using src(2) grows_files json_rewriter.rewrite_members_blanks [OF r(1), where S = UNIV] by fastforce
  moreover obtain md where "decode_json_raw_object out = Some md" "\<forall>k. map_of md k = map_option compact (map_of m' k)"
    using decode_encode_lookup [of 0 m' out] r(3,4) by (auto simp: max_nesting_def)
  moreover have "map_of m' ''data'' = Some (encode_string (file_placeholder (ef_sha f)))"
    using r(4,6) src(1,4) raw_map_distinct [of 1 m'] by fastforce
  moreover have "dom (map_of md) = dom (map_of m')" if "\<forall>k. map_of md k = map_option compact (map_of m' k)" for md
    using that by (auto simp: dom_def)
  ultimately show ?thesis
    using r(5) src(3) by (simp add: dom_map_of_conv_image_fst) (metis list.set_map)
qed

definition sample_image :: string where
  \<open>sample_image = ''{"type":"base64","media_type":"image/png","data":"iVBORw0KGgoAAAANSUhEUgAAAAEAAAABCAYAAAAfFcSJAAAA"}''\<close>

definition sample_members :: "string gomap" where
  \<open>sample_members = [(''type'', ''"base64"''), (''media_type'', ''"image/png"''),
    (''data'', ''"iVBORw0KGgoAAAANSUhEUgAAAAEAAAABCAYAAAAfFcSJAAAA"'')]\<close>

lemma sample_facts:
  "decode_json_raw_object sample_image = Some sample_members"
  "field_text sample_members ''type'' = ''base64''"
  "file_from_base64 (take 2) (\<lambda>_. []) (field_text sample_members ''data'') (field_text sample_members ''media_type'') \<noteq> None"
  "snd (extract_files (take 2) (\<lambda>_. []) sample_image) \<noteq> []"
  by code_simp+


lemma extract_files_takes_source_witness:
  "\<exists>f out files. extract_files (take 2) (\<lambda>_. []) sample_image = (out, files) \<and> f \<in> set files"
proof -
  obtain f where f: "file_from_base64 (take 2) (\<lambda>_. []) (field_text sample_members ''data'')
      (field_text sample_members ''media_type'') = Some f"
    using sample_facts(3) by auto
  from extract_files_takes_source [OF sample_facts(1,2) f] show ?thesis by auto
qed

text \<open>
  Decoding a payload inverts the standard base64 encoding, however it is broken by line ends,
  blanks and tabs, and gives the data exactly when it has at least 32 bytes and fits a MEDIUMBLOB.
\<close>

theorem decode_base64_roundtrip:
  assumes "filter (\<lambda>c. c \<notin> {CHR 0x0A, CHR 0x0D, CHR '' '', CHR 0x09}) s = b64_encode data"
  shows "decode_base64_payload s =
    (if 32 \<le> length data \<and> int (length data) \<le> 2 ^ 24 - 1 then Some data else None)"
  using decode_base64_encode [OF assms] by (auto simp: min_decoded_file_bytes_def max_medium_blob_def)

lemma sample_chunks:
  "filter (\<lambda>c. c \<notin> {CHR 0x0A, CHR 0x0D, CHR '' '', CHR 0x09})
      (''QUFB'' @ [CHR 0x0A] @ concat (replicate 10 ''QUFB'')) = b64_encode (replicate 33 (CHR ''A''))"
  by code_simp

lemma decode_base64_roundtrip_witness:
  "decode_base64_payload (''QUFB'' @ [CHR 0x0A] @ concat (replicate 10 ''QUFB'')) = Some (replicate 33 (CHR ''A''))"
  using decode_base64_roundtrip [of "''QUFB'' @ [CHR 0x0A] @ concat (replicate 10 ''QUFB'')" "replicate 33 (CHR ''A'')"]
    sample_chunks by simp

end
