(* ===== verification/ProxyHeaders.thy ===== *)
theory ProxyHeaders
  imports Http JsonString Pump
begin

text \<open>
  The parts of \<^verbatim>\<open>proxy.go\<close> that look at headers and errors: the encoding of a request body and its
  decoding under a size limit, the headers copied to the upstream and back to the client, the
  classification of a response by its content type, and the text and status an error is reported
  with.
\<close>

subsection \<open>Quoting\<close>

text \<open>
  \<^verbatim>\<open>strconv.Quote\<close>, the \<^verbatim>\<open>%q\<close> of the error texts; \<open>printable\<close> is \<^verbatim>\<open>unicode.IsPrint\<close> beyond ASCII.
\<close>

definition hex_text :: "nat \<Rightarrow> nat \<Rightarrow> string" where
  "hex_text width n = map (\<lambda>i. hex_digit (n div 16 ^ i mod 16)) (rev [0..<width])"

definition escaped_rune :: "(nat \<Rightarrow> bool) \<Rightarrow> string \<Rightarrow> nat \<Rightarrow> string" where
  "escaped_rune printable s r =
    (if r = 0x22 \<or> r = 0x5C then CHR 0x5C # s
     else if (if r < 0x80 then 0x20 \<le> r \<and> r < 0x7F else printable r) then s
     else if 7 \<le> r \<and> r \<le> 13 then [CHR 0x5C, ''abtnvfr'' ! (r - 7)]
     else if r < 0x80 then CHR 0x5C # ''x'' @ hex_text 2 r
     else if r < 0x10000 then CHR 0x5C # ''u'' @ hex_text 4 r
     else CHR 0x5C # ''U'' @ hex_text 8 r)"

function quote_runes :: "(nat \<Rightarrow> bool) \<Rightarrow> string \<Rightarrow> string" where
  "quote_runes printable s =
    (if s = [] then []
     else
       (let (r, n) = decode_rune s in
        (if r = rune_error \<and> n = 1 then CHR 0x5C # ''x'' @ hex_text 2 (byte_of (hd s))
         else escaped_rune printable (take n s) r) @ quote_runes printable (drop n s)))"
  by pat_completeness auto
termination
  by (relation "measure (\<lambda>(printable, s). length s)") (auto, metis decode_rune_decreases snd_conv)

declare quote_runes.simps [simp del]

definition go_quote :: "(nat \<Rightarrow> bool) \<Rightarrow> string \<Rightarrow> string" where
  "go_quote printable s = [CHR 0x22] @ quote_runes printable s @ [CHR 0x22]"

subsection \<open>Bounded reads\<close>

text \<open>
  \<^verbatim>\<open>io.ReadAll\<close> of an \<^verbatim>\<open>io.LimitReader\<close> of \<open>n\<close> bytes: what was read, and the error unless it is the
  end of the input; \<open>None\<close> while the reader still has something to come.
\<close>

fun read_limited :: "nat \<Rightarrow> pump_event list \<Rightarrow> (bytes \<times> go_error option) option" where
  "read_limited n [] = (if n = 0 then Some ([], None) else None)"
| "read_limited n (Tick # es) = read_limited n es"
| "read_limited n (Read t p err # es) =
    (if n = 0 then Some ([], None)
     else
       (case (if length p \<le> n then err else None) of
          Some e \<Rightarrow> Some (p, if kind_of e = Eof then None else Some e)
        | None \<Rightarrow>
            map_option (\<lambda>(q, e). (take n p @ q, e)) (read_limited (n - length p) es)))"

subsection \<open>Request bodies\<close>

definition max_request_body :: int where
  "max_request_body = 64 * 2 ^ 20"

text \<open>
  \<^verbatim>\<open>errUnsupportedContentEncoding\<close> (wrapped, with its text), \<^verbatim>\<open>errDecodedBodyTooLarge\<close>, and any
  other error with its text.
\<close>

datatype body_error = UnsupportedEncoding string | DecodedTooLarge | InvalidEncoded string

definition unsupported_text :: string where
  "unsupported_text = ''unsupported content-encoding''"

definition encodings :: "header \<Rightarrow> string list" where
  "encodings h =
    filter (\<lambda>part. part \<noteq> [] \<and> part \<noteq> ''identity'')
      (concat (map (\<lambda>v. map (\<lambda>part. to_lower (trim_space part)) (split_on (CHR '','') v))
        (header_values h ''Content-Encoding'')))"

definition content_encoding :: "header \<Rightarrow> body_error + string" where
  "content_encoding h =
    (case encodings h of
       [] \<Rightarrow> Inr []
     | [e] \<Rightarrow> Inr e
     | _ \<Rightarrow> Inl (UnsupportedEncoding (unsupported_text @ '': only one compression layer is supported'')))"

text \<open>
  \<open>gunzip\<close> and \<open>unzstd\<close> are the decompressors: an error when the input has no valid start, or the
  reads the stream then gives.
\<close>

type_synonym decoder = "bytes \<Rightarrow> go_error + pump_event list"

definition invalid_body :: "string \<Rightarrow> go_error \<Rightarrow> body_error" where
  "invalid_body enc e = InvalidEncoded (''invalid '' @ enc @ '' request body: '' @ error_text e)"

definition decode_with :: "decoder \<Rightarrow> string \<Rightarrow> string \<Rightarrow> bytes \<Rightarrow> (body_error + bytes) option" where
  "decode_with decoder fmt enc body =
    (case decoder body of
       Inl e \<Rightarrow> Some (Inl (invalid_body fmt e))
     | Inr reads \<Rightarrow>
         map_option
           (\<lambda>(decoded, err). case err of
                Some e \<Rightarrow> Inl (invalid_body enc e)
              | None \<Rightarrow> if max_request_body < int (length decoded) then Inl DecodedTooLarge else Inr decoded)
           (read_limited (nat (max_request_body + 1)) reads))"

definition decode_request_body ::
  "(nat \<Rightarrow> bool) \<Rightarrow> decoder \<Rightarrow> decoder \<Rightarrow> bytes \<Rightarrow> header \<Rightarrow> (body_error + bytes) option" where
  "decode_request_body printable gunzip unzstd body h =
    (case content_encoding h of
       Inl e \<Rightarrow> Some (Inl e)
     | Inr enc \<Rightarrow>
         if enc = [] then Some (Inr body)
         else if enc = ''gzip'' \<or> enc = ''x-gzip'' then decode_with gunzip ''gzip'' enc body
         else if enc = ''zstd'' then decode_with unzstd ''zstd'' enc body
         else Some (Inl (UnsupportedEncoding (unsupported_text @ '' '' @ go_quote printable enc))))"

subsection \<open>Copied headers\<close>

definition hop_headers :: "string list" where
  "hop_headers = [''Connection'', ''Keep-Alive'', ''Proxy-Authenticate'', ''Proxy-Authorization'',
    ''Te'', ''Trailer'', ''Transfer-Encoding'', ''Upgrade'', ''Proxy-Connection'']"

definition connection_tokens :: "header \<Rightarrow> string list" where
  "connection_tokens h =
    filter (\<lambda>name. name \<noteq> [])
      (concat (map (\<lambda>f. map (\<lambda>tok. canonical_key (trim_space tok)) (split_on (CHR '','') f))
        (header_values h ''Connection'')))"

definition hop_by_hop :: "header \<Rightarrow> string list" where
  "hop_by_hop h = hop_headers @ connection_tokens h"

definition copy_headers :: "string list \<Rightarrow> header \<Rightarrow> header \<Rightarrow> header" where
  "copy_headers skip dst src =
    foldl (\<lambda>dst (k, vs). if canonical_key k \<in> set skip then dst else mset_key k vs dst) dst src"

definition private_headers :: "string list" where
  "private_headers = [''Authorization'', ''X-Api-Key'', ''Api-Key'', ''Cookie'', ''Host'',
    ''Content-Length'', ''Accept-Encoding'']"

definition copy_request_headers :: "header \<Rightarrow> header \<Rightarrow> header" where
  "copy_request_headers dst src = copy_headers (hop_by_hop src @ private_headers) dst src"

definition copy_response_headers :: "header \<Rightarrow> header \<Rightarrow> header" where
  "copy_response_headers dst src = copy_headers (hop_by_hop src @ [''Set-Cookie'']) dst src"

subsection \<open>Content types\<close>

definition is_sse :: "string \<Rightarrow> bool" where
  "is_sse content_type = contains (to_lower content_type) ''text/event-stream''"

definition is_ndjson :: "string \<Rightarrow> bool" where
  "is_ndjson content_type = contains (to_lower content_type) ''x-ndjson''"

definition response_is_sse :: "bool \<Rightarrow> string \<Rightarrow> bool" where
  "response_is_sse stream content_type =
    (if is_sse content_type then True
     else if \<not> stream then False
     else \<not> contains (to_lower content_type) ''json'')"

definition is_compressed_encoding :: "string \<Rightarrow> bool" where
  "is_compressed_encoding v0 = (let v = to_lower (trim_space v0) in v \<noteq> [] \<and> v \<noteq> ''identity'')"

subsection \<open>Reporting errors\<close>

definition is_errno :: "string set \<Rightarrow> err_kind \<Rightarrow> bool" where
  "is_errno names k = (case k of Errno e \<Rightarrow> e \<in> names | _ \<Rightarrow> False)"

definition is_client_disconnect :: "go_error option \<Rightarrow> bool" where
  "is_client_disconnect err =
    (case err of
       None \<Rightarrow> False
     | Some e \<Rightarrow>
         if err_as (\<lambda>k. is_canceled k \<or> k = NetClosed \<or> k = ClosedPipe) err \<noteq> None then True
         else if (case err_as is_op err of
                    Some (GoError _ _ (inner # _)) \<Rightarrow>
                      err_as (is_errno {''EPIPE'', ''ECONNRESET''}) (Some inner) \<noteq> None
                  | _ \<Rightarrow> False) then True
         else
           let s = error_text e in
           contains s ''broken pipe'' \<or> contains s ''connection reset by peer'' \<or>
           contains s ''use of closed network connection'')"

definition copy_err_text :: "go_error option \<Rightarrow> string" where
  "copy_err_text err =
    (case err of
       None \<Rightarrow> []
     | Some e \<Rightarrow> if is_client_disconnect err then ''canceled'' else error_text e)"

definition status_from_err :: "go_error option \<Rightarrow> int" where
  "status_from_err err =
    (if net_timeout err \<or> err_as is_deadline err \<noteq> None then 504 else 502)"

subsection \<open>What is copied\<close>

lemma map_of_copy_headers:
  "distinct_keys src \<Longrightarrow>
    map_of (copy_headers skip dst src) k =
      (if k \<in> fst ` set src \<and> canonical_key k \<notin> set skip then map_of src k else map_of dst k)"
proof (induction src arbitrary: dst)
  case (Cons kv src)
  obtain k1 vs where kv: "kv = (k1, vs)" by (cases kv)
  have "copy_headers skip dst (kv # src) =
      copy_headers skip (if canonical_key k1 \<in> set skip then dst else mset_key k1 vs dst) src"
    by (simp add: copy_headers_def kv)
  with Cons kv show ?case by (auto simp: image_iff split: if_splits)
qed (simp add: copy_headers_def)

lemma distinct_copy_headers [simp]: "distinct_keys dst \<Longrightarrow> distinct_keys (copy_headers skip dst src)"
  by (induction src arbitrary: dst) (auto simp: copy_headers_def)

text \<open>The keys of a header as the server hands it out: canonical, and each once.\<close>

definition canonical_header :: "header \<Rightarrow> bool" where
  "canonical_header h \<longleftrightarrow> distinct_keys h \<and> (\<forall>k \<in> fst ` set h. canonical_key k = k)"

lemma header_values_copy:
  assumes "canonical_header src"
  shows "header_values (copy_headers skip dst src) k =
    (if canonical_key k \<in> fst ` set src \<and> canonical_key k \<notin> set skip
     then header_values src k else header_values dst k)"
  using assms by (simp add: header_values_def map_of_copy_headers canonical_header_def)

text \<open>The value a list of headers gives to a key when set one after the other.\<close>

definition set_value :: "string gomap \<Rightarrow> string \<Rightarrow> string option" where
  "set_value hs k = map_of (rev (map (apfst canonical_key) hs)) (canonical_key k)"

lemma header_values_set: "header_values (header_set k v h) k' =
    (if canonical_key k' = canonical_key k then [v] else header_values h k')"
  by (simp add: header_values_def header_set_def)

lemma header_values_sets:
  "header_values (foldl (\<lambda>h (k, v). header_set k v h) h hs) k =
    (case set_value hs k of Some v \<Rightarrow> [v] | None \<Rightarrow> header_values h k)"
  by (induction hs rule: rev_induct)
    (auto simp: set_value_def header_values_set split: prod.splits option.splits)

subsection \<open>Properties of the headers and bodies\<close>



lemma read_limited_0 [simp]: "read_limited 0 es = Some ([], None)"
proof (induction es)
  case (Cons e es)
  then show ?case by (cases e) simp_all
qed simp

lemma read_limited_bounds:
  "read_limited n es = Some (p, err) \<Longrightarrow> length p \<le> n \<and> prefix p (read_bytes es) \<and>
    (err = None \<longrightarrow> length p < n \<longrightarrow> p = read_bytes es)"
proof (induction n es arbitrary: p rule: read_limited.induct)
  case (3 n t q e es)
  show ?case
  proof (cases "n = 0")
    case False
    show ?thesis
    proof (cases "if length q \<le> n then e else None")
      case None
      then obtain p' where p': "read_limited (n - length q) es = Some (p', err)" "p = take n q @ p'"
        using 3(2) False by (auto simp: Let_def split: if_splits option.splits)
      show ?thesis
      proof (cases "length q \<le> n")
        case True
        with 3(1) [OF False None p'(1)] p' None show ?thesis by auto
      next
        case l: False
        then have "n - length q = 0" by simp
        then have "p' = []" using p'(1) by (cases es rule: read_bytes.cases) (auto dest: 3(1) [OF False None])
        with l p'(2) show ?thesis by (auto simp: take_is_prefix prefix_prefix)
      qed
    next
      case (Some x)
      with 3(2) False show ?thesis by (auto split: if_splits)
    qed
  qed (use 3 in simp)
qed (auto split: if_splits)

text \<open>
  C30: request bodies. A body without an encoding is taken as it is; an encoding the gateway does
  not know, or more than one, is refused as unsupported; with one it knows, the body is all that
  the decoder gave, and never more than \<open>max_request_body\<close> bytes of it.
\<close>

theorem decode_request_body_bounded:
  "(encodings h = [] \<longrightarrow> decode_request_body printable gunzip unzstd body h = Some (Inr body)) \<and>
   (length (encodings h) > 1 \<or> (\<exists>e. encodings h = [e] \<and> e \<notin> {''gzip'', ''x-gzip'', ''zstd''}) \<longrightarrow>
      (\<exists>text. decode_request_body printable gunzip unzstd body h = Some (Inl (UnsupportedEncoding text)) \<and>
        prefix ''unsupported content-encoding'' text)) \<and>
   (\<forall>e decoded. encodings h = [e] \<and>
      decode_request_body printable gunzip unzstd body h = Some (Inr decoded) \<longrightarrow>
      (e \<in> {''gzip'', ''x-gzip''} \<and> (\<exists>es. gunzip body = Inr es \<and> decoded = read_bytes es) \<or>
       e = ''zstd'' \<and> (\<exists>es. unzstd body = Inr es \<and> decoded = read_bytes es)) \<and>
      int (length decoded) \<le> max_request_body)"
proof -
  have "[] \<notin> set (encodings h)" by (simp add: encodings_def)
  then have not_empty: "encodings h = [e] \<Longrightarrow> e \<noteq> []" for e by (cases e) auto
  have with_decoder: "(\<exists>es. decoder body = Inr es \<and> decoded = read_bytes es) \<and>
      int (length decoded) \<le> max_request_body"
    if d: "decode_with decoder fmt enc body = Some (Inr decoded)" for decoder fmt enc decoded
  proof -
    from d obtain es err where es: "decoder body = Inr es"
        "read_limited (nat (max_request_body + 1)) es = Some (decoded, None)"
        "int (length decoded) \<le> max_request_body"
      by (auto simp: decode_with_def split: sum.splits option.splits if_splits)
    with read_limited_bounds [OF es(2)] show ?thesis by auto
  qed
  show ?thesis
    using not_empty
    by (auto simp: decode_request_body_def content_encoding_def unsupported_text_def
        dest!: with_decoder split: list.splits if_splits)
qed

theorem decode_request_body_bounded_witness:
  "decode_request_body (\<lambda>_. True) (\<lambda>_. Inr [Read 0 ''abc'' (Some end_of_file)]) (\<lambda>_. Inr []) ''z''
     [(''Content-Encoding'', [''identity, GZip''])] = Some (Inr ''abc'') \<and>
   int (length ''abc'') \<le> max_request_body"
proof -
  let ?h = "[(''Content-Encoding'', [''identity, GZip''])]"
    and ?g = "\<lambda>_. Inr [Read 0 ''abc'' (Some end_of_file)]" and ?z = "\<lambda>_. Inr []"
  have e: "encodings ?h = [''gzip'']" by code_simp
  then have d: "decode_request_body (\<lambda>_. True) ?g ?z ''z'' ?h = Some (Inr ''abc'')"
    by (simp add: decode_request_body_def content_encoding_def decode_with_def end_of_file_def
        max_request_body_def)
  with decode_request_body_bounded [of ?h "\<lambda>_. True" ?g ?z "''z''"] e show ?thesis by blast
qed

end
