(* ===== verification/Rewrite.thy ===== *)
theory Rewrite
  imports JsonMap
begin

text \<open>
  \<^verbatim>\<open>rewrite.go\<close>: what the gateway reads of a request body (\<open>parse_request\<close>) and how it
  rewrites the body for a provider (\<open>rewrite_request\<close>, \<open>ensure_include_usage\<close>).
  The JSON codec they go through is the interface \<open>raw_codec\<close>: the client lemmas about
  editing fields are proved from its laws, and it is interpreted on the codec of
  \<^verbatim>\<open>JsonMap\<close>, once for a whole body and once for an object nested one level deep.
\<close>

subsection \<open>Definitions\<close>

record request_meta =
  Model :: string
  Stream :: bool
  Body :: bytes

text \<open>The three errors of \<^verbatim>\<open>parseRequest\<close>, in the order the code checks them.\<close>

datatype request_error = InvalidJsonBody | ModelNotString | MissingModel

definition parse_request :: "bytes \<Rightarrow> request_error + request_meta" where
  "parse_request body =
    (case decode_json_raw_object body of
       None \<Rightarrow> Inl InvalidJsonBody
     | Some raw \<Rightarrow>
         (case raw_json_string (mget raw ''model'') of
            None \<Rightarrow> Inl ModelNotString
          | Some model \<Rightarrow>
              if model = [] then Inl MissingModel
              else Inr \<lparr>Model = model, Stream = the_or False (raw_json_bool (mget raw ''stream'')),
                        Body = body\<rparr>))"

definition ensure_include_usage :: "string \<Rightarrow> string option" where
  "ensure_include_usage opts =
    (if json_blank opts then Some ''{\"include_usage\":true}''
     else do {
       nested \<leftarrow> decode_json_raw_object opts;
       if mhas nested ''include_usage'' then Some opts
       else encode_json_raw_object (mset_key ''include_usage'' ''true'' nested)
     })"

text \<open>
  \<^verbatim>\<open>encodeJSONValue\<close> of a string does not fail, so its error branch is \<open>encode_string\<close>
  being a total function.
\<close>

definition rewrite_request :: "bytes \<Rightarrow> string \<Rightarrow> bool \<Rightarrow> bool \<Rightarrow> bytes option" where
  "rewrite_request body upstream_model stream inject =
    do {
      raw \<leftarrow> decode_json_raw_object body;
      let raw = (if upstream_model \<noteq> [] then mset_key ''model'' (encode_string upstream_model) raw
                 else raw);
      raw \<leftarrow> (if stream \<and> inject
              then do {
                opts \<leftarrow> ensure_include_usage (mget raw ''stream_options'');
                Some (mset_key ''stream_options'' opts raw)
              }
              else Some raw);
      encode_json_raw_object raw
    }"

subsection \<open>The codec interface\<close>

text \<open>
  What the rewriting relies on: decoding gives well-formed maps, storing a well-formed value
  keeps them so, encoding such a map succeeds, and decoding the encoding gives every field
  back up to \<open>norm\<close>.
\<close>

locale raw_codec =
  fixes dec :: "string \<Rightarrow> string gomap option"
    and enc :: "string gomap \<Rightarrow> string option"
    and norm :: "string \<Rightarrow> string"
    and text_ok :: "string \<Rightarrow> bool"
    and val_ok :: "string \<Rightarrow> bool"
    and map_ok :: "string gomap \<Rightarrow> bool"
  assumes dec_ok: "text_ok s \<Longrightarrow> dec s = Some m \<Longrightarrow> map_ok m"
    and put_ok: "map_ok m \<Longrightarrow> val_ok v \<Longrightarrow> ascii k \<Longrightarrow> map_ok (mset_key k v m)"
    and get_ok: "map_ok m \<Longrightarrow> map_of m k = Some v \<Longrightarrow> val_ok v"
    and enc_ok: "map_ok m \<Longrightarrow> \<exists>s. enc m = Some s \<and> text_ok s"
    and dec_enc: "map_ok m \<Longrightarrow> enc m = Some s \<Longrightarrow>
      \<exists>m'. dec s = Some m' \<and> (\<forall>k. map_of m' k = map_option norm (map_of m k))"
begin

lemma edit_total:
  assumes "text_ok s" "dec s = Some m" "val_ok v" "ascii k"
  shows "\<exists>s'. enc (mset_key k v m) = Some s' \<and> text_ok s'"
  using assms dec_ok put_ok enc_ok by blast

lemma edit_lookup:
  assumes "text_ok s" "dec s = Some m" "val_ok v" "ascii k" "enc (mset_key k v m) = Some s'"
  shows "\<exists>m'. dec s' = Some m' \<and>
    (\<forall>j. map_of m' j = (if j = k then Some (norm v) else map_option norm (map_of m j)))"
proof -
  have "map_ok (mset_key k v m)" using assms dec_ok put_ok by blast
  from dec_enc [OF this assms(5)] obtain m' where "dec s' = Some m'"
      "\<forall>j. map_of m' j = map_option norm (map_of (mset_key k v m) j)" by blast
  then show ?thesis by (intro exI [of _ m']) auto
qed

lemma recode_lookup:
  assumes "text_ok s" "dec s = Some m" "enc m = Some s'"
  shows "\<exists>m'. dec s' = Some m' \<and> (\<forall>j. map_of m' j = map_option norm (map_of m j))"
  using dec_enc [OF dec_ok [OF assms(1,2)] assms(3)] .

end

lemma decode_raw_map_nested:
  assumes "jvalue d s" "0 \<le> d" "decode_json_raw_object s = Some m"
  shows "raw_map (d + 1) m"
proof -
  obtain w1 v w2 ms0 where s: "all_ws w1" "s = w1 @ v @ w2" "jobject 0 ms0 v"
    using assms(3) by (rule decode_json_raw_object_sound)
  then obtain y where y: "v = CHR ''{'' # y" by (auto simp: jobject_def)
  have "s \<noteq> [] \<and> \<not> json_ws (hd s)" using grammar_heads(1) [OF assms(1)] by auto
  with s y have "hd s = CHR ''{''" by (cases w1) (auto simp: all_ws_def)
  with assms(1) obtain ms where ms: "jobject d ms s" by (rule jvalue_braceE)
  with assms decode_jobject [of d ms s "[]" "[]"] have "m = decode_members ms" by simp
  with jobject_values [OF ms] show ?thesis by (simp add: raw_map_decode_members)
qed

interpretation body_codec: raw_codec decode_json_raw_object encode_json_raw_object compact
  "\<lambda>_. True" "jvalue 1" "raw_map 1"
proof
  fix m s assume "raw_map 1 m" "encode_json_raw_object m = Some s"
  then show "\<exists>m'. decode_json_raw_object s = Some m' \<and>
      (\<forall>k. map_of m' k = map_option compact (map_of m k))"
    using decode_encode_lookup [of 0 m s] by (auto simp: max_nesting_def)
qed (auto intro: decode_raw_map raw_map_update raw_map_get valid_utf8_ascii
    encode_total [of 1])

interpretation nested_codec: raw_codec decode_json_raw_object encode_json_raw_object compact
  "jvalue 1" "jvalue 2" "raw_map 2"
proof
  fix s m assume "jvalue 1 s" "decode_json_raw_object s = Some m"
  then show "raw_map 2 m" using decode_raw_map_nested [of 1] by simp
next
  fix m :: "string gomap" assume m: "raw_map 2 m"
  then obtain s where "encode_json_raw_object m = Some s" using encode_total [of 2] by auto
  with m encode_jvalue [of m s 1] show "\<exists>s. encode_json_raw_object m = Some s \<and> jvalue 1 s"
    by (auto simp: max_nesting_def)
next
  fix m s assume "raw_map 2 m" "encode_json_raw_object m = Some s"
  then show "\<exists>m'. decode_json_raw_object s = Some m' \<and>
      (\<forall>k. map_of m' k = map_option compact (map_of m k))"
    using decode_encode_lookup [of 1 m s] by (auto simp: max_nesting_def)
qed (auto intro: raw_map_update raw_map_get valid_utf8_ascii)

subsection \<open>include\_usage\<close>

definition usage_options :: "string \<Rightarrow> bool" where
  "usage_options opts \<longleftrightarrow> json_blank opts \<or> (\<exists>m. decode_json_raw_object opts = Some m)"

lemma jvalue_true [simp]: "jvalue d ''true''"
  by (rule jv_lit) simp

lemma compact_true [simp]: "compact ''true'' = ''true''"
  by (rule compact_lit) simp

lemma json_blank_Nil [simp]: "json_blank []"
  by (simp add: json_blank_def)

lemma usage_literal_jvalue:
  assumes "0 \<le> d" "d < max_nesting"
  shows "jvalue d ''{\"include_usage\":true}''"
proof -
  have "raw_map (d + 1) [(''include_usage'', ''true'')]"
    by (simp add: raw_map_def valid_utf8_ascii)
  from encode_jvalue [OF _ this assms] show ?thesis
    by (simp add: encode_json_raw_object_def encode_member_def encode_raw_def
        jvalue_valid [of 0] encode_string_def quote_body.simps quote_ascii_def
        del: compact.simps)
qed

lemma usage_literal_decode:
  "decode_json_raw_object ''{\"include_usage\":true}'' = Some [(''include_usage'', ''true'')]"
  by code_simp

lemma ensure_include_usage_total:
  assumes "opts = [] \<or> jvalue 1 opts" "usage_options opts"
  shows "\<exists>r. ensure_include_usage opts = Some r"
proof (cases "json_blank opts")
  case False
  with assms obtain m where m: "jvalue 1 opts" "decode_json_raw_object opts = Some m"
    by (auto simp: usage_options_def)
  from nested_codec.edit_total [OF m jvalue_true, of "''include_usage''"] m False show ?thesis
    by (auto simp: ensure_include_usage_def)
qed (simp add: ensure_include_usage_def)

lemma ensure_include_usage_text:
  assumes "opts = [] \<or> jvalue 1 opts" "ensure_include_usage opts = Some r"
  shows "jvalue 1 r"
proof (cases "json_blank opts")
  case True
  with assms(2) have "r = ''{\"include_usage\":true}''" by (simp add: ensure_include_usage_def)
  then show ?thesis using usage_literal_jvalue [of 1] by (simp add: max_nesting_def)
next
  case False
  with assms obtain m where m: "jvalue 1 opts" "decode_json_raw_object opts = Some m"
    by (auto simp: ensure_include_usage_def bind_eq_Some_conv split: if_splits)
  from nested_codec.edit_total [OF m jvalue_true, of "''include_usage''"] m assms(2) False
  show ?thesis by (auto simp: ensure_include_usage_def split: if_splits)
qed

lemma ensure_include_usage_fields:
  assumes "opts = [] \<or> jvalue 1 opts" "ensure_include_usage opts = Some r"
  shows "\<exists>m'. decode_json_raw_object r = Some m' \<and> mhas m' ''include_usage'' \<and>
    (json_blank opts \<longrightarrow> m' = [(''include_usage'', ''true'')]) \<and>
    (\<forall>m. decode_json_raw_object opts = Some m \<longrightarrow>
      (if mhas m ''include_usage'' then r = opts
       else \<forall>k. map_of m' k =
         (if k = ''include_usage'' then Some ''true'' else map_option compact (map_of m k))))"
proof (cases "json_blank opts")
  case True
  have "decode_json_raw_object opts = None"
  proof (rule ccontr)
    assume "decode_json_raw_object opts \<noteq> None"
    then obtain m where "decode_json_raw_object opts = Some m" by auto
    then obtain w1 v w2 ms where v: "opts = w1 @ v @ w2" "jobject 0 ms v" "all_ws w1"
      by (rule decode_json_raw_object_sound)
    from v(2) have "hd v = CHR ''{''" "v \<noteq> []" by (auto simp: jobject_def)
    moreover have "opts = ''null''"
      using assms(1) True calculation v jvalue_blank by auto
    ultimately show False using v(1,3) by (cases w1; cases v) (auto simp: all_ws_def json_ws_def)
  qed
  moreover have "r = ''{\"include_usage\":true}''"
    using assms(2) True by (simp add: ensure_include_usage_def)
  ultimately show ?thesis by (simp add: usage_literal_decode mhas_def)
next
  case False
  with assms obtain m where m: "jvalue 1 opts" "decode_json_raw_object opts = Some m"
    by (auto simp: ensure_include_usage_def bind_eq_Some_conv split: if_splits)
  show ?thesis
  proof (cases "mhas m ''include_usage''")
    case True
    with m False assms(2) show ?thesis by (auto simp: ensure_include_usage_def)
  next
    case no: False
    with m False assms(2)
    have "encode_json_raw_object (mset_key ''include_usage'' ''true'' m) = Some r"
      by (simp add: ensure_include_usage_def)
    from nested_codec.edit_lookup [OF m jvalue_true _ this] no m False
    show ?thesis by (auto simp: mhas_def simp del: compact.simps)
  qed
qed

subsection \<open>The rewritten body\<close>

definition rewritten_map :: "string gomap \<Rightarrow> string \<Rightarrow> string gomap" where
  "rewritten_map raw up = (if up \<noteq> [] then mset_key ''model'' (encode_string up) raw else raw)"

lemma rewrite_request_eq:
  "rewrite_request body up stream inject =
    (case decode_json_raw_object body of
       None \<Rightarrow> None
     | Some raw \<Rightarrow>
         if stream \<and> inject
         then (case ensure_include_usage (mget raw ''stream_options'') of
                 None \<Rightarrow> None
               | Some opts \<Rightarrow>
                   encode_json_raw_object (mset_key ''stream_options'' opts (rewritten_map raw up)))
         else encode_json_raw_object (rewritten_map raw up))"
  by (simp add: rewrite_request_def rewritten_map_def Let_def split: option.splits)

lemma raw_map_mget: "raw_map d m \<Longrightarrow> mget m k = [] \<or> jvalue d (mget m k)"
  by (auto simp: mget_def dest: raw_map_get split: option.splits)

lemma raw_map_rewritten: "raw_map d m \<Longrightarrow> raw_map d (rewritten_map m up)"
  by (simp add: rewritten_map_def raw_map_update jvalue_encode_string valid_utf8_ascii)

lemma rewrite_request_map:
  assumes "rewrite_request body up stream inject = Some out" "decode_json_raw_object body = Some raw"
  obtains m opts where "raw_map 1 m" "encode_json_raw_object m = Some out"
    "stream \<and> inject \<longrightarrow> ensure_include_usage (mget raw ''stream_options'') = Some opts"
    "m = (if stream \<and> inject then mset_key ''stream_options'' opts (rewritten_map raw up)
          else rewritten_map raw up)"
proof -
  have raw: "raw_map 1 raw" using assms(2) by (rule decode_raw_map)
  show ?thesis
  proof (cases "stream \<and> inject")
    case True
    with assms obtain opts where o: "ensure_include_usage (mget raw ''stream_options'') = Some opts"
        "encode_json_raw_object (mset_key ''stream_options'' opts (rewritten_map raw up)) = Some out"
      by (auto simp: rewrite_request_eq split: option.splits)
    then have "jvalue 1 opts" using ensure_include_usage_text raw_map_mget [OF raw] by blast
    then have "raw_map 1 (mset_key ''stream_options'' opts (rewritten_map raw up))"
      by (simp add: raw_map_update raw_map_rewritten raw valid_utf8_ascii)
    with that o True show ?thesis by simp
  next
    case False
    with assms that raw_map_rewritten [OF raw] show ?thesis
      by (auto simp: rewrite_request_eq split: if_splits)
  qed
qed

lemma compact_idem [simp]:
  "compact (compact s) = compact s" "compact_in (compact_in s) = compact_in s"
  by (induction s and s rule: compact_compact_in.induct) (auto split: list.splits)

lemma jvalue_compact_cases:
  assumes "jvalue d v"
  shows "compact v = v \<or> hd v \<in> {CHR ''{'', CHR 0x5B} \<and> hd (compact v) = hd v"
  using assms compact_head [of v]
  by (cases rule: jvalue.cases)
    (auto simp: compact_num_text simp del: compact.simps intro: compact_lit compact_str)

lemma bracket_not_scalar:
  assumes "jvalue d v" "hd v \<in> {CHR ''{'', CHR 0x5B}"
  shows "raw_json_string v = None" "raw_json_bool v = None"
proof -
  obtain c u where v: "v = c # u" "c \<in> {CHR ''{'', CHR 0x5B}"
    using assms grammar_heads(1) by (cases v) auto
  then have "v \<noteq> ''null''" by auto
  then have b: "\<not> json_blank v" using jvalue_blank [OF assms(1)] by blast
  show "raw_json_string v = None"
    using v b jvalue_skip_ws [OF assms(1)] by (auto simp: raw_json_string_def)
  show "raw_json_bool v = None"
    using v b jvalue_json_trim [OF assms(1)] by (auto simp: raw_json_bool_def)
qed

lemma raw_scalar_compact:
  assumes "jvalue d v"
  shows "raw_json_string (compact v) = raw_json_string v"
    and "raw_json_bool (compact v) = raw_json_bool v"
  using jvalue_compact_cases [OF assms] bracket_not_scalar [OF assms]
    bracket_not_scalar [OF grammar_compact(1) [OF assms]] by auto

lemma mget_compact:
  "\<forall>k. map_of m' k = map_option compact (map_of m k) \<Longrightarrow> mget m' k = compact (mget m k)"
  by (simp add: mget_def split: option.splits)

lemma sanitize_eq_Nil [simp]: "sanitize s = [] \<longleftrightarrow> s = []"
  by (subst sanitize.simps) simp

lemma rewrite_request_lookup:
  assumes "decode_json_raw_object body = Some raw"
    and "rewrite_request body up stream inject = Some out"
  obtains raw' opts where "decode_json_raw_object out = Some raw'"
    "stream \<and> inject \<longrightarrow> ensure_include_usage (mget raw ''stream_options'') = Some opts"
    "\<forall>k. map_of raw' k =
      (if k = ''stream_options'' \<and> stream \<and> inject then Some (compact opts)
       else if k = ''model'' \<and> up \<noteq> [] then Some (encode_string up)
       else map_option compact (map_of raw k))"
proof -
  from assms(2,1) obtain m opts where m: "raw_map 1 m" "encode_json_raw_object m = Some out"
      "stream \<and> inject \<longrightarrow> ensure_include_usage (mget raw ''stream_options'') = Some opts"
      "m = (if stream \<and> inject then mset_key ''stream_options'' opts (rewritten_map raw up)
            else rewritten_map raw up)"
    by (rule rewrite_request_map)
  from body_codec.dec_enc [OF m(1,2)] obtain raw' where
    "decode_json_raw_object out = Some raw'" "\<forall>k. map_of raw' k = map_option compact (map_of m k)"
    by blast
  moreover from this m(4) have "\<forall>k. map_of raw' k =
      (if k = ''stream_options'' \<and> stream \<and> inject then Some (compact opts)
       else if k = ''model'' \<and> up \<noteq> [] then Some (encode_string up)
       else map_option compact (map_of raw k))"
    by (auto simp: rewritten_map_def simp del: compact.simps)
  ultimately show ?thesis using m(3) that by blast
qed



text \<open>
  C29: a rewrite fails exactly when the body is not one JSON object, or when usage reporting is
  asked for and the caller's \<open>stream_options\<close> is neither missing, \<open>null\<close> nor an object.
\<close>

theorem rewrite_request_fails_iff:
  "rewrite_request body up stream inject = None \<longleftrightarrow>
    (case decode_json_raw_object body of
       None \<Rightarrow> True
     | Some raw \<Rightarrow> stream \<and> inject \<and> \<not> json_blank (mget raw ''stream_options'') \<and>
         decode_json_raw_object (mget raw ''stream_options'') = None)"
proof (cases "decode_json_raw_object body")
  case (Some raw)
  let ?o = "mget raw ''stream_options''"
  have raw: "raw_map 1 raw" using Some by (rule decode_raw_map)
  have o: "?o = [] \<or> jvalue 1 ?o" using raw by (rule raw_map_mget)
  have enc: "\<exists>s. encode_json_raw_object (rewritten_map raw up) = Some s"
    using encode_total [OF raw_map_rewritten [OF raw]] by simp
  have enc': "\<exists>s. encode_json_raw_object (mset_key ''stream_options'' r (rewritten_map raw up)) = Some s"
    if "ensure_include_usage ?o = Some r" for r
    using encode_total [OF raw_map_update [OF raw_map_rewritten [OF raw]
          ensure_include_usage_text [OF o that]]] by (simp add: valid_utf8_ascii)
  have "ensure_include_usage ?o = None \<longleftrightarrow> \<not> usage_options ?o"
    using ensure_include_usage_total [OF o]
    by (cases "decode_json_raw_object ?o") (auto simp: usage_options_def ensure_include_usage_def)
  with Some enc enc' show ?thesis
    by (auto simp: rewrite_request_eq usage_options_def split: option.splits if_splits)
qed (simp add: rewrite_request_eq)

text \<open>
  C24: what the gateway reads of a request survives the rewrite. The body sent upstream parses
  again, names the provider's model (the caller's own when the provider does not rename it,
  malformed UTF-8 replaced), and asks for streaming exactly when the caller did.
\<close>

theorem parse_rewritten:
  assumes "parse_request body = Inr meta"
    and "rewrite_request body up stream inject = Some out"
  shows "\<exists>meta'. parse_request out = Inr meta' \<and>
    Model meta' = (if up = [] then Model meta else sanitize up) \<and>
    Stream meta' = Stream meta \<and> Body meta' = out"
proof -
  obtain raw where raw: "decode_json_raw_object body = Some raw"
      "raw_json_string (mget raw ''model'') = Some (Model meta)" "Model meta \<noteq> []"
      "Stream meta = the_or False (raw_json_bool (mget raw ''stream''))"
    using assms(1) by (auto simp: parse_request_def split: option.splits if_splits)
  from raw(1) assms(2) obtain raw' opts where raw': "decode_json_raw_object out = Some raw'"
      "\<forall>k. map_of raw' k =
      (if k = ''stream_options'' \<and> stream \<and> inject then Some (compact opts)
       else if k = ''model'' \<and> up \<noteq> [] then Some (encode_string up)
       else map_option compact (map_of raw k))"
    by (rule rewrite_request_lookup)
  have m: "mget raw k = [] \<or> jvalue 1 (mget raw k)" for k
    using raw(1) decode_raw_map raw_map_mget by blast
  have s: "raw_json_string (compact (mget raw k)) = raw_json_string (mget raw k)"
    and b: "raw_json_bool (compact (mget raw k)) = raw_json_bool (mget raw k)" for k
    using m [of k] raw_scalar_compact by (auto simp del: compact.simps(2))
  have g: "mget raw' k = (if k = ''model'' \<and> up \<noteq> [] then encode_string up
      else compact (mget raw k))" if "k \<noteq> ''stream_options''" for k
    using raw'(2) that by (simp add: mget_def split: option.splits)
  have "raw_json_string (mget raw' ''model'') =
      Some (if up = [] then Model meta else sanitize up)"
    using raw(2) by (simp add: g s raw_json_string_encode)
  moreover have "raw_json_bool (mget raw' ''stream'') = raw_json_bool (mget raw ''stream'')"
    by (simp add: g b)
  ultimately show ?thesis
    using raw'(1) raw(3,4) by (simp add: parse_request_def)
qed

theorem parse_rewritten_witness:
  "\<exists>meta'. parse_request ''{\"model\":\"up\",\"stream\":true,\"stream_options\":{\"include_usage\":true}}''
      = Inr meta' \<and> Model meta' = ''up'' \<and> Stream meta'"
proof -
  have a: "parse_request ''{\"model\":\"a\",\"stream\":true}'' =
      Inr \<lparr>Model = ''a'', Stream = True, Body = ''{\"model\":\"a\",\"stream\":true}''\<rparr>" by code_simp
  have b: "rewrite_request ''{\"model\":\"a\",\"stream\":true}'' ''up'' True True = Some
      ''{\"model\":\"up\",\"stream\":true,\"stream_options\":{\"include_usage\":true}}''" by code_simp
  have c: "sanitize ''up'' = ''up''" by (simp add: sanitize_valid valid_utf8_ascii)
  note r = parse_rewritten [OF a b, unfolded c request_meta.simps if_not_P [OF list.distinct(2)]]
  show ?thesis
    by (rule ex_forward [OF r]) (elim conjE, intro conjI, assumption+, simp only: simp_thms)
qed

text \<open>
  Asking for usage never drops an option. A missing or \<open>null\<close> \<open>stream_options\<close> becomes
  exactly \<open>include_usage: true\<close>; an object that already says something about it, even
  \<open>false\<close>, is left as it is; any other object gains the one field.
\<close>

theorem ensure_include_usage_keeps:
  assumes "decode_json_raw_object body = Some raw"
    and "ensure_include_usage (mget raw k) = Some r"
  shows "\<exists>m'. decode_json_raw_object r = Some m' \<and> mhas m' ''include_usage'' \<and>
    (json_blank (mget raw k) \<longrightarrow> m' = [(''include_usage'', ''true'')]) \<and>
    (\<forall>m. decode_json_raw_object (mget raw k) = Some m \<longrightarrow>
      (if mhas m ''include_usage'' then r = mget raw k
       else \<forall>j. map_of m' j =
         (if j = ''include_usage'' then Some ''true'' else map_option compact (map_of m j))))"
  using assms(2)
  by (intro ensure_include_usage_fields raw_map_mget decode_raw_map [OF assms(1)])

theorem ensure_include_usage_keeps_witness:
  "\<exists>m'. decode_json_raw_object ''{\"a\":2,\"include_usage\":true}'' = Some m' \<and>
    mhas m' ''include_usage'' \<and> map_of m' ''a'' = Some ''2''"
proof -
  have a: "decode_json_raw_object ''{\"o\": {\"a\": 2}}'' = Some [(''o'', ''{\"a\": 2}'')]"
    by code_simp
  have b: "ensure_include_usage (mget [(''o'', ''{\"a\": 2}'')] ''o'') =
      Some ''{\"a\":2,\"include_usage\":true}''" by code_simp
  have c: "decode_json_raw_object (mget [(''o'', ''{\"a\": 2}'')] ''o'') = Some [(''a'', ''2'')]"
    "compact ''2'' = ''2''" by code_simp+
  show ?thesis using ensure_include_usage_keeps [OF a b] c by (auto simp: mhas_def dest: spec [of _ "''a''"] simp del: compact.simps)
qed

end
