(* ===== verification/ApiError.thy ===== *)
theory ApiError
  imports JsonValue Http
begin

text \<open>
  The JSON answers of \<^verbatim>\<open>server.go\<close>: \<open>write_json\<close> and the error body of each protocol,
  \<open>write_protocol_error\<close>. An error body is always one well-formed JSON object carrying the
  message and, where the protocol has it, the type.
\<close>

subsection \<open>Answers\<close>

definition write_json :: "int \<Rightarrow> json_value \<Rightarrow> 'a rw_scheme \<Rightarrow> 'a rw_scheme" where
  "write_json status v w =
    write_ignoring (encode_value v @ [CHR 0x0A])
      (write_header status (set_header ''Content-Type'' ''application/json; charset=utf-8'' w))"

definition api_error_body :: "string \<Rightarrow> string \<Rightarrow> json_value" where
  "api_error_body typ message =
    JMap [(''error'', JMap [(''message'', JStr message), (''type'', JStr typ)])]"

definition write_api_error :: "int \<Rightarrow> string \<Rightarrow> string \<Rightarrow> 'a rw_scheme \<Rightarrow> 'a rw_scheme" where
  "write_api_error status typ message = write_json status (api_error_body typ message)"

definition protocol_error_body :: "string \<Rightarrow> string \<Rightarrow> string \<Rightarrow> json_value" where
  "protocol_error_body protocol typ message =
    (if protocol = ''anthropic_messages'' then
       JMap [(''type'', JStr ''error''), (''error'', JMap [(''type'', JStr typ), (''message'', JStr message)])]
     else if protocol = ''bailian_multimodal_embedding'' then
       JMap [(''code'', JStr typ), (''message'', JStr message)]
     else if protocol = ''ollama_chat'' then
       JMap [(''error'', JStr message)]
     else if protocol = ''typesafe_systemone'' then
       (if typ = ''authentication_error''
        then JMap [(''detail'', JMap [(''error_type'', JStr typ), (''message'', JStr message)])]
        else JMap [(''detail'', JStr message)])
     else api_error_body typ message)"

definition write_protocol_error ::
  "string \<Rightarrow> int \<Rightarrow> string \<Rightarrow> string \<Rightarrow> 'a rw_scheme \<Rightarrow> 'a rw_scheme" where
  "write_protocol_error protocol status typ message =
    write_json status (protocol_error_body protocol typ message)"

subsection \<open>Error bodies\<close>

text \<open>Where a client of each protocol finds the message.\<close>

definition error_message :: "string \<Rightarrow> string \<Rightarrow> string option" where
  "error_message protocol body =
    do {
      m \<leftarrow> decode_json_raw_object body;
      if protocol = ''bailian_multimodal_embedding'' then raw_json_string (mget m ''message'')
      else if protocol = ''ollama_chat'' then raw_json_string (mget m ''error'')
      else if protocol = ''typesafe_systemone'' then
        (case decode_json_raw_object (mget m ''detail'') of
           Some n \<Rightarrow> raw_json_string (mget n ''message'')
         | None \<Rightarrow> raw_json_string (mget m ''detail''))
      else do {
        n \<leftarrow> decode_json_raw_object (mget m ''error'');
        raw_json_string (mget n ''message'')
      }
    }"

lemma error_message_body:
  "error_message protocol (encode_value (protocol_error_body protocol typ message) @ [CHR 0x0A]) =
    Some (sanitize message)"
  by (simp add: error_message_def protocol_error_body_def api_error_body_def decode_map_value'
      decode_string_None mget_def raw_json_string_encode max_nesting_def)

lemma value_depth_error: "int (value_depth (protocol_error_body protocol typ message)) \<le> 2"
  by (simp add: protocol_error_body_def api_error_body_def)

text \<open>
  An error answer. On a writer that has sent nothing, it sends the given status with a JSON
  content type, and its body is one JSON value from which a client of the protocol reads the
  message back (malformed UTF-8 in it replaced).
\<close>

theorem write_protocol_error_message:
  assumes "rw_sent w = None" "rw_room w = None" "body_allowed status"
  shows "\<exists>text. rw_body (write_protocol_error protocol status typ message w) = rw_body w @ text \<and>
    rw_sent (write_protocol_error protocol status typ message w) =
      Some (status, header_set ''Content-Type'' ''application/json; charset=utf-8'' (rw_header w)) \<and>
    error_message protocol text = Some (sanitize message) \<and> valid_json text"
proof -
  let ?v = "protocol_error_body protocol typ message" and ?t = "\<lambda>v. encode_value v @ [CHR 0x0A]"
  have "jvalue 0 (encode_value ?v)"
    using value_depth_error [of protocol "typ" message]
    by (intro encode_value_jvalue) (simp add: max_nesting_def)
  note j = this
  have n: "num_delim [CHR 0x0A]" "skip_ws [CHR 0x0A] = []"
    by (simp_all add: skip_ws_def json_ws_def num_char_def is_digit_def)
  have "skip_ws (?t ?v) = ?t ?v" using grammar_heads(1) [OF j] by (intro skip_ws_text) auto
  then have "valid_json (?t ?v)"
    using scan_value_complete [OF j, of "Suc (length (?t ?v))" "[CHR 0x0A]"] n
    by (simp add: valid_json_def)
  with assms error_message_body [of protocol "typ" message] show ?thesis
    by (intro exI [of _ "?t ?v"])
      (simp add: write_protocol_error_def write_json_def rw_write_def write_header_def
        set_header_def Let_def)
qed

theorem write_protocol_error_message_witness:
  "\<exists>text. rw_body (write_protocol_error ''ollama_chat'' 404 ''t'' ''no'' fresh_rw) = text \<and>
    error_message ''ollama_chat'' text = Some ''no''"
proof -
  have s: "sanitize ''no'' = ''no''" by (simp add: sanitize_valid valid_utf8_ascii)
  have "rw_sent fresh_rw = None" "rw_room fresh_rw = None" "body_allowed 404"
    by (simp_all add: fresh_rw_def body_allowed_def)
  from write_protocol_error_message [OF this, of "''ollama_chat''" "''t''" "''no''"] show ?thesis
    unfolding s by (auto simp: fresh_rw_def)
qed

end
