(* ===== verification/Config.thy ===== *)
theory Config
  imports GoStrings
begin

text \<open>
  \<^verbatim>\<open>config.go\<close>: the configuration, its validation, and the lookups the server makes in it:
  \<open>validate\<close> with every error it returns, \<open>providers_for\<close> (the providers a model may use
  for a protocol, in order) and \<open>resolve\<close> (the URL, model name and headers of one). A nil
  \<^verbatim>\<open>*Config\<close> is \<open>None\<close>. \<^verbatim>\<open>url.Parse\<close> is the parameter \<open>url_parse\<close> (scheme and host, or an
  error), the MySQL driver's DSN parser the parameter \<open>dsn_ok\<close>.
\<close>

subsection \<open>Data\<close>

record retain_duration =
  rd_set :: bool
  rd_d :: int

record admin_config =
  Username :: string
  Password :: string

record api_key =
  KeyName :: string
  KeyValue :: string

record provider_ref =
  RefName :: string
  RefModel :: string
  Protocols :: "string list"

record model_config =
  ModelName :: string
  ModelProviders :: "provider_ref list"

record provider_endpoint =
  URL :: string
  EpModel :: string
  EpHeaders :: "string gomap"

record provider =
  ProvName :: string
  ProvModel :: string
  ProvHeaders :: "string gomap"
  OpenAICompletions :: "provider_endpoint option"
  OpenAIResponses :: "provider_endpoint option"
  OpenAIEmbeddings :: "provider_endpoint option"
  AnthropicMessages :: "provider_endpoint option"
  BailianMultimodalEmbedding :: "provider_endpoint option"
  OllamaChat :: "provider_endpoint option"
  TypeSafeSystemOne :: "provider_endpoint option"

record config =
  DSN :: string
  DetailRetain :: retain_duration
  Admin :: admin_config
  APIKeys :: "api_key list"
  Providers :: "provider list"
  Models :: "model_config list"

abbreviation protocolOpenAICompletions :: string where
  "protocolOpenAICompletions \<equiv> ''openai_completions''"
abbreviation protocolOpenAIResponses :: string where
  "protocolOpenAIResponses \<equiv> ''openai_responses''"
abbreviation protocolOpenAIEmbeddings :: string where
  "protocolOpenAIEmbeddings \<equiv> ''openai_embeddings''"
abbreviation protocolAnthropicMessages :: string where
  "protocolAnthropicMessages \<equiv> ''anthropic_messages''"
abbreviation protocolBailianMultimodalEmbedding :: string where
  "protocolBailianMultimodalEmbedding \<equiv> ''bailian_multimodal_embedding''"
abbreviation protocolOllamaChat :: string where
  "protocolOllamaChat \<equiv> ''ollama_chat''"
abbreviation protocolTypeSafeSystemOne :: string where
  "protocolTypeSafeSystemOne \<equiv> ''typesafe_systemone''"

definition known_protocols :: "string list" where
  "known_protocols = [protocolOpenAICompletions, protocolOpenAIResponses, protocolOpenAIEmbeddings,
    protocolAnthropicMessages, protocolBailianMultimodalEmbedding, protocolOllamaChat,
    protocolTypeSafeSystemOne]"

text \<open>Durations are nanoseconds; the default is a week.\<close>

definition default_detail_retain :: int where
  "default_detail_retain = 168 * 3600 * 1000000000"

definition detail_retain :: "config \<Rightarrow> int" where
  "detail_retain c = (if \<not> rd_set (DetailRetain c) then default_detail_retain else rd_d (DetailRetain c))"

subsection \<open>Durations\<close>

text \<open>
  \<open>float_days\<close>: \<^verbatim>\<open>strconv.ParseFloat\<close> of a number of days, scaled to nanoseconds and
  converted to a \<^verbatim>\<open>time.Duration\<close>; \<open>parse_duration\<close>: \<^verbatim>\<open>time.ParseDuration\<close>.
\<close>

datatype duration_error = InvalidDuration | NegativeDuration | NotScalar

definition parse_retain_duration ::
  "(string \<Rightarrow> int option) \<Rightarrow> (string \<Rightarrow> int option) \<Rightarrow> string \<Rightarrow> duration_error + int" where
  "parse_retain_duration float_days parse_duration s0 =
    (let s = trim_space s0 in
     if s = [] then Inl InvalidDuration
     else if s = ''0'' then Inr 0
     else
       (case (if last s = CHR ''d''
              then if butlast s = [] then None else float_days (butlast s)
              else parse_duration s) of
          None \<Rightarrow> Inl InvalidDuration
        | Some d \<Rightarrow> if d < 0 then Inl NegativeDuration else Inr d))"

record yaml_node =
  node_scalar :: bool
  node_tag :: string
  node_value :: string

definition unmarshal_retain ::
  "(string \<Rightarrow> int option) \<Rightarrow> (string \<Rightarrow> int option) \<Rightarrow> retain_duration \<Rightarrow> yaml_node \<Rightarrow>
    duration_error + retain_duration" where
  "unmarshal_retain float_days parse_duration r value =
    (if \<not> node_scalar value then Inl NotScalar
     else if node_tag value = ''!!null'' \<or> trim_space (node_value value) = [] then Inr r
     else (case parse_retain_duration float_days parse_duration (node_value value) of
             Inl e \<Rightarrow> Inl e
           | Inr d \<Rightarrow> Inr \<lparr>rd_set = True, rd_d = d\<rparr>))"

subsection \<open>Endpoints\<close>

definition is_known_protocol :: "string \<Rightarrow> bool" where
  "is_known_protocol protocol = (protocol \<in> set known_protocols)"

definition endpoint :: "provider \<Rightarrow> string \<Rightarrow> provider_endpoint option" where
  "endpoint p protocol =
    (if protocol = protocolOpenAICompletions then OpenAICompletions p
     else if protocol = protocolOpenAIResponses then OpenAIResponses p
     else if protocol = protocolOpenAIEmbeddings then OpenAIEmbeddings p
     else if protocol = protocolAnthropicMessages then AnthropicMessages p
     else if protocol = protocolBailianMultimodalEmbedding then BailianMultimodalEmbedding p
     else if protocol = protocolOllamaChat then OllamaChat p
     else if protocol = protocolTypeSafeSystemOne then TypeSafeSystemOne p
     else None)"

definition keep_if :: "bool \<Rightarrow> 'a option \<Rightarrow> 'a option" where
  "keep_if b x = (if b then x else None)"

definition bind_ref :: "provider \<Rightarrow> provider_ref \<Rightarrow> provider" where
  "bind_ref p ref =
    (let allowed = set (Protocols ref) in
     p\<lparr>ProvModel := (if RefModel ref \<noteq> [] then RefModel ref else ProvModel p),
       OpenAICompletions := keep_if (protocolOpenAICompletions \<in> allowed) (OpenAICompletions p),
       OpenAIResponses := keep_if (protocolOpenAIResponses \<in> allowed) (OpenAIResponses p),
       OpenAIEmbeddings := keep_if (protocolOpenAIEmbeddings \<in> allowed) (OpenAIEmbeddings p),
       AnthropicMessages := keep_if (protocolAnthropicMessages \<in> allowed) (AnthropicMessages p),
       BailianMultimodalEmbedding :=
         keep_if (protocolBailianMultimodalEmbedding \<in> allowed) (BailianMultimodalEmbedding p),
       OllamaChat := keep_if (protocolOllamaChat \<in> allowed) (OllamaChat p),
       TypeSafeSystemOne := keep_if (protocolTypeSafeSystemOne \<in> allowed) (TypeSafeSystemOne p)\<rparr>)"

definition merge_headers :: "string gomap \<Rightarrow> string gomap \<Rightarrow> string gomap" where
  "merge_headers base over =
    (if base = [] \<and> over = [] then []
     else foldl (\<lambda>m (k, v). mset_key k v m) (foldl (\<lambda>m (k, v). mset_key k v m) [] base) over)"

text \<open>The four results of \<^verbatim>\<open>resolve\<close>; \<open>None\<close> is \<^verbatim>\<open>ok = false\<close> with the zero values.\<close>

definition resolve :: "provider \<Rightarrow> string \<Rightarrow> (string \<times> string \<times> string gomap) option" where
  "resolve p protocol =
    (case endpoint p protocol of
       None \<Rightarrow> None
     | Some ep \<Rightarrow>
         let model = EpModel ep in
         Some (URL ep, if model = [] then ProvModel p else model,
               merge_headers (ProvHeaders p) (EpHeaders ep)))"

subsection \<open>Validation\<close>

datatype config_error =
    NoApiKeys
  | KeyNameRequired nat
  | KeyValueRequired nat
  | DupKeyName string
  | DupKeyValue string
  | NoProviders
  | ProviderNameRequired nat
  | DupProvider string
  | NoEndpoint string
  | UrlRequired string string
  | UrlInvalid string string
  | UrlNotHttp string string
  | NoModels
  | ModelNameRequired nat
  | DupModel string
  | NoModelProviders string
  | RefNameRequired string nat
  | DupRef string string
  | UnknownProvider string string
  | ProtocolsRequired string string
  | InvalidProtocol string string nat string
  | DupProtocol string string string
  | NoProtocolBlock string string string
  | DsnRequired
  | DsnInvalid
  | RetainNegative
  | AdminUsernameRequired
  | AdminPasswordRequired

text \<open>
  A Go \<^verbatim>\<open>error\<close> is an option, \<open>None\<close> for nil. The loops carry the index and the sets of
  names seen so far.
\<close>

fun validate_keys :: "nat \<Rightarrow> string list \<Rightarrow> string list \<Rightarrow> api_key list \<Rightarrow> config_error option" where
  "validate_keys i names vals [] = None"
| "validate_keys i names vals (k # ks) =
    (if KeyName k = [] then Some (KeyNameRequired i)
     else if KeyValue k = [] then Some (KeyValueRequired i)
     else if KeyName k \<in> set names then Some (DupKeyName (KeyName k))
     else if KeyValue k \<in> set vals then Some (DupKeyValue (KeyName k))
     else validate_keys (Suc i) (KeyName k # names) (KeyValue k # vals) ks)"

definition validate_http_url ::
  "(string \<Rightarrow> (string \<times> string) option) \<Rightarrow> string \<Rightarrow> string \<Rightarrow> string \<Rightarrow> config_error option" where
  "validate_http_url url_parse prov protocol raw =
    (let what = (if protocol \<noteq> [] then protocol @ '' url'' else ''url'') in
     if raw = [] then Some (UrlRequired prov what)
     else (case url_parse raw of
             None \<Rightarrow> Some (UrlInvalid prov what)
           | Some (scheme, host) \<Rightarrow>
               if (scheme \<noteq> ''http'' \<and> scheme \<noteq> ''https'') \<or> host = []
               then Some (UrlNotHttp prov what) else None))"

definition validate_endpoint_url ::
  "(string \<Rightarrow> (string \<times> string) option) \<Rightarrow> string \<Rightarrow> string \<Rightarrow> provider_endpoint option \<Rightarrow>
    config_error option" where
  "validate_endpoint_url url_parse prov protocol ep =
    (case ep of None \<Rightarrow> None | Some ep \<Rightarrow> validate_http_url url_parse prov protocol (URL ep))"

fun validate_endpoints ::
  "(string \<Rightarrow> (string \<times> string) option) \<Rightarrow> string \<Rightarrow> (string \<times> provider_endpoint option) list \<Rightarrow>
    config_error option" where
  "validate_endpoints url_parse prov [] = None"
| "validate_endpoints url_parse prov ((protocol, ep) # items) =
    (case validate_endpoint_url url_parse prov protocol ep of
       Some e \<Rightarrow> Some e
     | None \<Rightarrow> validate_endpoints url_parse prov items)"

definition endpoint_items :: "provider \<Rightarrow> (string \<times> provider_endpoint option) list" where
  "endpoint_items p =
    [(protocolOpenAICompletions, OpenAICompletions p),
     (protocolOpenAIResponses, OpenAIResponses p),
     (protocolOpenAIEmbeddings, OpenAIEmbeddings p),
     (protocolAnthropicMessages, AnthropicMessages p),
     (protocolBailianMultimodalEmbedding, BailianMultimodalEmbedding p),
     (protocolOllamaChat, OllamaChat p),
     (protocolTypeSafeSystemOne, TypeSafeSystemOne p)]"

definition validate_provider ::
  "(string \<Rightarrow> (string \<times> string) option) \<Rightarrow> provider \<Rightarrow> config_error option" where
  "validate_provider url_parse p =
    (if OpenAICompletions p = None \<and> OpenAIResponses p = None \<and> OpenAIEmbeddings p = None \<and>
        AnthropicMessages p = None \<and> BailianMultimodalEmbedding p = None \<and> OllamaChat p = None \<and>
        TypeSafeSystemOne p = None
     then Some (NoEndpoint (ProvName p))
     else validate_endpoints url_parse (ProvName p) (endpoint_items p))"

text \<open>The provider loop also fills \<^verbatim>\<open>byName\<close>, the last component of its result.\<close>

fun validate_providers ::
  "(string \<Rightarrow> (string \<times> string) option) \<Rightarrow> nat \<Rightarrow> provider gomap \<Rightarrow> provider list \<Rightarrow>
    config_error + provider gomap" where
  "validate_providers url_parse i by_name [] = Inr by_name"
| "validate_providers url_parse i by_name (p # ps) =
    (if ProvName p = [] then Inl (ProviderNameRequired i)
     else if mhas by_name (ProvName p) then Inl (DupProvider (ProvName p))
     else (case validate_provider url_parse p of
             Some e \<Rightarrow> Inl e
           | None \<Rightarrow> validate_providers url_parse (Suc i) (mset_key (ProvName p) p by_name) ps))"

fun validate_protocols ::
  "string \<Rightarrow> string \<Rightarrow> provider \<Rightarrow> nat \<Rightarrow> string list \<Rightarrow> string list \<Rightarrow> config_error option" where
  "validate_protocols m r p k seen [] = None"
| "validate_protocols m r p k seen (protocol # ps) =
    (if \<not> is_known_protocol protocol then Some (InvalidProtocol m r k protocol)
     else if protocol \<in> set seen then Some (DupProtocol m r protocol)
     else if endpoint p protocol = None then Some (NoProtocolBlock m r protocol)
     else validate_protocols m r p (Suc k) (protocol # seen) ps)"

fun validate_refs ::
  "provider gomap \<Rightarrow> string \<Rightarrow> nat \<Rightarrow> string list \<Rightarrow> provider_ref list \<Rightarrow> config_error option" where
  "validate_refs by_name m j seen [] = None"
| "validate_refs by_name m j seen (r # rs) =
    (if RefName r = [] then Some (RefNameRequired m j)
     else if RefName r \<in> set seen then Some (DupRef m (RefName r))
     else (case map_of by_name (RefName r) of
             None \<Rightarrow> Some (UnknownProvider m (RefName r))
           | Some p \<Rightarrow>
               if Protocols r = [] then Some (ProtocolsRequired m (RefName r))
               else (case validate_protocols m (RefName r) p 0 [] (Protocols r) of
                       Some e \<Rightarrow> Some e
                     | None \<Rightarrow> validate_refs by_name m (Suc j) (RefName r # seen) rs)))"

fun validate_models ::
  "provider gomap \<Rightarrow> nat \<Rightarrow> string list \<Rightarrow> model_config list \<Rightarrow> config_error option" where
  "validate_models by_name i seen [] = None"
| "validate_models by_name i seen (m # ms) =
    (if ModelName m = [] then Some (ModelNameRequired i)
     else if ModelName m \<in> set seen then Some (DupModel (ModelName m))
     else if ModelProviders m = [] then Some (NoModelProviders (ModelName m))
     else (case validate_refs by_name (ModelName m) 0 [] (ModelProviders m) of
             Some e \<Rightarrow> Some e
           | None \<Rightarrow> validate_models by_name (Suc i) (ModelName m # seen) ms))"

definition validate ::
  "(string \<Rightarrow> (string \<times> string) option) \<Rightarrow> (string \<Rightarrow> bool) \<Rightarrow> config option \<Rightarrow>
    config_error + config" where
  "validate url_parse dsn_ok cfg =
    (case cfg of
       None \<Rightarrow> Inl NoApiKeys
     | Some c \<Rightarrow>
         if APIKeys c = [] then Inl NoApiKeys
         else (case validate_keys 0 [] [] (APIKeys c) of Some e \<Rightarrow> Inl e | None \<Rightarrow>
         if Providers c = [] then Inl NoProviders
         else (case validate_providers url_parse 0 [] (Providers c) of Inl e \<Rightarrow> Inl e | Inr by_name \<Rightarrow>
         if Models c = [] then Inl NoModels
         else (case validate_models by_name 0 [] (Models c) of Some e \<Rightarrow> Inl e | None \<Rightarrow>
         if trim_space (DSN c) = [] then Inl DsnRequired
         else if \<not> dsn_ok (DSN c) then Inl DsnInvalid
         else if rd_set (DetailRetain c) \<and> rd_d (DetailRetain c) < 0 then Inl RetainNegative
         else
           let c = c\<lparr>Admin := (Admin c)\<lparr>Username := trim_space (Username (Admin c))\<rparr>\<rparr> in
           if Username (Admin c) = [] then Inl AdminUsernameRequired
           else if Password (Admin c) = [] then Inl AdminPasswordRequired
           else Inr c))))"

subsection \<open>Lookups\<close>

fun find_model :: "model_config list \<Rightarrow> string \<Rightarrow> model_config option" where
  "find_model [] name = None"
| "find_model (m # ms) name = (if ModelName m = name then Some m else find_model ms name)"

definition model_of :: "config option \<Rightarrow> string \<Rightarrow> model_config option" where
  "model_of c name = (case c of None \<Rightarrow> None | Some c \<Rightarrow> find_model (Models c) name)"

fun find_provider :: "provider list \<Rightarrow> string \<Rightarrow> provider option" where
  "find_provider [] name = None"
| "find_provider (p # ps) name = (if ProvName p = name then Some p else find_provider ps name)"

definition provider_of :: "config option \<Rightarrow> string \<Rightarrow> provider option" where
  "provider_of c name = (case c of None \<Rightarrow> None | Some c \<Rightarrow> find_provider (Providers c) name)"

fun bind_refs :: "config option \<Rightarrow> provider_ref list \<Rightarrow> provider list" where
  "bind_refs c [] = []"
| "bind_refs c (ref # refs) =
    (case provider_of c (RefName ref) of
       None \<Rightarrow> bind_refs c refs
     | Some p \<Rightarrow> bind_ref p ref # bind_refs c refs)"

definition providers :: "config option \<Rightarrow> string \<Rightarrow> provider list" where
  "providers c model =
    (case model_of c model of None \<Rightarrow> [] | Some m \<Rightarrow> bind_refs c (ModelProviders m))"

definition providers_for :: "config option \<Rightarrow> string \<Rightarrow> string \<Rightarrow> provider list" where
  "providers_for c model protocol = filter (\<lambda>p. endpoint p protocol \<noteq> None) (providers c model)"

definition model_names :: "config option \<Rightarrow> string list" where
  "model_names c = (case c of None \<Rightarrow> [] | Some c \<Rightarrow> map ModelName (Models c))"

subsection \<open>Lookup by name\<close>

text \<open>
  What the lookups promise: the first element with the key, if any. With distinct keys, every
  element is the one its key finds.
\<close>

locale keyed_lookup =
  fixes key :: "'a \<Rightarrow> string" and look :: "'a list \<Rightarrow> string \<Rightarrow> 'a option"
  assumes hit: "look xs k = Some x \<Longrightarrow> x \<in> set xs \<and> key x = k"
    and miss: "look xs k = None \<Longrightarrow> k \<notin> key ` set xs"
begin

lemma present: "look xs k \<noteq> None \<longleftrightarrow> k \<in> key ` set xs"
  using hit miss by (cases "look xs k") force+

lemma look_distinct:
  assumes "distinct (map key xs)" "x \<in> set xs"
  shows "look xs (key x) = Some x"
proof (cases "look xs (key x)")
  case None
  with miss assms(2) show ?thesis by blast
next
  case (Some y)
  with hit have "y \<in> set xs" "key y = key x" by blast+
  with assms Some show ?thesis by (auto simp: distinct_map dest: inj_onD)
qed

end

lemma find_model_hit: "find_model ms k = Some m \<Longrightarrow> m \<in> set ms \<and> ModelName m = k"
  by (induction ms) (auto split: if_splits)

lemma find_provider_hit: "find_provider ps k = Some p \<Longrightarrow> p \<in> set ps \<and> ProvName p = k"
  by (induction ps) (auto split: if_splits)

interpretation model_lookup: keyed_lookup ModelName find_model
proof
  show "k \<notin> ModelName ` set ms" if "find_model ms k = None" for ms k
    using that by (induction ms) (auto split: if_splits)
qed (rule find_model_hit)

interpretation provider_lookup: keyed_lookup ProvName find_provider
proof
  show "k \<notin> ProvName ` set ps" if "find_provider ps k = None" for ps k
    using that by (induction ps) (auto split: if_splits)
qed (rule find_provider_hit)

subsection \<open>What validation accepts\<close>

definition url_ok :: "(string \<Rightarrow> (string \<times> string) option) \<Rightarrow> string \<Rightarrow> bool" where
  "url_ok url_parse raw \<longleftrightarrow> raw \<noteq> [] \<and>
    (\<exists>scheme host. url_parse raw = Some (scheme, host) \<and> scheme \<in> {''http'', ''https''} \<and> host \<noteq> [])"

definition wf_provider :: "(string \<Rightarrow> (string \<times> string) option) \<Rightarrow> provider \<Rightarrow> bool" where
  "wf_provider url_parse p \<longleftrightarrow> (\<exists>protocol. endpoint p protocol \<noteq> None) \<and>
    (\<forall>protocol ep. endpoint p protocol = Some ep \<longrightarrow> url_ok url_parse (URL ep))"

definition wf_ref :: "provider list \<Rightarrow> provider_ref \<Rightarrow> bool" where
  "wf_ref ps r \<longleftrightarrow> RefName r \<noteq> [] \<and> Protocols r \<noteq> [] \<and> distinct (Protocols r) \<and>
    (\<exists>p \<in> set ps. ProvName p = RefName r \<and>
      (\<forall>protocol \<in> set (Protocols r). is_known_protocol protocol \<and> endpoint p protocol \<noteq> None))"

definition wf_model :: "provider list \<Rightarrow> model_config \<Rightarrow> bool" where
  "wf_model ps m \<longleftrightarrow> ModelName m \<noteq> [] \<and> ModelProviders m \<noteq> [] \<and>
    distinct (map RefName (ModelProviders m)) \<and> (\<forall>r \<in> set (ModelProviders m). wf_ref ps r)"

definition wf_routes :: "(string \<Rightarrow> (string \<times> string) option) \<Rightarrow> config \<Rightarrow> bool" where
  "wf_routes url_parse c \<longleftrightarrow>
    Providers c \<noteq> [] \<and> distinct (map ProvName (Providers c)) \<and>
    (\<forall>p \<in> set (Providers c). ProvName p \<noteq> [] \<and> wf_provider url_parse p) \<and>
    Models c \<noteq> [] \<and> distinct (map ModelName (Models c)) \<and>
    (\<forall>m \<in> set (Models c). wf_model (Providers c) m)"

definition well_formed ::
  "(string \<Rightarrow> (string \<times> string) option) \<Rightarrow> (string \<Rightarrow> bool) \<Rightarrow> config \<Rightarrow> bool" where
  "well_formed url_parse dsn_ok c \<longleftrightarrow>
    APIKeys c \<noteq> [] \<and> distinct (map KeyName (APIKeys c)) \<and> distinct (map KeyValue (APIKeys c)) \<and>
    (\<forall>k \<in> set (APIKeys c). KeyName k \<noteq> [] \<and> KeyValue k \<noteq> []) \<and>
    wf_routes url_parse c \<and>
    trim_space (DSN c) \<noteq> [] \<and> dsn_ok (DSN c) \<and> 0 \<le> detail_retain c \<and>
    trim_space (Username (Admin c)) \<noteq> [] \<and> Password (Admin c) \<noteq> []"

lemma validate_keys_None:
  "validate_keys i names vals ks = None \<longleftrightarrow>
    (\<forall>k \<in> set ks. KeyName k \<noteq> [] \<and> KeyValue k \<noteq> []) \<and>
    set names \<inter> KeyName ` set ks = {} \<and> set vals \<inter> KeyValue ` set ks = {} \<and>
    distinct (map KeyName ks) \<and> distinct (map KeyValue ks)"
  by (induction i names vals ks rule: validate_keys.induct) (simp_all, blast)

lemma validate_http_url_None: "validate_http_url up prov protocol raw = None \<longleftrightarrow> url_ok up raw"
  by (auto simp: validate_http_url_def url_ok_def Let_def split: option.splits)

lemma validate_endpoint_url_None:
  "validate_endpoint_url up prov protocol ep = None \<longleftrightarrow> (\<forall>e. ep = Some e \<longrightarrow> url_ok up (URL e))"
  by (simp add: validate_endpoint_url_def validate_http_url_None split: option.splits)

lemma validate_endpoints_None:
  "validate_endpoints up prov items = None \<longleftrightarrow>
    (\<forall>(protocol, ep) \<in> set items. \<forall>e. ep = Some e \<longrightarrow> url_ok up (URL e))"
proof (induction up prov items rule: validate_endpoints.induct)
  case (2 up prov protocol ep items)
  then show ?case
    using validate_endpoint_url_None [of up prov protocol ep]
    by (cases "validate_endpoint_url up prov protocol ep") auto
qed simp

lemma endpoint_map: "endpoint p protocol = the_or None (map_of (endpoint_items p) protocol)"
  by (simp add: endpoint_def endpoint_items_def)

lemma distinct_protocols: "distinct_keys (endpoint_items p)"
  by (simp add: endpoint_items_def)

lemma endpoint_Some:
  "endpoint p protocol = Some ep \<longleftrightarrow> (protocol, Some ep) \<in> set (endpoint_items p)"
  by (auto simp: endpoint_map map_of_eq_Some_iff [OF distinct_protocols, symmetric]
      split: option.splits)

lemma endpoint_known: "endpoint p protocol = Some ep \<Longrightarrow> is_known_protocol protocol"
  by (auto simp: endpoint_def is_known_protocol_def known_protocols_def split: if_splits)

lemma no_endpoint:
  "(\<exists>protocol. endpoint p protocol \<noteq> None) \<longleftrightarrow>
    \<not> (OpenAICompletions p = None \<and> OpenAIResponses p = None \<and> OpenAIEmbeddings p = None \<and>
        AnthropicMessages p = None \<and> BailianMultimodalEmbedding p = None \<and> OllamaChat p = None \<and>
        TypeSafeSystemOne p = None)" (is "?l \<longleftrightarrow> ?r")
proof -
  have "?l \<longleftrightarrow> (\<exists>e. Some e \<in> snd ` set (endpoint_items p))"
    unfolding not_None_eq endpoint_Some by force
  also have "\<dots> \<longleftrightarrow> ?r"
    by (simp add: endpoint_items_def eq_commute [of "Some _"] ex_disj_distrib del: not_None_eq)
      (metis not_None_eq)
  finally show ?thesis .
qed

lemma validate_provider_None: "validate_provider up p = None \<longleftrightarrow> wf_provider up p"
proof -
  have "validate_endpoints up (ProvName p) (endpoint_items p) = None \<longleftrightarrow>
      (\<forall>protocol ep. endpoint p protocol = Some ep \<longrightarrow> url_ok up (URL ep))"
    unfolding validate_endpoints_None endpoint_Some by fast
  then show ?thesis
    unfolding validate_provider_def wf_provider_def no_endpoint by auto
qed

lemma validate_providers_Inr:
  "validate_providers up i by_name ps = Inr m \<longleftrightarrow>
    (\<forall>p \<in> set ps. ProvName p \<noteq> [] \<and> wf_provider up p) \<and>
    fst ` set by_name \<inter> ProvName ` set ps = {} \<and> distinct (map ProvName ps) \<and> m = by_name @ map (\<lambda>p. (ProvName p, p)) ps"
proof (induction up i by_name ps rule: validate_providers.induct)
  case (2 up i by_name p ps)
  have u: "mset_key (ProvName p) p by_name = by_name @ [(ProvName p, p)]"
    if "ProvName p \<notin> fst ` set by_name" using that by (rule update_new)
  have v: "validate_provider up p = None \<longleftrightarrow> wf_provider up p" by (rule validate_provider_None)
  show ?case
  proof (cases "ProvName p = [] \<or> ProvName p \<in> fst ` set by_name \<or> \<not> wf_provider up p")
    case True
    with v show ?thesis by (auto simp: mhas_iff split: option.splits)
  next
    case False
    with 2 u v show ?thesis by (simp add: mhas_iff) blast
  qed
qed auto

lemma validate_protocols_None:
  "validate_protocols m r p k seen ps = None \<longleftrightarrow>
    (\<forall>protocol \<in> set ps. is_known_protocol protocol \<and> endpoint p protocol \<noteq> None) \<and>
    set seen \<inter> set ps = {} \<and> distinct ps"
  by (induction m r p k seen ps rule: validate_protocols.induct) (simp_all, blast)

lemma map_of_by_name:
  assumes "distinct (map ProvName ps)"
  shows "map_of (map (\<lambda>p. (ProvName p, p)) ps) n = Some p \<longleftrightarrow> p \<in> set ps \<and> ProvName p = n"
  using assms by (subst map_of_eq_Some_iff) (auto simp: comp_def)

lemma validate_refs_None:
  assumes "distinct (map ProvName ps)"
  shows "validate_refs (map (\<lambda>p. (ProvName p, p)) ps) m j seen rs = None \<longleftrightarrow>
    (\<forall>r \<in> set rs. wf_ref ps r) \<and> set seen \<inter> RefName ` set rs = {} \<and> distinct (map RefName rs)"
proof (induction rs arbitrary: j seen)
  case (Cons r rs)
  have "wf_ref ps r \<longleftrightarrow> RefName r \<noteq> [] \<and> Protocols r \<noteq> [] \<and>
      (\<exists>p. map_of (map (\<lambda>p. (ProvName p, p)) ps) (RefName r) = Some p \<and>
        validate_protocols m (RefName r) p 0 [] (Protocols r) = None)"
    by (auto simp: wf_ref_def validate_protocols_None map_of_by_name [OF assms])
  then show ?case
    by (cases "map_of (map (\<lambda>p. (ProvName p, p)) ps) (RefName r)")
      (simp_all add: Cons split: option.splits, blast+)
qed simp

lemma validate_models_None:
  assumes "distinct (map ProvName ps)"
  shows "validate_models (map (\<lambda>p. (ProvName p, p)) ps) i seen ms = None \<longleftrightarrow>
    (\<forall>m \<in> set ms. wf_model ps m) \<and> set seen \<inter> ModelName ` set ms = {} \<and> distinct (map ModelName ms)"
proof (induction ms arbitrary: i seen)
  case (Cons m ms)
  have "wf_model ps m \<longleftrightarrow> ModelName m \<noteq> [] \<and> ModelProviders m \<noteq> [] \<and>
      validate_refs (map (\<lambda>p. (ProvName p, p)) ps) (ModelName m) 0 [] (ModelProviders m) = None"
    by (auto simp: wf_model_def validate_refs_None [OF assms])
  then show ?case by (simp add: Cons split: option.splits) blast
qed simp

definition trim_username :: "config \<Rightarrow> config" where
  "trim_username c = c\<lparr>Admin := (Admin c)\<lparr>Username := trim_space (Username (Admin c))\<rparr>\<rparr>"

lemma trim_username_simps [simp]:
  "Providers (trim_username c) = Providers c" "Models (trim_username c) = Models c"
  "APIKeys (trim_username c) = APIKeys c" "DetailRetain (trim_username c) = DetailRetain c"
  by (simp_all add: trim_username_def)

lemma default_retain_nonneg [simp]: "0 \<le> default_detail_retain"
  by (simp add: default_detail_retain_def)

text \<open>
  C27: validation accepts exactly the well-formed configurations, and what it returns is the
  configuration it was given with the admin's user name trimmed. Well-formed: distinct non-empty
  key names and values, distinct provider names, every endpoint an http or https URL with a
  host, distinct models, and every provider a model refers to exists and has every protocol
  listed for it.
\<close>

theorem validate_iff:
  "validate url_parse dsn_ok (Some c) = Inr c' \<longleftrightarrow>
    well_formed url_parse dsn_ok c \<and> c' = trim_username c"
proof (cases "well_formed url_parse dsn_ok c")
  case True
  then have "validate_keys 0 [] [] (APIKeys c) = None"
    "validate_providers url_parse 0 [] (Providers c) = Inr (map (\<lambda>p. (ProvName p, p)) (Providers c))"
    "validate_models (map (\<lambda>p. (ProvName p, p)) (Providers c)) 0 [] (Models c) = None"
    by (auto simp: well_formed_def wf_routes_def validate_keys_None validate_providers_Inr
        validate_models_None)
  with True show ?thesis
    by (auto simp: validate_def well_formed_def wf_routes_def detail_retain_def trim_username_def
        Let_def)
next
  case False
  have "well_formed url_parse dsn_ok c" if ok: "validate url_parse dsn_ok (Some c) = Inr c'"
  proof -
    have v1: "validate_keys 0 [] [] (APIKeys c) = None"
      using ok by (auto simp: validate_def split: if_splits option.splits)
    obtain by_name where v2: "validate_providers url_parse 0 [] (Providers c) = Inr by_name"
      using ok v1 by (auto simp: validate_def split: if_splits sum.splits)
    have v3: "validate_models by_name 0 [] (Models c) = None"
      using ok v1 v2 by (auto simp: validate_def split: if_splits option.splits)
    have d: "distinct (map ProvName (Providers c))"
      and b: "by_name = map (\<lambda>p. (ProvName p, p)) (Providers c)"
      using v2 by (simp_all add: validate_providers_Inr)
    have "APIKeys c \<noteq> []" "Providers c \<noteq> []" "Models c \<noteq> []" "trim_space (DSN c) \<noteq> []"
      "dsn_ok (DSN c)" "0 \<le> detail_retain c" "trim_space (Username (Admin c)) \<noteq> []"
      "Password (Admin c) \<noteq> []"
      using ok by (auto simp: validate_def v1 v2 v3 detail_retain_def Let_def split: if_splits)
    then show ?thesis
      using v1 v2 v3 [unfolded b validate_models_None [OF d]]
      by (simp add: well_formed_def wf_routes_def validate_keys_None validate_providers_Inr)
  qed
  with False show ?thesis by blast
qed

subsection \<open>The providers of a model\<close>

lemma endpoint_bind:
  "endpoint (bind_ref p r) protocol = keep_if (protocol \<in> set (Protocols r)) (endpoint p protocol)"
  by (simp add: endpoint_def bind_ref_def keep_if_def Let_def)

lemma bind_ref_simps [simp]:
  "ProvName (bind_ref p r) = ProvName p" "ProvHeaders (bind_ref p r) = ProvHeaders p"
  "ProvModel (bind_ref p r) = (if RefModel r \<noteq> [] then RefModel r else ProvModel p)"
  by (simp_all add: bind_ref_def Let_def)

definition ref_provider :: "config \<Rightarrow> provider_ref \<Rightarrow> provider" where
  "ref_provider c r = bind_ref (the (find_provider (Providers c) (RefName r))) r"

lemma wf_ref_provider:
  assumes "wf_ref (Providers c) r" "distinct (map ProvName (Providers c))"
  obtains p where "find_provider (Providers c) (RefName r) = Some p" "p \<in> set (Providers c)"
    "\<forall>protocol \<in> set (Protocols r). endpoint p protocol \<noteq> None"
proof -
  obtain p where p: "p \<in> set (Providers c)" "ProvName p = RefName r"
      "\<forall>protocol \<in> set (Protocols r). endpoint p protocol \<noteq> None"
    using assms(1) by (auto simp: wf_ref_def)
  with provider_lookup.look_distinct [OF assms(2) p(1)] that show ?thesis by simp
qed

lemma bind_refs_wf:
  assumes "\<forall>r \<in> set rs. wf_ref (Providers c) r" "distinct (map ProvName (Providers c))"
  shows "bind_refs (Some c) rs = map (ref_provider c) rs"
  using assms(1)
proof (induction rs)
  case (Cons r rs)
  then obtain p where "find_provider (Providers c) (RefName r) = Some p"
    using wf_ref_provider assms(2) by (metis list.set_intros(1))
  with Cons show ?case by (simp add: provider_of_def ref_provider_def)
qed simp

lemma routes_model:
  assumes "wf_routes url_parse c" "m \<in> set (Models c)"
  shows "providers (Some c) (ModelName m) = map (ref_provider c) (ModelProviders m)"
    and "\<forall>r \<in> set (ModelProviders m). wf_ref (Providers c) r"
    and "distinct (map ProvName (Providers c))"
proof -
  have d: "distinct (map ModelName (Models c))" "distinct (map ProvName (Providers c))"
    and w: "\<forall>r \<in> set (ModelProviders m). wf_ref (Providers c) r"
    using assms by (auto simp: wf_routes_def wf_model_def)
  have "find_model (Models c) (ModelName m) = Some m"
    by (rule model_lookup.look_distinct [OF d(1) assms(2)])
  with bind_refs_wf [OF w d(2)]
  show "providers (Some c) (ModelName m) = map (ref_provider c) (ModelProviders m)"
    by (simp add: providers_def model_of_def)
  show "\<forall>r \<in> set (ModelProviders m). wf_ref (Providers c) r"
    "distinct (map ProvName (Providers c))" by (fact w d(2))+
qed

lemma providers_for_wf:
  assumes "wf_routes url_parse c" "m \<in> set (Models c)"
  shows "providers_for (Some c) (ModelName m) protocol =
    map (ref_provider c) (filter (\<lambda>r. protocol \<in> set (Protocols r)) (ModelProviders m))"
proof -
  have "endpoint (ref_provider c r) protocol \<noteq> None \<longleftrightarrow> protocol \<in> set (Protocols r)"
    if "r \<in> set (ModelProviders m)" for r
    using routes_model(2,3) [OF assms] that
    by (auto simp: ref_provider_def endpoint_bind keep_if_def elim!: wf_ref_provider)
  then have "filter (\<lambda>r. endpoint (ref_provider c r) protocol \<noteq> None) (ModelProviders m) =
      filter (\<lambda>r. protocol \<in> set (Protocols r)) (ModelProviders m)"
    by (rule filter_cong [OF refl])
  then show ?thesis
    by (simp only: providers_for_def routes_model(1) [OF assms] filter_map comp_def)
qed

text \<open>
  C26: in a validated configuration, the providers tried for a model and a protocol are exactly
  those the model lists with that protocol, in the order it lists them, and each resolves to an
  http or https URL. Every model offers some protocol this way.
\<close>

theorem providers_for_validated:
  assumes "validate url_parse dsn_ok (Some c0) = Inr c" "m \<in> set (Models c)"
  shows "providers_for (Some c) (ModelName m) protocol =
      map (ref_provider c) (filter (\<lambda>r. protocol \<in> set (Protocols r)) (ModelProviders m)) \<and>
    (\<forall>p \<in> set (providers_for (Some c) (ModelName m) protocol).
      \<exists>url model headers. resolve p protocol = Some (url, model, headers) \<and> url_ok url_parse url) \<and>
    (\<exists>protocol. providers_for (Some c) (ModelName m) protocol \<noteq> [])"
proof (intro conjI)
  have wf: "wf_routes url_parse c"
    using assms(1) by (auto simp: validate_iff well_formed_def wf_routes_def)
  note pf = providers_for_wf [OF wf assms(2)]
  show "providers_for (Some c) (ModelName m) protocol =
      map (ref_provider c) (filter (\<lambda>r. protocol \<in> set (Protocols r)) (ModelProviders m))"
    by (rule pf)
  show "\<forall>p \<in> set (providers_for (Some c) (ModelName m) protocol).
      \<exists>url model headers. resolve p protocol = Some (url, model, headers) \<and> url_ok url_parse url"
  proof
    fix p assume "p \<in> set (providers_for (Some c) (ModelName m) protocol)"
    then obtain r where r: "p = ref_provider c r" "protocol \<in> set (Protocols r)"
        "r \<in> set (ModelProviders m)" by (auto simp: pf)
    with routes_model(2,3) [OF wf assms(2)] obtain q where
        q: "find_provider (Providers c) (RefName r) = Some q" "q \<in> set (Providers c)"
        "endpoint q protocol \<noteq> None" by (metis wf_ref_provider)
    then obtain ep where ep: "endpoint q protocol = Some ep" by auto
    with q(2) wf have "url_ok url_parse (URL ep)" by (auto simp: wf_routes_def wf_provider_def)
    with q(1) r ep show "\<exists>url model headers. resolve p protocol = Some (url, model, headers) \<and>
        url_ok url_parse url"
      by (simp add: resolve_def ref_provider_def endpoint_bind keep_if_def Let_def)
  qed
  have "wf_model (Providers c) m" using wf assms(2) by (simp add: wf_routes_def)
  then obtain r where "r \<in> set (ModelProviders m)" "Protocols r \<noteq> []"
    by (cases "ModelProviders m") (auto simp: wf_model_def wf_ref_def)
  then have "providers_for (Some c) (ModelName m) (hd (Protocols r)) \<noteq> []"
    unfolding pf by (simp add: filter_empty_conv) (metis hd_in_set)
  then show "\<exists>protocol. providers_for (Some c) (ModelName m) protocol \<noteq> []" ..
qed

subsection \<open>A small configuration\<close>

definition sample_provider :: provider where
  "sample_provider = \<lparr>ProvName = ''p'', ProvModel = [], ProvHeaders = [(''A'', ''1'')],
    OpenAICompletions = Some \<lparr>URL = ''http://h'', EpModel = [], EpHeaders = [(''A'', ''2'')]\<rparr>,
    OpenAIResponses = None, OpenAIEmbeddings = None, AnthropicMessages = None,
    BailianMultimodalEmbedding = None, OllamaChat = None, TypeSafeSystemOne = None\<rparr>"

definition sample_ref :: provider_ref where
  "sample_ref = \<lparr>RefName = ''p'', RefModel = ''up'', Protocols = [protocolOpenAICompletions]\<rparr>"

definition sample_config :: config where
  "sample_config = \<lparr>DSN = ''d'', DetailRetain = \<lparr>rd_set = False, rd_d = 0\<rparr>,
    Admin = \<lparr>Username = ''u'', Password = ''w''\<rparr>,
    APIKeys = [\<lparr>KeyName = ''k'', KeyValue = ''v''\<rparr>], Providers = [sample_provider],
    Models = [\<lparr>ModelName = ''m'', ModelProviders = [sample_ref]\<rparr>]\<rparr>"

lemma sample_config_valid:
  "validate (\<lambda>_. Some (''http'', ''h'')) (\<lambda>_. True) (Some sample_config) = Inr sample_config"
  by code_simp

theorem providers_for_validated_witness:
  "providers_for (Some sample_config) ''m'' protocolOpenAICompletions =
    [ref_provider sample_config sample_ref]"
proof -
  have m: "\<lparr>ModelName = ''m'', ModelProviders = [sample_ref]\<rparr> \<in> set (Models sample_config)"
    by (simp add: sample_config_def)
  from providers_for_validated [OF sample_config_valid m] show ?thesis
    by (simp add: sample_ref_def)
qed

subsection \<open>Resolving\<close>

lemma map_of_merge_headers:
  assumes "distinct_keys base" "distinct_keys over"
  shows "map_of (merge_headers base over) = map_of base ++ map_of over"
  using assms by (simp add: merge_headers_def map_of_foldl_update map_of_rev_distinct)

text \<open>
  What a provider entry of a model resolves to. A protocol the entry does not list, or the
  provider has no block for, is refused; otherwise the URL is the block's, the model name the
  first that is set of the block's, the entry's and the provider's, and the headers the
  provider's overridden by the block's.
\<close>

theorem resolve_bind_ref:
  assumes "distinct_keys (ProvHeaders p)"
    and "\<And>ep. endpoint p protocol = Some ep \<Longrightarrow> distinct_keys (EpHeaders ep)"
  shows "case endpoint p protocol of
      None \<Rightarrow> resolve (bind_ref p r) protocol = None
    | Some ep \<Rightarrow>
        if protocol \<in> set (Protocols r)
        then \<exists>headers. resolve (bind_ref p r) protocol =
            Some (URL ep, if EpModel ep \<noteq> [] then EpModel ep
              else if RefModel r \<noteq> [] then RefModel r else ProvModel p, headers) \<and>
          map_of headers = map_of (ProvHeaders p) ++ map_of (EpHeaders ep)
        else resolve (bind_ref p r) protocol = None"
  using assms
  by (auto simp: resolve_def endpoint_bind keep_if_def Let_def map_of_merge_headers split: option.split)

theorem resolve_bind_ref_witness:
  "\<exists>headers. resolve (bind_ref sample_provider sample_ref) protocolOpenAICompletions =
    Some (''http://h'', ''up'', headers) \<and> map_of headers ''A'' = Some ''2''"
proof -
  have e: "endpoint sample_provider protocolOpenAICompletions =
      Some \<lparr>URL = ''http://h'', EpModel = [], EpHeaders = [(''A'', ''2'')]\<rparr>" by code_simp
  have d: "distinct_keys (ProvHeaders sample_provider)" by code_simp
  from resolve_bind_ref [of sample_provider protocolOpenAICompletions sample_ref, OF d] e
  show ?thesis by (auto simp: sample_ref_def)
qed

text \<open>
  Retention. A duration that parses is never negative, so a configuration never asks for a
  negative retention; leaving it out or writing a blank keeps the default week, and 0 means 0.
\<close>

theorem unmarshal_retain_nonneg:
  assumes "unmarshal_retain float_days parse_duration \<lparr>rd_set = False, rd_d = 0\<rparr> node = Inr r"
  shows "0 \<le> detail_retain (c\<lparr>DetailRetain := r\<rparr>) \<and>
    (node_tag node = ''!!null'' \<or> trim_space (node_value node) = [] \<longrightarrow>
      detail_retain (c\<lparr>DetailRetain := r\<rparr>) = default_detail_retain) \<and>
    (node_tag node \<noteq> ''!!null'' \<and> trim_space (node_value node) = ''0'' \<longrightarrow>
      detail_retain (c\<lparr>DetailRetain := r\<rparr>) = 0)"
  using assms
  by (auto simp: unmarshal_retain_def parse_retain_duration_def detail_retain_def Let_def
      split: if_splits option.splits sum.splits)

theorem unmarshal_retain_nonneg_witness:
  "detail_retain (sample_config\<lparr>DetailRetain := \<lparr>rd_set = True, rd_d = 0\<rparr>\<rparr>) = 0"
proof -
  have t: "trim_space ''0'' = ''0''" by (rule trim_space_id) (simp_all add: plain_ascii_def)
  have "unmarshal_retain (\<lambda>_. None) (\<lambda>_. None) \<lparr>rd_set = False, rd_d = 0\<rparr>
      \<lparr>node_scalar = True, node_tag = ''!!str'', node_value = ''0''\<rparr> =
      Inr \<lparr>rd_set = True, rd_d = 0\<rparr>"
    by (simp add: unmarshal_retain_def parse_retain_duration_def t)
  from unmarshal_retain_nonneg [OF this, of sample_config] show ?thesis by (simp add: t)
qed

end
