(* ===== verification/Auth.thy ===== *)
theory Auth
  imports ApiError Config
begin

text \<open>
  \<^verbatim>\<open>auth.go\<close>: which key a request presents, which configured key it is, and the gate in
  front of every API route. \<^verbatim>\<open>sha256.Sum256\<close> is the parameter \<open>sha\<close>; a handler is a function
  from a request and the state of its response to the next state.
\<close>

subsection \<open>Definitions\<close>

definition with_api_key_name :: "http_request \<Rightarrow> string \<Rightarrow> http_request" where
  "with_api_key_name r name = r\<lparr>req_key_name := Some name\<rparr>"

definition api_key_name_from :: "http_request \<Rightarrow> string" where
  "api_key_name_from r = the_or [] (req_key_name r)"

definition cut_bearer :: "string \<Rightarrow> string \<times> bool" where
  "cut_bearer v =
    (if length v < length ''bearer'' \<or> \<not> equal_fold (take (length ''bearer'') v) ''bearer''
     then ([], False)
     else
       let rest = drop (length ''bearer'') v in
       if rest = [] then ([], True)
       else if hd rest \<noteq> CHR '' '' \<and> hd rest \<noteq> CHR 0x09 then ([], False)
       else (trim_space rest, True))"

definition extract_api_key :: "http_request \<Rightarrow> string" where
  "extract_api_key r =
    (let v = header_get (req_header r) ''Authorization'' in
     if v \<noteq> [] then (let (token, ok) = cut_bearer v in if ok then token else trim_space v)
     else
       let v = header_get (req_header r) ''X-Api-Key'' in
       if v \<noteq> [] then trim_space v
       else
         let v = header_get (req_header r) ''Api-Key'' in
         if v \<noteq> [] then trim_space v else [])"

text \<open>The loop over the keys does not stop at a match; the last one wins.\<close>

fun match_keys :: "(string \<Rightarrow> string) \<Rightarrow> string \<Rightarrow> api_key option \<Rightarrow> api_key list \<Rightarrow> api_key option" where
  "match_keys sha want found [] = found"
| "match_keys sha want found (k # ks) =
    match_keys sha want (if want = sha (KeyValue k) then Some k else found) ks"

definition lookup_api_key :: "(string \<Rightarrow> string) \<Rightarrow> config option \<Rightarrow> string \<Rightarrow> api_key option" where
  "lookup_api_key sha c value =
    (case c of
       None \<Rightarrow> None
     | Some c \<Rightarrow> if value = [] then None else match_keys sha (sha value) None (APIKeys c))"

definition require_api_key ::
  "(string \<Rightarrow> string) \<Rightarrow> config option \<Rightarrow> (http_request \<Rightarrow> 'a rw_scheme \<Rightarrow> 'a rw_scheme) \<Rightarrow> string \<Rightarrow>
    http_request \<Rightarrow> 'a rw_scheme \<Rightarrow> 'a rw_scheme" where
  "require_api_key sha c next_handler protocol r w =
    (case lookup_api_key sha c (extract_api_key r) of
       None \<Rightarrow>
         let named = protocol = protocolAnthropicMessages \<or> protocol = protocolTypeSafeSystemOne;
             kind = (if named then ''authentication_error'' else ''invalid_request_error'');
             w = (if named then w
                  else set_header ''WWW-Authenticate'' ''Bearer realm=\"nanollm\"'' w) in
         write_protocol_error protocol 401 kind ''invalid api key'' w
     | Some key \<Rightarrow> next_handler (with_api_key_name r (KeyName key)) w)"

subsection \<open>The key of a request\<close>

lemma match_keys_Some:
  "match_keys sha want found ks = Some k \<Longrightarrow> k \<in> set ks \<and> sha (KeyValue k) = want \<or> found = Some k"
  by (induction sha want found ks rule: match_keys.induct) (auto split: if_splits)

lemma match_keys_None:
  "match_keys sha want found ks = None \<longleftrightarrow> found = None \<and> (\<forall>k \<in> set ks. sha (KeyValue k) \<noteq> want)"
  by (induction sha want found ks rule: match_keys.induct) (auto split: if_splits)

text \<open>\<open>sha\<close> does not confuse the presented value with a configured one.\<close>

definition no_collision :: "(string \<Rightarrow> string) \<Rightarrow> config \<Rightarrow> string \<Rightarrow> bool" where
  "no_collision sha c value \<longleftrightarrow>
    (\<forall>k \<in> set (APIKeys c). sha (KeyValue k) = sha value \<longrightarrow> KeyValue k = value)"

lemma lookup_api_key_iff:
  assumes "no_collision sha c value" "distinct (map KeyValue (APIKeys c))"
  shows "lookup_api_key sha (Some c) value = Some k \<longleftrightarrow>
    value \<noteq> [] \<and> k \<in> set (APIKeys c) \<and> KeyValue k = value"
proof
  assume "lookup_api_key sha (Some c) value = Some k"
  with assms(1) show "value \<noteq> [] \<and> k \<in> set (APIKeys c) \<and> KeyValue k = value"
    by (auto simp: lookup_api_key_def no_collision_def dest!: match_keys_Some split: if_splits)
next
  assume k: "value \<noteq> [] \<and> k \<in> set (APIKeys c) \<and> KeyValue k = value"
  then obtain k' where k': "match_keys sha (sha value) None (APIKeys c) = Some k'"
    using match_keys_None [of sha "sha value" None "APIKeys c"] by fastforce
  with assms(1) have "k' \<in> set (APIKeys c)" "KeyValue k' = value"
    by (auto simp: no_collision_def dest!: match_keys_Some)
  with k assms(2) have "k' = k" by (auto simp: distinct_map dest: inj_onD)
  with k k' show "lookup_api_key sha (Some c) value = Some k" by (simp add: lookup_api_key_def)
qed



subsection \<open>The presented key\<close>

text \<open>A token as clients send it: printable ASCII at both ends.\<close>

definition token_text :: "string \<Rightarrow> bool" where
  "token_text s \<longleftrightarrow> s \<noteq> [] \<and> plain_ascii (hd s) \<and> plain_ascii (last s)"

lemma trim_left_blank:
  assumes "c = CHR '' '' \<or> c = CHR 0x09" "token_text s"
  shows "trim_space (c # s) = s"
proof -
  have l: "lead_len space_seqs (c # s) = 1"
    using assms(1) by (elim disjE) (simp_all add: space_seqs_def)
  have "trim_left_space (c # s) = trim_left_space s"
    by (simp add: trim_left_space_def trim_lead.simps [of space_seqs "c # s"] l)
  then show ?thesis
    using trim_space_id [of s] assms(2) by (simp add: trim_space_def token_text_def)
qed

text \<open>
  What counts as the presented key. \<open>Authorization\<close> comes before \<open>X-Api-Key\<close>, which comes
  before \<open>Api-Key\<close>; a bearer token is taken whatever the case of its scheme, and an
  \<open>Authorization\<close> without the scheme is the key itself.
\<close>

theorem extract_api_key_sources:
  assumes "token_text tok"
  shows "(\<forall>scheme sep. length scheme = 6 \<and> map lower_char scheme = ''bearer'' \<and> ascii scheme \<and>
      (sep = CHR '' '' \<or> sep = CHR 0x09) \<and>
      header_get (req_header r) ''Authorization'' = scheme @ sep # tok \<longrightarrow> extract_api_key r = tok) \<and>
    (header_get (req_header r) ''Authorization'' = tok \<and> \<not> snd (cut_bearer tok) \<longrightarrow>
      extract_api_key r = tok) \<and>
    (header_get (req_header r) ''Authorization'' = [] \<and>
      header_get (req_header r) ''X-Api-Key'' = tok \<longrightarrow> extract_api_key r = tok) \<and>
    (header_get (req_header r) ''Authorization'' = [] \<and>
      header_get (req_header r) ''X-Api-Key'' = [] \<and>
      header_get (req_header r) ''Api-Key'' = tok \<longrightarrow> extract_api_key r = tok)"
proof (intro conjI allI impI)
  have t: "trim_space tok = tok" "tok \<noteq> []"
    using assms by (auto simp: token_text_def intro: trim_space_id)
  fix scheme sep
  assume a: "length scheme = 6 \<and> map lower_char scheme = ''bearer'' \<and> ascii scheme \<and>
      (sep = CHR '' '' \<or> sep = CHR 0x09) \<and>
      header_get (req_header r) ''Authorization'' = scheme @ sep # tok"
  have "map lower_char ''bearer'' = ''bearer''" "ascii ''bearer''"
    by (simp_all add: lower_char_def)
  with a have "equal_fold scheme ''bearer''" by (simp add: equal_fold_def fold_case_ascii)
  with a trim_left_blank [of sep tok] assms have "cut_bearer (scheme @ sep # tok) = (tok, True)"
    by (simp add: cut_bearer_def)
  with a show "extract_api_key r = tok" by (simp add: extract_api_key_def)
next
  have t: "trim_space tok = tok" "tok \<noteq> []"
    using assms by (auto simp: token_text_def intro: trim_space_id)
  show "extract_api_key r = tok"
    if "header_get (req_header r) ''Authorization'' = tok \<and> \<not> snd (cut_bearer tok)"
    using that t by (simp add: extract_api_key_def case_prod_beta)
  show "extract_api_key r = tok" if "header_get (req_header r) ''Authorization'' = [] \<and>
      header_get (req_header r) ''X-Api-Key'' = tok"
    using that t by (simp add: extract_api_key_def)
  show "extract_api_key r = tok" if "header_get (req_header r) ''Authorization'' = [] \<and>
      header_get (req_header r) ''X-Api-Key'' = [] \<and> header_get (req_header r) ''Api-Key'' = tok"
    using that t by (simp add: extract_api_key_def)
qed

theorem extract_api_key_sources_witness:
  "extract_api_key \<lparr>req_path = [], req_header = [(''Authorization'', [''BeaRer k1''])], req_body = [],
     req_read_fails = False, req_tls = False, req_key_name = None\<rparr> = ''k1''"
proof -
  let ?r = "\<lparr>req_path = [], req_header = [(''Authorization'', [''BeaRer k1''])], req_body = [],
     req_read_fails = False, req_tls = False, req_key_name = None\<rparr>"
  have "header_get (req_header ?r) ''Authorization'' = ''BeaRer'' @ CHR '' '' # ''k1''" by code_simp
  moreover have "map lower_char ''BeaRer'' = ''bearer''" by code_simp
  moreover have "token_text ''k1''" by (simp add: token_text_def plain_ascii_def)
  ultimately show ?thesis
    using extract_api_key_sources [of "''k1''" ?r] by (auto simp del: list.map)
qed

end
