(* ===== verification/SseMerge.thy ===== *)
theory SseMerge
  imports JsonValue
begin

text \<open>
  The event-level half of \<^verbatim>\<open>sse_log.go\<close>: the fields of an SSE event, which events may be
  coalesced and under which key, and how the object of a later event is merged into an earlier
  one. The Go functions mutate the destination map and report success by a boolean; none of them
  has touched the map of its caller when it reports failure, so here they return the changed
  map, or \<open>None\<close>.
\<close>

subsection \<open>Events\<close>

lemma cut_shorter: "cut c s = (a, b, f) \<Longrightarrow> s \<noteq> [] \<Longrightarrow> length b < length s"
  by (cases f) (auto dest: cut_found cut_not_found)

text \<open>The loop over the lines of a raw event; \<open>parts\<close> are the data lines so far.\<close>

function sse_lines :: "bytes \<Rightarrow> string \<Rightarrow> string list \<Rightarrow> string \<times> string list" where
  "sse_lines raw event parts =
    (if raw = [] then (event, parts)
     else
       (case cut (CHR 0x0A) raw of (line0, rest, _) \<Rightarrow>
          let line = trim_right {CHR 0x0D} line0 in
          if line = [] \<or> hd line = CHR '':'' then sse_lines rest event parts
          else
            (case cut (CHR '':'') line of (field, v, found) \<Rightarrow>
               let v = (if found \<and> v \<noteq> [] \<and> hd v = CHR '' '' then tl v else v) in
               if field = ''event'' then sse_lines rest v parts
               else if field = ''data'' then sse_lines rest event (parts @ [v])
               else sse_lines rest event parts)))"
  by pat_completeness auto

termination
  by (relation "measure (\<lambda>(raw, event, parts). length raw)")
    (auto dest: cut_shorter [OF sym])

declare sse_lines.simps [simp del]

definition parse_sse_fields :: "bytes \<Rightarrow> string \<times> string" where
  "parse_sse_fields raw = (case sse_lines raw [] [] of (event, parts) \<Rightarrow> (event, join [CHR 0x0A] parts))"

subsection \<open>Merge keys\<close>

definition raw_index :: "string gomap \<Rightarrow> string" where
  "raw_index m =
    (case map_of m ''index'' of
       None \<Rightarrow> ''0''
     | Some v \<Rightarrow> (let s = trim_space v in if s = [] \<or> s = ''null'' then ''0'' else s))"

definition function_call_has_args :: "string \<Rightarrow> bool" where
  "function_call_has_args raw =
    (case decode_json_raw_object raw of None \<Rightarrow> False | Some m \<Rightarrow> is_json_string (mget m ''arguments''))"

fun tool_indexes :: "string list \<Rightarrow> string list \<Rightarrow> string list option" where
  "tool_indexes out [] = Some out"
| "tool_indexes out (item # items) =
    (case decode_json_raw_object item of
       None \<Rightarrow> None
     | Some m \<Rightarrow>
         let idx = raw_index m in
         if idx \<in> set out then tool_indexes out items else tool_indexes (out @ [idx]) items)"

definition tool_call_indexes :: "string \<Rightarrow> string list option" where
  "tool_call_indexes raw =
    (case unmarshal_raw_array raw of
       None \<Rightarrow> None
     | Some arr \<Rightarrow> if arr = [] then None else tool_indexes [] arr)"

definition delta_names :: "string list" where
  "delta_names = [''content'', ''reasoning_content'', ''reasoning'']"

definition concatenable_delta_fields :: "string gomap \<Rightarrow> string" where
  "concatenable_delta_fields d =
    (let parts = filter (\<lambda>name. is_json_string (mget d name)) delta_names;
         parts = (case map_of d ''function_call'' of
                    Some raw \<Rightarrow> if function_call_has_args raw then parts @ [''function_call''] else parts
                  | None \<Rightarrow> parts) in
     (case map_of d ''tool_calls'' of
        None \<Rightarrow> join ''+'' parts
      | Some raw \<Rightarrow>
          (case tool_call_indexes raw of
             None \<Rightarrow> []
           | Some indexes \<Rightarrow> join ''+'' (parts @ [''tool_calls='' @ join '','' indexes]))))"

definition openai_choice_fields :: "string gomap \<Rightarrow> string option" where
  "openai_choice_fields ch =
    (case map_of ch ''delta'' of
       Some delta \<Rightarrow>
         (case decode_json_raw_object delta of
            None \<Rightarrow> None
          | Some d \<Rightarrow>
              let fields = concatenable_delta_fields d in
              if fields = [] then None else Some fields)
     | None \<Rightarrow> if is_json_string (mget ch ''text'') then Some ''text'' else None)"

text \<open>\<open>None\<close> is an error; an empty key means the event stands alone.\<close>

fun openai_keys :: "string \<Rightarrow> string list \<Rightarrow> string option" where
  "openai_keys key [] = Some key"
| "openai_keys key (ch # chs) =
    (case decode_json_raw_object ch of
       None \<Rightarrow> None
     | Some m \<Rightarrow>
         (case openai_choice_fields m of
            None \<Rightarrow> Some []
          | Some fields \<Rightarrow> openai_keys (key @ ''|i='' @ raw_index m @ '':'' @ fields) chs))"

definition openai_merge_key :: "string gomap \<Rightarrow> string option" where
  "openai_merge_key obj =
    (case unmarshal_raw_array (mget obj ''choices'') of
       None \<Rightarrow> None
     | Some choices \<Rightarrow> if choices = [] then Some [] else openai_keys ''openai'' choices)"

definition anthropic_delta_field :: "string gomap" where
  "anthropic_delta_field =
    [(''text_delta'', ''text''), (''thinking_delta'', ''thinking''),
     (''input_json_delta'', ''partial_json''), (''signature_delta'', ''signature'')]"

definition anthropic_merge_key :: "string gomap \<Rightarrow> string option" where
  "anthropic_merge_key obj =
    (case decode_json_raw_object (mget obj ''delta'') of
       None \<Rightarrow> None
     | Some delta \<Rightarrow>
         let dtyp = the_or [] (raw_json_string (mget delta ''type''));
             field = mget anthropic_delta_field dtyp in
         if field = [] \<or> \<not> is_json_string (mget delta field) then Some []
         else Some (''anthropic|'' @ raw_index obj @ ''|'' @ dtyp))"

definition responses_text_delta :: "string list" where
  "responses_text_delta =
    [''response.output_text.delta'', ''response.refusal.delta'',
     ''response.function_call_arguments.delta'', ''response.reasoning_text.delta'',
     ''response.reasoning.delta'', ''response.reasoning_summary_text.delta'',
     ''response.mcp_call.arguments.delta'', ''response.audio.transcript.delta'',
     ''response.code_interpreter_call_code.delta'', ''response.custom_tool_call_input.delta'']"

definition responses_merge_key :: "string gomap \<Rightarrow> string option" where
  "responses_merge_key obj =
    (let kind = the_or [] (raw_json_string (mget obj ''type'')) in
     if kind \<notin> set responses_text_delta \<or> \<not> is_json_string (mget obj ''delta'') then Some []
     else Some (''responses|'' @ kind @
       concat (map (\<lambda>f. case map_of obj f of Some v \<Rightarrow> ''|'' @ f @ ''='' @ trim_space v | None \<Rightarrow> [])
         [''item_id'', ''output_index'', ''content_index'', ''summary_index''])))"

definition sse_mergeable :: "string \<Rightarrow> (string gomap \<times> string) option" where
  "sse_mergeable data =
    (case decode_json_raw_object data of
       None \<Rightarrow> None
     | Some obj \<Rightarrow>
         let kind = the_or [] (raw_json_string (mget obj ''type''));
             key = (if kind = ''content_block_delta'' then anthropic_merge_key obj
                    else if prefix ''response.'' kind \<and> suffix ''.delta'' kind
                    then responses_merge_key obj
                    else if mhas obj ''choices'' then openai_merge_key obj
                    else Some []) in
         (case key of None \<Rightarrow> None | Some k \<Rightarrow> if k = [] then None else Some (obj, k)))"

subsection \<open>Merging\<close>

definition concat_json_string_field :: "string gomap \<Rightarrow> string \<Rightarrow> string \<Rightarrow> string gomap" where
  "concat_json_string_field obj key extra =
    (let a = the_or [] (raw_json_string (mget obj key)) in
     (case raw_json_string extra of
        None \<Rightarrow> obj
      | Some b \<Rightarrow> mset_key key (encode_string (a @ b)) obj))"

definition copy_last_field :: "string gomap \<Rightarrow> string gomap \<Rightarrow> string \<Rightarrow> string gomap" where
  "copy_last_field dst src key = (case map_of src key of Some v \<Rightarrow> mset_key key v dst | None \<Rightarrow> dst)"

definition merge_function_call :: "string gomap \<Rightarrow> string \<Rightarrow> string gomap option" where
  "merge_function_call dst_delta src_raw =
    (case decode_json_raw_object src_raw of
       None \<Rightarrow> Some dst_delta
     | Some sm \<Rightarrow>
         if \<not> is_json_string (mget sm ''arguments'') then Some dst_delta
         else
           (case decode_json_raw_object (mget dst_delta ''function_call'') of
              None \<Rightarrow> Some (mset_key ''function_call'' src_raw dst_delta)
            | Some dm \<Rightarrow>
                let dm = (if mhas dm ''name'' then dm else copy_last_field dm sm ''name'');
                    dm = concat_json_string_field dm ''arguments'' (mget sm ''arguments'') in
                (case encode_json_raw_object dm of
                   None \<Rightarrow> None
                 | Some enc \<Rightarrow> Some (mset_key ''function_call'' enc dst_delta))))"

definition merge_tool_call :: "string gomap \<Rightarrow> string gomap \<Rightarrow> string gomap option" where
  "merge_tool_call dst src =
    (case decode_json_raw_object (mget src ''function'') of
       None \<Rightarrow> Some dst
     | Some sf \<Rightarrow>
         if \<not> is_json_string (mget sf ''arguments'') then Some dst
         else
           (case decode_json_raw_object (mget dst ''function'') of
              None \<Rightarrow> Some (mset_key ''function'' (mget src ''function'') dst)
            | Some df \<Rightarrow>
                let df = concat_json_string_field df ''arguments'' (mget sf ''arguments'') in
                (case encode_json_raw_object df of
                   None \<Rightarrow> None
                 | Some enc \<Rightarrow> Some (mset_key ''function'' enc dst))))"

text \<open>The maps of the tool calls and, for an index, the position of the last map that has it.\<close>

fun index_maps :: "nat \<Rightarrow> string gomap list \<Rightarrow> nat gomap \<Rightarrow> nat gomap" where
  "index_maps i [] by_idx = by_idx"
| "index_maps i (m # ms) by_idx = index_maps (Suc i) ms (mset_key (raw_index m) i by_idx)"

fun merge_tool_list ::
  "string gomap list \<Rightarrow> nat gomap \<Rightarrow> string list \<Rightarrow> string gomap list option" where
  "merge_tool_list maps by_idx [] = Some maps"
| "merge_tool_list maps by_idx (raw # raws) =
    (case decode_json_raw_object raw of
       None \<Rightarrow> None
     | Some sm \<Rightarrow>
         (case map_of by_idx (raw_index sm) of
            None \<Rightarrow> merge_tool_list (maps @ [sm]) (mset_key (raw_index sm) (length maps) by_idx) raws
          | Some di \<Rightarrow>
              (case merge_tool_call (maps ! di) sm of
                 None \<Rightarrow> None
               | Some m \<Rightarrow> merge_tool_list (maps[di := m]) by_idx raws)))"

definition merge_tool_calls :: "string gomap \<Rightarrow> string \<Rightarrow> string gomap option" where
  "merge_tool_calls dst_delta src_raw =
    do {
      src_list \<leftarrow> unmarshal_raw_array src_raw;
      (case unmarshal_raw_array (mget dst_delta ''tool_calls'') of
         None \<Rightarrow> Some (mset_key ''tool_calls'' src_raw dst_delta)
       | Some dst_list \<Rightarrow>
           do {
             dst_maps \<leftarrow> those (map decode_json_raw_object dst_list);
             maps \<leftarrow> merge_tool_list dst_maps (index_maps 0 dst_maps []) src_list;
             out \<leftarrow> those (map encode_json_raw_object maps);
             enc \<leftarrow> encode_json_raw_array out;
             Some (mset_key ''tool_calls'' enc dst_delta)
           })
    }"

definition merge_openai_choice :: "string gomap \<Rightarrow> string gomap \<Rightarrow> string gomap option" where
  "merge_openai_choice dst0 src =
    (let dst = (case map_of src ''finish_reason'' of
                  Some fr \<Rightarrow> if is_json_null fr then dst0 else mset_key ''finish_reason'' fr dst0
                | None \<Rightarrow> dst0);
         dst = (if is_json_string (mget src ''text'')
                then concat_json_string_field dst ''text'' (mget src ''text'') else dst) in
     (case map_of src ''delta'' of
        None \<Rightarrow> Some dst
      | Some src_delta \<Rightarrow>
          do {
            sd \<leftarrow> decode_json_raw_object src_delta;
            (case decode_json_raw_object (mget dst ''delta'') of
               None \<Rightarrow> Some (mset_key ''delta'' src_delta dst)
             | Some dd \<Rightarrow>
                 do {
                   let dd = foldl (\<lambda>dd name. if is_json_string (mget sd name)
                                              then concat_json_string_field dd name (mget sd name)
                                              else dd) dd delta_names;
                   dd \<leftarrow> (case map_of sd ''function_call'' of
                            Some raw \<Rightarrow> merge_function_call dd raw | None \<Rightarrow> Some dd);
                   dd \<leftarrow> (case map_of sd ''tool_calls'' of
                            Some raw \<Rightarrow> merge_tool_calls dd raw | None \<Rightarrow> Some dd);
                   enc \<leftarrow> encode_json_raw_object dd;
                   Some (mset_key ''delta'' enc dst)
                 })
          }))"

definition merge_openai_one :: "string gomap gomap \<Rightarrow> string \<Rightarrow> string option" where
  "merge_openai_one src_by_idx raw =
    do {
      dm \<leftarrow> decode_json_raw_object raw;
      dm \<leftarrow> (case map_of src_by_idx (raw_index dm) of
               Some sm \<Rightarrow> merge_openai_choice dm sm | None \<Rightarrow> Some dm);
      encode_json_raw_object dm
    }"

definition merge_openai_delta :: "string gomap \<Rightarrow> string gomap \<Rightarrow> string gomap option" where
  "merge_openai_delta dst src =
    do {
      dst_choices \<leftarrow> unmarshal_raw_array (mget dst ''choices'');
      src_choices \<leftarrow> unmarshal_raw_array (mget src ''choices'');
      src_maps \<leftarrow> those (map decode_json_raw_object src_choices);
      let src_by_idx = foldl (\<lambda>m sm. mset_key (raw_index sm) sm m) [] src_maps;
      out \<leftarrow> those (map (merge_openai_one src_by_idx) dst_choices);
      enc \<leftarrow> encode_json_raw_array out;
      Some (copy_last_field (copy_last_field (mset_key ''choices'' enc dst) src ''sequence_number'')
        src ''usage'')
    }"

definition merge_anthropic_delta :: "string gomap \<Rightarrow> string gomap \<Rightarrow> string gomap option" where
  "merge_anthropic_delta dst src =
    do {
      dd \<leftarrow> decode_json_raw_object (mget dst ''delta'');
      sd \<leftarrow> decode_json_raw_object (mget src ''delta'');
      let field = mget anthropic_delta_field (the_or [] (raw_json_string (mget dd ''type'')));
      (if field = [] \<or> \<not> is_json_string (mget sd field) then None
       else do {
         enc \<leftarrow> encode_json_raw_object (concat_json_string_field dd field (mget sd field));
         Some (mset_key ''delta'' enc dst)
       })
    }"

definition merge_responses_delta :: "string gomap \<Rightarrow> string gomap \<Rightarrow> string gomap option" where
  "merge_responses_delta dst src =
    (if \<not> is_json_string (mget src ''delta'') then None
     else Some (copy_last_field (concat_json_string_field dst ''delta'' (mget src ''delta'')) src
       ''sequence_number''))"

definition merge_sse :: "string gomap \<Rightarrow> string gomap \<Rightarrow> string gomap option" where
  "merge_sse dst src =
    (let kind = the_or [] (raw_json_string (mget dst ''type'')) in
     if kind = ''content_block_delta'' then merge_anthropic_delta dst src
     else if prefix ''response.'' kind then merge_responses_delta dst src
     else merge_openai_delta dst src)"

end
