(* ===== verification/SseLog.thy ===== *)
theory SseLog
  imports SseMerge Pump
begin

text \<open>
  The writer half of \<^verbatim>\<open>sse_log.go\<close>: a transcript arrives in arbitrary pieces, is cut into events
  at blank lines, and goes to the log with runs of mergeable events coalesced into one. The
  event-level behaviour is specified by \<open>coalesce\<close>, a function from the list of raw events to the
  list of blocks written; the writer refines it.
\<close>

subsection \<open>The writer\<close>

record pending_sse =
  p_raw :: bytes
  p_event :: string
  p_obj :: "string gomap"
  p_key :: string
  p_merged :: bool

record sse_log_writer =
  lw_out :: cap_buffer
  lw_carry :: bytes
  lw_acc :: bytes
  lw_pending :: "pending_sse option"

definition new_sse_log_writer :: "cap_buffer \<Rightarrow> sse_log_writer" where
  "new_sse_log_writer out = \<lparr>lw_out = out, lw_carry = [], lw_acc = [], lw_pending = None\<rparr>"

definition write_out :: "bytes \<Rightarrow> sse_log_writer \<Rightarrow> sse_log_writer" where
  "write_out p w = (if p = [] then w else w\<lparr>lw_out := cap_put (lw_out w) p\<rparr>)"

text \<open>What a pending run is written as.\<close>

definition pending_block :: "pending_sse \<Rightarrow> bytes" where
  "pending_block p =
    (if \<not> p_merged p then p_raw p
     else (case encode_json_raw_object (p_obj p) of
             None \<Rightarrow> p_raw p
           | Some data \<Rightarrow>
               (if p_event p \<noteq> [] then ''event: '' @ p_event p @ [CHR 0x0A] else []) @
               ''data: '' @ data @ [CHR 0x0A, CHR 0x0A]))"

definition flush_pending :: "sse_log_writer \<Rightarrow> sse_log_writer" where
  "flush_pending w =
    (case lw_pending w of
       None \<Rightarrow> w
     | Some p \<Rightarrow> write_out (pending_block p) (w\<lparr>lw_pending := None\<rparr>))"

definition handle_event :: "bytes \<Rightarrow> sse_log_writer \<Rightarrow> sse_log_writer" where
  "handle_event raw w =
    (case parse_sse_fields raw of (event_name, data) \<Rightarrow>
       (case sse_mergeable data of
          None \<Rightarrow> write_out raw (flush_pending w)
        | Some (obj, key) \<Rightarrow>
            (case (case lw_pending w of
                     None \<Rightarrow> None
                   | Some p \<Rightarrow> if p_key p = key
                              then map_option (\<lambda>m. p\<lparr>p_obj := m, p_merged := True\<rparr>) (merge_sse (p_obj p) obj)
                              else None) of
               Some p \<Rightarrow> w\<lparr>lw_pending := Some p\<rparr>
             | None \<Rightarrow>
                 (flush_pending w)\<lparr>lw_pending :=
                   Some \<lparr>p_raw = raw, p_event = event_name, p_obj = obj, p_key = key, p_merged = False\<rparr>\<rparr>)))"

text \<open>The loop over the complete lines: an event ends at a blank one.\<close>

function log_lines :: "bytes \<Rightarrow> bytes \<Rightarrow> sse_log_writer \<Rightarrow> sse_log_writer" where
  "log_lines carry acc w =
    (case cut (CHR 0x0A) carry of
       (line0, rest, found) \<Rightarrow>
         if \<not> found then w\<lparr>lw_carry := carry, lw_acc := acc\<rparr>
         else
           let line = line0 @ [CHR 0x0A]; acc = acc @ line in
           if trim_right {CHR 0x0D, CHR 0x0A} line = []
           then log_lines rest [] (handle_event acc w)
           else log_lines rest acc w)"
  by pat_completeness auto
termination
  by (relation "measure (\<lambda>(carry, acc, w). length carry)") (auto dest: cut_length [OF sym])

declare log_lines.simps [simp del]

definition log_consume :: "sse_log_writer \<Rightarrow> sse_log_writer" where
  "log_consume w0 =
    (let w = log_lines (lw_carry w0) (lw_acc w0) w0 in
     if max_medium_blob < int (length (lw_acc w)) + int (length (lw_carry w))
     then (write_out (lw_carry w) (write_out (lw_acc w) (flush_pending w)))\<lparr>lw_acc := [], lw_carry := []\<rparr>
     else w)"

definition log_write :: "sse_log_writer writer" where
  "log_write p w =
    (let n = length p in
     if n = 0 then (0, None, w) else (n, None, log_consume (w\<lparr>lw_carry := lw_carry w @ p\<rparr>)))"

definition log_flush :: "sse_log_writer \<Rightarrow> sse_log_writer" where
  "log_flush w =
    flush_pending
      (if lw_acc w \<noteq> [] \<or> lw_carry w \<noteq> []
       then handle_event (lw_acc w @ lw_carry w) (w\<lparr>lw_acc := [], lw_carry := []\<rparr>)
       else w)"

interpretation sse_log: quiet log_write
  by unfold_locales (auto simp: log_write_def Let_def split: if_splits)

interpretation client_sse: tee flush_write "rw_body :: 'a rw_scheme \<Rightarrow> bytes" log_write ..

subsection \<open>The events of a transcript\<close>

text \<open>
  The raw events of a transcript, each ending in a blank line; then the lines of an unfinished
  event, and an unfinished line.
\<close>

function raw_events :: "bytes \<Rightarrow> bytes \<Rightarrow> bytes list \<times> bytes \<times> bytes" where
  "raw_events carry acc =
    (case cut (CHR 0x0A) carry of
       (line0, rest, found) \<Rightarrow>
         if \<not> found then ([], acc, carry)
         else
           let line = line0 @ [CHR 0x0A] in
           if trim_right {CHR 0x0D, CHR 0x0A} line = []
           then (case raw_events rest [] of (evs, left) \<Rightarrow> ((acc @ line) # evs, left))
           else raw_events rest (acc @ line))"
  by pat_completeness auto
termination
  by (relation "measure (\<lambda>(carry, acc). length carry)") (auto dest: cut_length [OF sym])

declare raw_events.simps [simp del]

definition transcript_events :: "bytes \<Rightarrow> bytes list" where
  "transcript_events body =
    (case raw_events body [] of (evs, acc, carry) \<Rightarrow> evs @ (if acc @ carry = [] then [] else [acc @ carry]))"

subsection \<open>Coalescing, at the level of events\<close>

text \<open>What a flush of the pending run writes.\<close>

definition pending_blocks :: "pending_sse option \<Rightarrow> bytes list" where
  "pending_blocks pend = (case pend of None \<Rightarrow> [] | Some p \<Rightarrow> [pending_block p])"

text \<open>The blocks an event makes the log write, and what is then pending.\<close>

definition coalesce_step :: "pending_sse option \<Rightarrow> bytes \<Rightarrow> bytes list \<times> pending_sse option" where
  "coalesce_step pend raw =
    (let flushed = pending_blocks pend in
     (case parse_sse_fields raw of (event_name, data) \<Rightarrow>
        (case sse_mergeable data of
           None \<Rightarrow> (flushed @ [raw], None)
         | Some (obj, key) \<Rightarrow>
             (case (case pend of
                      None \<Rightarrow> None
                    | Some p \<Rightarrow> if p_key p = key
                               then map_option (\<lambda>m. p\<lparr>p_obj := m, p_merged := True\<rparr>) (merge_sse (p_obj p) obj)
                               else None) of
                Some p \<Rightarrow> ([], Some p)
              | None \<Rightarrow>
                  (flushed, Some \<lparr>p_raw = raw, p_event = event_name, p_obj = obj, p_key = key,
                                  p_merged = False\<rparr>)))))"

fun coalesce_run :: "pending_sse option \<Rightarrow> bytes list \<Rightarrow> bytes list \<times> pending_sse option" where
  "coalesce_run pend [] = ([], pend)"
| "coalesce_run pend (raw # raws) =
    (let (blocks, pend1) = coalesce_step pend raw; (blocks', pend2) = coalesce_run pend1 raws in
     (blocks @ blocks', pend2))"

definition coalesce :: "bytes list \<Rightarrow> bytes list" where
  "coalesce raws = (case coalesce_run None raws of (blocks, pend) \<Rightarrow> blocks @ pending_blocks pend)"

subsection \<open>Cutting a transcript into events\<close>

lemma cut_step:
  assumes "cut (CHR 0x0A) (a @ b) = (line, rest, found)"
  shows "(CHR 0x0A \<in> set a \<longrightarrow> found \<and> (\<exists>r. rest = r @ b \<and> cut (CHR 0x0A) a = (line, r, True))) \<and>
    (CHR 0x0A \<notin> set a \<longrightarrow> prefix a line)"
  using assms
proof (induction a arbitrary: line)
  case (Cons x a)
  then show ?case by (cases "cut (CHR 0x0A) (a @ b)") (auto split: if_splits)
qed simp

lemma raw_events_found:
  assumes "cut (CHR 0x0A) carry = (line0, rest, True)"
  shows "raw_events carry acc =
    (if trim_right {CHR 0x0D, CHR 0x0A} (line0 @ [CHR 0x0A]) = []
     then (case raw_events rest [] of (evs, left) \<Rightarrow> ((acc @ line0 @ [CHR 0x0A]) # evs, left))
     else raw_events rest (acc @ line0 @ [CHR 0x0A]))"
  by (subst raw_events.simps) (simp add: assms Let_def)

lemma raw_events_none: "CHR 0x0A \<notin> set carry \<Longrightarrow> raw_events carry acc = ([], acc, carry)"
  by (subst raw_events.simps) (auto split: prod.split dest: cut_found)

text \<open>A transcript may arrive in pieces: what is left of the first is taken up with the second.\<close>

lemma raw_events_append:
  "raw_events (a @ b) acc =
    (let (evs, acc1, carry1) = raw_events a acc; (evs', left) = raw_events (carry1 @ b) acc1 in
     (evs @ evs', left))"
proof (induction a acc rule: raw_events.induct)
  case (1 carry acc)
  show ?case
  proof (cases "CHR 0x0A \<in> set carry")
    case False
    then show ?thesis by (simp add: raw_events_none split: prod.split)
  next
    case True
    obtain line rest found where c: "cut (CHR 0x0A) (carry @ b) = (line, rest, found)"
      using surj_pair by metis
    with True cut_step [OF c] obtain r where r: "found" "rest = r @ b" "cut (CHR 0x0A) carry = (line, r, True)"
      by blast
    with 1 c show ?thesis
      by (cases "raw_events r []"; cases "raw_events r (acc @ line @ [CHR 0x0A])")
        (auto simp: raw_events_found Let_def split: prod.split)
  qed
qed

lemma raw_events_left:
  "raw_events carry acc = (evs, acc', carry') \<Longrightarrow> CHR 0x0A \<notin> set carry'"
proof (induction carry acc arbitrary: evs rule: raw_events.induct)
  case (1 carry acc)
  obtain line rest found where c: "cut (CHR 0x0A) carry = (line, rest, found)"
    using surj_pair by metis
  then show ?case
  proof (cases found)
    case False
    with c 1 show ?thesis by (auto simp: raw_events.simps [of carry] dest: cut_not_found)
  next
    case True
    with c 1 show ?thesis by (auto simp: raw_events_found Let_def split: if_splits prod.splits)
  qed
qed

text \<open>Nothing is lost.\<close>

lemma raw_events_concat:
  "raw_events carry acc = (evs, acc', carry') \<Longrightarrow> concat evs @ acc' @ carry' = acc @ carry"
proof (induction carry acc arbitrary: evs rule: raw_events.induct)
  case (1 carry acc)
  obtain line rest found where c: "cut (CHR 0x0A) carry = (line, rest, found)"
    using surj_pair by metis
  then show ?case
  proof (cases found)
    case False
    with c 1 show ?thesis by (auto simp: raw_events.simps [of carry])
  next
    case True
    with c have "carry = line @ CHR 0x0A # rest" by (auto dest: cut_found)
    with True c 1 show ?thesis by (auto simp: raw_events_found Let_def split: if_splits prod.splits)
  qed
qed

lemma transcript_events_concat: "concat (transcript_events body) = body"
  by (cases "raw_events body []")
    (auto simp: transcript_events_def dest!: raw_events_concat)

text \<open>What is held back is a prefix of the event it will become.\<close>

lemma raw_events_acc_prefix:
  "raw_events carry acc = (evs, acc', carry') \<Longrightarrow> prefix acc (hd (evs @ [acc' @ carry']))"
proof (induction carry acc arbitrary: evs rule: raw_events.induct)
  case (1 carry acc)
  obtain line rest found where c: "cut (CHR 0x0A) carry = (line, rest, found)"
    using surj_pair by metis
  then show ?case
  proof (cases found)
    case False
    with c 1 show ?thesis by (auto simp: raw_events.simps [of carry])
  next
    case True
    show ?thesis
    proof (cases "trim_right {CHR 0x0D, CHR 0x0A} (line @ [CHR 0x0A]) = []")
      case True
      with \<open>found\<close> c 1(3) show ?thesis by (auto simp: raw_events_found split: prod.splits)
    next
      case False
      with \<open>found\<close> c 1(3) have "raw_events rest (acc @ line @ [CHR 0x0A]) = (evs, acc', carry')"
        by (auto simp: raw_events_found)
      with 1(2) \<open>found\<close> c False have "prefix (acc @ line @ [CHR 0x0A]) (hd (evs @ [acc' @ carry']))"
        by (simp add: Let_def)
      then show ?thesis by (rule append_prefixD)
    qed
  qed
qed

lemma raw_events_held_prefix:
  assumes "CHR 0x0A \<notin> set c" "raw_events (c @ b) acc = (evs, acc', carry')"
  shows "prefix (acc @ c) (hd (evs @ [acc' @ carry']))"
proof -
  obtain line rest found where c: "cut (CHR 0x0A) (c @ b) = (line, rest, found)"
    using surj_pair by metis
  with assms(1) cut_step [OF c] have "prefix c line" by blast
  then have p: "prefix (acc @ c) (acc @ line @ [CHR 0x0A])" by (simp add: prefix_prefix)
  show ?thesis
  proof (cases found)
    case False
    with assms c show ?thesis by (auto simp: raw_events.simps [of "c @ b"])
  next
    case True
    show ?thesis
    proof (cases "trim_right {CHR 0x0D, CHR 0x0A} (line @ [CHR 0x0A]) = []")
      case True
      with \<open>found\<close> c assms p show ?thesis by (auto simp: raw_events_found split: prod.splits)
    next
      case False
      with \<open>found\<close> c assms have "raw_events rest (acc @ line @ [CHR 0x0A]) = (evs, acc', carry')"
        by (auto simp: raw_events_found)
      from raw_events_acc_prefix [OF this] p show ?thesis by (rule prefix_order.trans [rotated])
    qed
  qed
qed

subsection \<open>The writer implements coalescing\<close>

lemma cap_put_Nil [simp]: "cap_put c [] = c"
  by (simp add: cap_write_def Let_def)

lemma write_out_put: "write_out p w = w\<lparr>lw_out := cap_put (lw_out w) p\<rparr>"
  by (simp add: write_out_def)

lemma flush_pending_put:
  "flush_pending w = w\<lparr>lw_out := foldl cap_put (lw_out w) (pending_blocks (lw_pending w)), lw_pending := None\<rparr>"
  by (cases "lw_pending w") (simp_all add: flush_pending_def write_out_put pending_blocks_def)

text \<open>A handler step of the writer is a step of the specification, its blocks put into the log.\<close>

lemma handle_event_step:
  "handle_event raw w =
    (let (blocks, pend) = coalesce_step (lw_pending w) raw in
     w\<lparr>lw_out := foldl cap_put (lw_out w) blocks, lw_pending := pend\<rparr>)"
proof -
  obtain name data where f: "parse_sse_fields raw = (name, data)" by (cases "parse_sse_fields raw")
  show ?thesis
  proof (cases "sse_mergeable data")
    case None
    with f show ?thesis
      by (simp add: handle_event_def coalesce_step_def flush_pending_put write_out_put Let_def)
  next
    case (Some ok)
    then obtain obj key where ok: "sse_mergeable data = Some (obj, key)" by (cases ok) auto
    define m where "m = (case lw_pending w of
        None \<Rightarrow> None
      | Some p \<Rightarrow> if p_key p = key
                 then map_option (\<lambda>m. p\<lparr>p_obj := m, p_merged := True\<rparr>) (merge_sse (p_obj p) obj)
                 else None)"
    show ?thesis using f ok m_def [symmetric]
      by (cases m) (simp_all add: handle_event_def coalesce_step_def flush_pending_put Let_def)
  qed
qed

lemma handle_events_run:
  "foldl (\<lambda>w raw. handle_event raw w) w raws =
    (let (blocks, pend) = coalesce_run (lw_pending w) raws in
     w\<lparr>lw_out := foldl cap_put (lw_out w) blocks, lw_pending := pend\<rparr>)"
  by (induction raws arbitrary: w) (simp_all add: handle_event_step Let_def split: prod.split)

lemma coalesce_run_append:
  "coalesce_run pend (xs @ ys) =
    (let (b1, p1) = coalesce_run pend xs; (b2, p2) = coalesce_run p1 ys in (b1 @ b2, p2))"
  by (induction xs arbitrary: pend) (simp_all add: Let_def split: prod.split)

lemma handle_event_held [simp]:
  "lw_acc (handle_event raw w) = lw_acc w" "lw_carry (handle_event raw w) = lw_carry w"
  by (simp_all add: handle_event_step Let_def split: prod.split)

lemma handle_event_update:
  "handle_event raw (w\<lparr>lw_carry := c, lw_acc := a\<rparr>) = (handle_event raw w)\<lparr>lw_carry := c, lw_acc := a\<rparr>"
  by (simp add: handle_event_step Let_def split: prod.split)

lemma log_lines_events:
  "log_lines carry acc w =
    (let (evs, acc', carry') = raw_events carry acc in
     (foldl (\<lambda>w raw. handle_event raw w) w evs)\<lparr>lw_carry := carry', lw_acc := acc'\<rparr>)"
proof (induction carry acc w rule: log_lines.induct)
  case (1 carry acc w)
  obtain line rest found where c: "cut (CHR 0x0A) carry = (line, rest, found)"
    using surj_pair by metis
  show ?case
  proof (cases found)
    case False
    with c show ?thesis by (simp add: log_lines.simps [of carry] raw_events.simps [of carry])
  next
    case True
    with c have c: "cut (CHR 0x0A) carry = (line, rest, True)" by simp
    show ?thesis
    proof (cases "trim_right {CHR 0x0D, CHR 0x0A} (line @ [CHR 0x0A]) = []")
      case True
      then have "log_lines carry acc w = log_lines rest [] (handle_event (acc @ line @ [CHR 0x0A]) w)"
        by (simp add: log_lines.simps [of carry] c Let_def)
      moreover have "log_lines rest [] (handle_event (acc @ line @ [CHR 0x0A]) w) =
        (let (evs, acc', carry') = raw_events rest [] in
          (foldl (\<lambda>w raw. handle_event raw w) (handle_event (acc @ line @ [CHR 0x0A]) w) evs)
            \<lparr>lw_carry := carry', lw_acc := acc'\<rparr>)"
        using 1(1) [OF c [symmetric] refl] True by simp
      ultimately show ?thesis
        using True by (simp add: raw_events_found [OF c] split: prod.split)
    next
      case False
      then have "log_lines carry acc w = log_lines rest (acc @ line @ [CHR 0x0A]) w"
        by (simp add: log_lines.simps [of carry] c Let_def)
      moreover have "log_lines rest (acc @ line @ [CHR 0x0A]) w =
        (let (evs, acc', carry') = raw_events rest (acc @ line @ [CHR 0x0A]) in
          (foldl (\<lambda>w raw. handle_event raw w) w evs)\<lparr>lw_carry := carry', lw_acc := acc'\<rparr>)"
        using 1(2) [OF c [symmetric] refl] False by simp
      ultimately show ?thesis
        using False by (simp add: raw_events_found [OF c])
    qed
  qed
qed

text \<open>The state of a log writer that has been handed \<open>body\<close>.\<close>

definition logged :: "cap_buffer \<Rightarrow> bytes \<Rightarrow> sse_log_writer" where
  "logged out body =
    (let (evs, acc, carry) = raw_events body []; (blocks, pend) = coalesce_run None evs in
     \<lparr>lw_out = foldl cap_put out blocks, lw_carry = carry, lw_acc = acc, lw_pending = pend\<rparr>)"

text \<open>No event is so long that the log gives up on coalescing it.\<close>

definition events_fit :: "bytes \<Rightarrow> bool" where
  "events_fit body \<longleftrightarrow> (\<forall>e \<in> set (transcript_events body). int (length e) \<le> max_medium_blob)"

lemma events_fit_held:
  assumes "events_fit (a @ b)" "raw_events a [] = (evs, acc, carry)"
  shows "int (length (acc @ carry)) \<le> max_medium_blob"
proof -
  obtain evs' acc' carry' where r: "raw_events (carry @ b) acc = (evs', acc', carry')"
    using surj_pair by metis
  with assms(2) have "raw_events (a @ b) [] = (evs @ evs', acc', carry')"
    by (simp add: raw_events_append [of a])
  then have t: "transcript_events (a @ b) =
      evs @ evs' @ (if acc' @ carry' = [] then [] else [acc' @ carry'])"
    by (simp add: transcript_events_def)
  have p: "prefix (acc @ carry) (hd (evs' @ [acc' @ carry']))"
    using raw_events_held_prefix [OF raw_events_left [OF assms(2)] r] .
  show ?thesis
  proof (cases "acc @ carry = []")
    case True
    then show ?thesis by (simp add: max_medium_blob_def)
  next
    case False
    with p have "hd (evs' @ [acc' @ carry']) \<in> set (transcript_events (a @ b))"
      unfolding t by (cases evs') auto
    with assms(1) prefix_length_le [OF p] show ?thesis
      by (auto simp: events_fit_def)
  qed
qed

lemma new_sse_log_writer_logged: "new_sse_log_writer out = logged out []"
  by (simp add: new_sse_log_writer_def logged_def raw_events_none)

lemma log_write_logged:
  assumes "events_fit (body @ p @ rest)"
  shows "log_write p (logged out body) = (length p, None, logged out (body @ p))"
proof (cases "p = []")
  case False
  obtain evs acc carry where r: "raw_events body [] = (evs, acc, carry)" using surj_pair by metis
  obtain blocks pend where b: "coalesce_run None evs = (blocks, pend)" by (cases "coalesce_run None evs")
  obtain evs' acc' carry' where r': "raw_events (carry @ p) acc = (evs', acc', carry')"
    using surj_pair by metis
  obtain blocks' pend' where b': "coalesce_run pend evs' = (blocks', pend')"
    by (cases "coalesce_run pend evs'")
  have body: "raw_events (body @ p) [] = (evs @ evs', acc', carry')"
    using r r' by (simp add: raw_events_append [of body])
  then have "int (length (acc' @ carry')) \<le> max_medium_blob"
    using events_fit_held [of "body @ p" rest] assms by simp
  with False r b r' b' body show ?thesis
    by (simp add: logged_def log_write_def log_consume_def log_lines_events handle_events_run
        coalesce_run_append Let_def)
qed (simp add: log_write_def)

lemma log_writes_logged:
  "events_fit (body @ concat ps @ rest) \<Longrightarrow>
    foldl (\<lambda>w p. snd (snd (log_write p w))) (logged out body) ps = logged out (body @ concat ps)"
proof (induction ps arbitrary: body)
  case (Cons p ps)
  then have "log_write p (logged out body) = (length p, None, logged out (body @ p))"
    by (intro log_write_logged [where rest = "concat ps @ rest"]) simp
  with Cons show ?case by simp
qed simp

lemma log_flush_logged:
  "lw_out (log_flush (logged out body)) = foldl cap_put out (coalesce (transcript_events body))"
proof -
  obtain evs acc carry where r: "raw_events body [] = (evs, acc, carry)" using surj_pair by metis
  obtain blocks pend where b: "coalesce_run None evs = (blocks, pend)" by (cases "coalesce_run None evs")
  show ?thesis
  proof (cases "acc @ carry = []")
    case True
    with r b show ?thesis
      by (simp add: logged_def log_flush_def flush_pending_put coalesce_def transcript_events_def)
  next
    case False
    obtain blocks' pend' where b': "coalesce_step pend (acc @ carry) = (blocks', pend')"
      by (cases "coalesce_step pend (acc @ carry)")
    from False r b b' have "log_flush (logged out body) =
        flush_pending (handle_event (acc @ carry)
          \<lparr>lw_out = foldl cap_put out blocks, lw_carry = [], lw_acc = [], lw_pending = pend\<rparr>)"
      by (auto simp: logged_def log_flush_def)
    moreover from False r have "transcript_events body = evs @ [acc @ carry]"
      by (simp add: transcript_events_def)
    ultimately show ?thesis using b b'
      by (simp add: handle_event_step flush_pending_put coalesce_def coalesce_run_append)
  qed
qed

text \<open>Events that cannot be merged pass unchanged.\<close>

definition alone :: "bytes \<Rightarrow> bool" where
  "alone raw \<longleftrightarrow> sse_mergeable (snd (parse_sse_fields raw)) = None"

lemma coalesce_step_alone:
  "alone raw \<Longrightarrow> coalesce_step pend raw = (pending_blocks pend @ [raw], None)"
  by (cases "parse_sse_fields raw") (simp add: alone_def coalesce_step_def Let_def)

lemma coalesce_run_alone: "\<forall>e \<in> set es. alone e \<Longrightarrow> coalesce_run None es = (es, None)"
  by (induction es) (simp_all add: coalesce_step_alone pending_blocks_def Let_def)

lemma coalesce_alone: "\<forall>e \<in> set es. alone e \<Longrightarrow> coalesce es = es"
  by (simp add: coalesce_def coalesce_run_alone pending_blocks_def)

subsection \<open>Properties\<close>

text \<open>
  C7: the log of an event stream. However the stream is cut into writes, what the log holds
  after the final flush is the coalesced events of the whole, up to the capacity, when no event
  exceeds that of a blob; a stream none of whose events can be merged is logged as it is.
\<close>

theorem sse_log_refines_coalesce:
  assumes "events_fit (concat ps)"
  shows "cb_b (lw_out (log_flush (foldl (\<lambda>w p. snd (snd (log_write p w)))
      (new_sse_log_writer \<lparr>cb_b = [], cb_max = m\<rparr>) ps))) =
      take (nat m) (concat (coalesce (transcript_events (concat ps)))) \<and>
    ((\<forall>e \<in> set (transcript_events (concat ps)). alone e) \<longrightarrow>
      coalesce (transcript_events (concat ps)) = transcript_events (concat ps) \<and>
      concat (transcript_events (concat ps)) = concat ps)"
proof -
  have "foldl (\<lambda>w p. snd (snd (log_write p w))) (new_sse_log_writer out) ps = logged out (concat ps)"
    for out using log_writes_logged [of "[]" ps "[]" out] assms by (simp add: new_sse_log_writer_logged)
  then show ?thesis
    by (simp add: log_flush_logged cap_puts_take coalesce_alone transcript_events_concat)
qed

theorem sse_log_refines_coalesce_witness:
  "cb_b (lw_out (log_flush (foldl (\<lambda>w p. snd (snd (log_write p w)))
     (new_sse_log_writer \<lparr>cb_b = [], cb_max = 9\<rparr>) [''a'', [CHR 0x0A, CHR 0x0A], ''b'']))) =
   ''a'' @ [CHR 0x0A, CHR 0x0A] @ ''b''"
proof -
  have t: "transcript_events (concat [''a'', [CHR 0x0A, CHR 0x0A], ''b'']) =
      [''a'' @ [CHR 0x0A, CHR 0x0A], ''b'']" by code_simp
  have "alone (''a'' @ [CHR 0x0A, CHR 0x0A])" "alone ''b''" by code_simp+
  moreover have "events_fit (concat [''a'', [CHR 0x0A, CHR 0x0A], ''b''])"
    by (simp add: events_fit_def t max_medium_blob_def del: concat.simps)
  ultimately show ?thesis
    using sse_log_refines_coalesce [of "[''a'', [CHR 0x0A, CHR 0x0A], ''b'']" 9] unfolding t by simp
qed

end
