(* ===== verification/SseCopy.thy ===== *)
theory SseCopy
  imports SseLog
begin

text \<open>
  An event stream on its way through the gateway: the pump of \<^verbatim>\<open>usage.go\<close> writing to the client
  and, beside it, to the coalescing log writer of \<^verbatim>\<open>sse_log.go\<close>, with keepalive comments that go
  to the client only. What the client, the log and the token counts get is stated in terms of the
  bytes the upstream sent; and when the comments leave the events of the stream alone.
\<close>

subsection \<open>The writers of an event stream\<close>

locale sse_client = tee put seen log_write for put :: "'s writer" and seen :: "'s \<Rightarrow> bytes"
begin

lemma copy_sse_seen:
  assumes "copy_sse float64 (multi_write put log_write) (beside put) es keepalive (w, l) =
      Some (err, (w', l'), u)"
  shows "\<exists>q. prefix q (stream_text keepalive es) \<and> seen w' = seen w @ q \<and>
    (err = None \<longrightarrow> q = stream_text keepalive es)"
  using pump_io.pump_seen [OF io assms [unfolded copy_sse_def]] by simp

lemma copy_sse_log:
  assumes "copy_sse float64 (multi_write put log_write) (beside put) es keepalive
      (w, new_sse_log_writer out) = Some (None, (w', l'), u)"
    and "events_fit (read_bytes es)"
  shows "lw_out (log_flush l') = foldl cap_put out (coalesce (transcript_events (read_bytes es)))"
proof -
  have "l' = foldl (\<lambda>l p. snd (snd (log_write p l))) (new_sse_log_writer out) (read_pieces es)"
    using pump_writes [where view = snd and h = "\<lambda>l p. snd (snd (log_write p l))",
        OF _ _ assms(1) [unfolded copy_sse_def]]
    by (auto dest: log_step beside_log)
  then have "l' = logged out (read_bytes es)"
    using log_writes_logged [of "[]" "read_pieces es" "[]" out] assms(2)
    by (simp add: new_sse_log_writer_logged concat_read_pieces)
  then show ?thesis by (simp add: log_flush_logged)
qed

lemma copy_sse_counts:
  assumes "copy_sse float64 (multi_write put log_write) (beside put) es keepalive s =
      Some (None, s', (usage, first))"
    and fit: "lines_fit (read_bytes es)"
  shows "usage = merge_all (map (parse_usage_sse_line float64) (scanned_lines (read_bytes es)))"
    and "first \<noteq> None \<longleftrightarrow> (\<exists>l \<in> set (scanned_lines (read_bytes es)). is_sse_data_line l)"
proof -
  note run = assms(1) [unfolded copy_sse_def]
  obtain w l where s: "s = (w, l)" by (cases s)
  have "fst (usage, first) = foldl (\<lambda>v l. merge_usage v (parse_usage_sse_line float64 l)) no_usage
      (scanned_lines (read_bytes es))"
    using pump_scans [where view = fst and g = "\<lambda>l v. merge_usage v (parse_usage_sse_line float64 l)",
        OF _ run] fit by (simp add: scan_sse_def)
  then show "usage = merge_all (map (parse_usage_sse_line float64) (scanned_lines (read_bytes es)))"
    by (simp add: merge_all_def foldl_map)
  have "(snd (usage, first) \<noteq> None) = foldl (\<lambda>v l. v \<or> is_sse_data_line l) False
      (scanned_lines (read_bytes es))"
    using pump_scans [where view = "\<lambda>u. snd u \<noteq> None" and g = "\<lambda>l v. v \<or> is_sse_data_line l",
        OF _ run] fit by (simp add: scan_sse_def)
  moreover have "foldl (\<lambda>v l. v \<or> is_sse_data_line l) b ls = (b \<or> (\<exists>l \<in> set ls. is_sse_data_line l))"
    for b ls by (induction ls arbitrary: b) auto
  ultimately show "first \<noteq> None \<longleftrightarrow> (\<exists>l \<in> set (scanned_lines (read_bytes es)). is_sse_data_line l)"
    by simp
qed

end

interpretation client_events: sse_client flush_write "rw_body :: 'a rw_scheme \<Rightarrow> bytes" ..

abbreviation sse_writer :: "('a rw_scheme \<times> sse_log_writer) writer" where
  "sse_writer \<equiv> multi_write flush_write log_write"

abbreviation ping_client :: "('a rw_scheme \<times> sse_log_writer) writer" where
  "ping_client \<equiv> beside flush_write"

text \<open>
  C8: an event stream. When the copy ends without an error, the client has received the bytes of
  the upstream body with a comment for each tick; the log writer has received the body without
  the comments; the counts are those of the lines of the body, and there is a first-token time
  exactly when the body has a data line - wherever the reads cut it.
\<close>

theorem copy_sse_transparent:
  assumes "copy_sse float64 sse_writer ping_client es keepalive (w, new_sse_log_writer out) =
      Some (None, (w', l'), (usage, first))"
  shows "rw_body w' = rw_body w @ stream_text keepalive es \<and>
    (events_fit (read_bytes es) \<longrightarrow>
      lw_out (log_flush l') = foldl cap_put out (coalesce (transcript_events (read_bytes es)))) \<and>
    (lines_fit (read_bytes es) \<longrightarrow>
      usage = merge_all (map (parse_usage_sse_line float64) (scanned_lines (read_bytes es))) \<and>
      (first \<noteq> None \<longleftrightarrow> (\<exists>l \<in> set (scanned_lines (read_bytes es)). is_sse_data_line l)))"
  using client_events.copy_sse_seen [OF assms] client_events.copy_sse_log [OF assms]
    client_events.copy_sse_counts [OF assms] by blast

theorem copy_sse_transparent_witness:
  "\<exists>w' l' usage first. copy_sse (\<lambda>_. None) sse_writer ping_client
      [Read 1 [CHR 0x0A] None, Tick, Read 2 [] (Some end_of_file)] True
      (fresh_rw, new_sse_log_writer \<lparr>cb_b = [], cb_max = 9\<rparr>) = Some (None, (w', l'), (usage, first)) \<and>
    rw_body w' = [CHR 0x0A] @ sse_comment"
proof -
  have "\<exists>w' l' usage first. copy_sse (\<lambda>_. None) sse_writer ping_client
      [Read 1 [CHR 0x0A] None, Tick, Read 2 [] (Some end_of_file)] True
      (fresh_rw, new_sse_log_writer \<lparr>cb_b = [], cb_max = 9\<rparr>) = Some (None, (w', l'), (usage, first))"
    by (simp add: copy_sse_def pump_consume_def pump_finish_def client_sse.multi_write_eq
        beside_def flush_write_def rw_write_def write_header_def fresh_rw_def body_allowed_def
        scan_lines.simps max_sse_scan_def max_medium_blob_def is_eof_def err_as_def end_of_file_def
        sse_comment_def)
  then obtain w' l' usage first where r: "copy_sse (\<lambda>_. None) sse_writer ping_client
      [Read 1 [CHR 0x0A] None, Tick, Read 2 [] (Some end_of_file)] True
      (fresh_rw, new_sse_log_writer \<lparr>cb_b = [], cb_max = 9\<rparr>) = Some (None, (w', l'), (usage, first))" by blast
  from copy_sse_transparent [OF r] have "rw_body w' = [CHR 0x0A] @ sse_comment"
    by (simp add: fresh_rw_def)
  with r show ?thesis by blast
qed

subsection \<open>Keepalive comments\<close>

text \<open>The events a client sees in a stream: their names and data, those without data dropped.\<close>

definition with_data :: "bytes list \<Rightarrow> (string \<times> string) list" where
  "with_data raws = filter (\<lambda>e. snd e \<noteq> []) (map parse_sse_fields raws)"

definition data_events :: "bytes \<Rightarrow> (string \<times> string) list" where
  "data_events body = with_data (transcript_events body)"

definition at_boundary :: "bytes \<Rightarrow> bool" where
  "at_boundary body = (snd (raw_events body []) = ([], []))"

fun ticks_at_boundary :: "bytes \<Rightarrow> pump_event list \<Rightarrow> bool" where
  "ticks_at_boundary body [] = True"
| "ticks_at_boundary body (Tick # es) = (at_boundary body \<and> ticks_at_boundary body es)"
| "ticks_at_boundary body (Read t p err # es) = (err = None \<longrightarrow> ticks_at_boundary (body @ p) es)"

lemma with_data_append [simp]: "with_data (xs @ ys) = with_data xs @ with_data ys"
  by (simp add: with_data_def)

lemma raw_events_comment: "raw_events sse_comment [] = ([sse_comment], [], [])"
  by code_simp

lemma comment_no_data: "with_data [sse_comment] = []"
  by code_simp

lemma raw_events_more:
  assumes "raw_events S [] = (evs, l)" "raw_events B [] = (evs', l)" "with_data evs = with_data evs'"
  shows "\<exists>e e' k. raw_events (S @ p) [] = (e, k) \<and> raw_events (B @ p) [] = (e', k) \<and>
    with_data e = with_data e'"
  using assms
  by (cases l) (auto simp: raw_events_append [of S p] raw_events_append [of B p] split: prod.split)

lemma keepalive_data:
  "raw_events S [] = (evs, l) \<Longrightarrow> raw_events B [] = (evs', l) \<Longrightarrow> with_data evs = with_data evs' \<Longrightarrow>
    ticks_at_boundary B es \<Longrightarrow>
    data_events (S @ stream_text True es) = data_events (B @ read_bytes es)"
proof (induction es arbitrary: S B evs evs' l)
  case Nil
  then show ?case by (cases l) (simp add: data_events_def transcript_events_def)
next
  case (Cons e es)
  show ?case
  proof (cases e)
    case (Read t p err)
    from Cons.prems obtain f f' k where k: "raw_events (S @ p) [] = (f, k)"
        "raw_events (B @ p) [] = (f', k)" "with_data f = with_data f'"
      using raw_events_more by blast
    show ?thesis
    proof (cases err)
      case None
      from Cons.IH [OF k] Cons.prems(4) None Read show ?thesis by simp
    next
      case (Some x)
      with Read k show ?thesis by (cases k) (simp add: data_events_def transcript_events_def)
    qed
  next
    case Tick
    with Cons.prems have l: "l = ([], [])" by (simp add: at_boundary_def)
    with Cons.prems(1) have "raw_events (S @ sse_comment) [] = (evs @ [sse_comment], [], [])"
      by (simp add: raw_events_append [of S] raw_events_comment)
    from Cons.IH [OF this, of B evs'] Cons.prems l Tick show ?thesis
      by (simp add: comment_no_data)
  qed
qed

text \<open>
  Keepalive comments do no harm between events. When every tick comes at a point where the
  upstream has completed its last event, the client sees the events the upstream sent.
\<close>

theorem keepalive_between_events:
  assumes "ticks_at_boundary [] es"
  shows "data_events (stream_text True es) = data_events (read_bytes es)"
  using keepalive_data [of "[]" "[]" "([], [])" "[]" "[]" es] assms by (simp add: raw_events_none)

text \<open>A stream whose event comes in two reads, with a tick between them.\<close>

definition split_event :: "pump_event list" where
  "split_event =
    [Read 1 ''data: ab'' None, Tick, Read 2 (''cd'' @ [CHR 0x0A, CHR 0x0A]) (Some end_of_file)]"

theorem keepalive_between_events_witness:
  "data_events (stream_text True [Read 1 (''data: ab'' @ [CHR 0x0A, CHR 0x0A]) None, Tick]) =
    [([], ''ab'')]"
proof -
  let ?es = "[Read 1 (''data: ab'' @ [CHR 0x0A, CHR 0x0A]) None, Tick]"
  have "ticks_at_boundary [] ?es" by code_simp
  moreover have "data_events (read_bytes ?es) = [([], ''ab'')]" by code_simp
  ultimately show ?thesis using keepalive_between_events [of ?es] by simp
qed


end
