(* ===== verification/Proxy.thy ===== *)
theory Proxy
  imports ProxyHeaders Rewrite Auth SseCopy
begin

text \<open>
  \<^verbatim>\<open>proxy.go\<close>: one call of the gateway. \<open>serve\<close> reads, decodes and parses the request, and
  tries the providers of the model in order; \<open>forward\<close> makes one attempt: it rewrites the body,
  sends it, and copies the answer to the client, to the call log and to the token counts.

  The state is the response writer, extended by the tracker's flag and the call log. What happens
  outside is an explicit input: \<open>env_do i\<close> is the upstream's answer to the request of attempt
  \<open>i\<close>, with the reads of its body in order and the clock readings around them. A result \<open>None\<close>
  means that the copy still waits for the upstream.
\<close>

subsection \<open>The call record\<close>

text \<open>
  \<open>rec_output_speed\<close> keeps the operands of the float division, tokens and elapsed nanoseconds;
  \<open>None\<close> is the zero value.
\<close>

record call_record =
  rec_model :: string
  rec_provider :: string
  rec_provider_model :: string
  rec_api_key_name :: string
  rec_input_tokens :: int64
  rec_output_tokens :: int64
  rec_cache_tokens :: int64
  rec_uncached_tokens :: int64
  rec_first_token_ms :: int
  rec_output_speed :: "(int64 \<times> int) option"
  rec_http_status :: int
  rec_error :: string
  rec_request_json :: bytes
  rec_response_json :: "bytes option"

subsection \<open>The environment\<close>

record upstream_request =
  ur_url :: string
  ur_header :: header
  ur_body :: bytes

text \<open>\<open>resp_sent_at\<close> and \<open>resp_done_at\<close>: the clock before the request and after the copy.\<close>

record upstream_response =
  resp_status :: int
  resp_status_text :: string
  resp_header :: header
  resp_body :: "pump_event list"
  resp_sent_at :: int
  resp_done_at :: int

text \<open>
  \<open>env_json_error\<close>: the text of \<^verbatim>\<open>encoding/json\<close>'s error for a body it rejects;
  \<open>env_new_request\<close>: the error of \<^verbatim>\<open>http.NewRequestWithContext\<close> for a URL, if any.
\<close>

record proxy_env =
  env_gunzip :: decoder
  env_unzstd :: decoder
  env_json_error :: "bytes \<Rightarrow> string"
  env_printable :: "nat \<Rightarrow> bool"
  env_new_request :: "string \<Rightarrow> go_error option"
  env_do :: "nat \<Rightarrow> upstream_request \<Rightarrow> go_error + upstream_response"
  env_float64 :: "string \<Rightarrow> int64 option"

record proxy =
  px_config :: "config option"
  px_logger :: bool
  px_protocol :: string
  px_inject :: bool

subsection \<open>The writer of a call\<close>

record call_rw = rw +
  tw_wrote :: bool
  call_log :: "call_record list"

definition tracked_header :: "int \<Rightarrow> call_rw \<Rightarrow> call_rw" where
  "tracked_header status w = write_header status (w\<lparr>tw_wrote := True\<rparr>)"

definition tracked_write :: "call_rw writer" where
  "tracked_write p w = rw_write p (w\<lparr>tw_wrote := True\<rparr>)"

definition log_call :: "proxy \<Rightarrow> call_record \<Rightarrow> call_rw \<Rightarrow> call_rw" where
  "log_call p rec w = (if px_logger p then w\<lparr>call_log := call_log w @ [rec]\<rparr> else w)"

definition client_error_type :: "proxy \<Rightarrow> bool \<Rightarrow> string" where
  "client_error_type p not_found =
    (if px_protocol p \<noteq> protocolAnthropicMessages then ''invalid_request_error''
     else if not_found then ''not_found_error'' else ''invalid_request_error'')"

definition upstream_error_type :: "proxy \<Rightarrow> string" where
  "upstream_error_type p =
    (if px_protocol p = protocolAnthropicMessages then ''api_error'' else ''upstream_error'')"

definition write_error :: "proxy \<Rightarrow> int \<Rightarrow> string \<Rightarrow> string \<Rightarrow> call_rw \<Rightarrow> call_rw" where
  "write_error p status typ message w = write_protocol_error (px_protocol p) status typ message w"

text \<open>The same through the tracker, as \<open>forward\<close> does it.\<close>

definition tracked_error :: "proxy \<Rightarrow> int \<Rightarrow> string \<Rightarrow> string \<Rightarrow> call_rw \<Rightarrow> call_rw" where
  "tracked_error p status typ message w = write_error p status typ message (w\<lparr>tw_wrote := True\<rparr>)"

subsection \<open>One attempt\<close>

definition parse_error_text :: "(bytes \<Rightarrow> string) \<Rightarrow> bytes \<Rightarrow> request_error \<Rightarrow> string" where
  "parse_error_text json_error body e =
    (case e of
       InvalidJsonBody \<Rightarrow> ''invalid json body: '' @ json_error body
     | ModelNotString \<Rightarrow> ''request body model must be a string''
     | MissingModel \<Rightarrow> ''request body missing model'')"

text \<open>The value whose decoding made \<^verbatim>\<open>rewriteRequest\<close> fail: the body, or its stream options.\<close>

definition rewrite_error :: "(bytes \<Rightarrow> string) \<Rightarrow> bytes \<Rightarrow> go_error" where
  "rewrite_error json_error body =
    GoError Opaque
      (json_error (case decode_json_raw_object body of
                     None \<Rightarrow> body | Some raw \<Rightarrow> mget raw ''stream_options'')) []"

definition request_headers :: "header \<Rightarrow> string gomap \<Rightarrow> header" where
  "request_headers client headers =
    (let h = copy_request_headers [] client;
         h = foldl (\<lambda>h (k, v). header_set k v h) h headers;
         h = (if header_get h ''Content-Type'' = [] then header_set ''Content-Type'' ''application/json'' h
              else h) in
     header_del ''Content-Encoding'' (header_del ''Accept-Encoding'' h))"

text \<open>\<^verbatim>\<open>io.Copy\<close> from the upstream body through \<^verbatim>\<open>firstReadReader\<close>.\<close>

fun io_copy :: "'s writer \<Rightarrow> pump_event list \<Rightarrow> int option \<Rightarrow> 's \<Rightarrow> (go_error option \<times> 's \<times> int option) option" where
  "io_copy put [] first s = None"
| "io_copy put (Tick # es) first s = io_copy put es first s"
| "io_copy put (Read t p err # es) first0 s0 =
    (let first = (if p \<noteq> [] \<and> first0 = None then Some t else first0);
         (n, werr, s) = (if p \<noteq> [] then put p s0 else (0, None, s0)) in
     (case werr of
        Some e \<Rightarrow> Some (Some e, s, first)
      | None \<Rightarrow>
          if n \<noteq> length p then Some (Some err_short_write, s, first)
          else
            (case err of
               Some e \<Rightarrow> Some (if kind_of e = Eof then None else Some e, s, first)
             | None \<Rightarrow> io_copy put es first s)))"

text \<open>
  The three ways a body is copied: the error, the writer, the log's bytes, the counts and the
  time of the first token.
\<close>

definition copy_body ::
  "(string \<Rightarrow> int64 option) \<Rightarrow> bool \<Rightarrow> bool \<Rightarrow> bool \<Rightarrow> pump_event list \<Rightarrow> call_rw \<Rightarrow>
    (go_error option \<times> call_rw \<times> bytes \<times> token_usage \<times> int option) option" where
  "copy_body float64 sse ndjson keepalive es w =
    (let buf = \<lparr>cb_b = [], cb_max = max_medium_blob\<rparr> in
     if sse then
       map_option (\<lambda>(err, (w, logw), usage, first). (err, w, cb_b (lw_out (log_flush logw)), usage, first))
         (copy_sse float64 (multi_write tracked_write log_write) (beside tracked_write) es keepalive
           (w, new_sse_log_writer buf))
     else if ndjson then
       map_option (\<lambda>(err, (w, buf), usage, first). (err, w, cb_b buf, usage, first))
         (copy_ndjson float64 (multi_write tracked_write cap_write) es (w, buf))
     else
       map_option (\<lambda>(err, (w, buf), first). (err, w, cb_b buf, parse_usage_json float64 (cb_b buf), first))
         (io_copy (multi_write tracked_write cap_write) es None (w, buf)))"

text \<open>Go's integer division truncates toward zero.\<close>

definition go_div :: "int \<Rightarrow> int \<Rightarrow> int" where
  "go_div a b = sgn a * sgn b * (\<bar>a\<bar> div \<bar>b\<bar>)"

definition max_status_blob :: int where
  "max_status_blob = 256 * 2 ^ 10"

text \<open>What follows a response of the upstream.\<close>

definition answer ::
  "proxy_env \<Rightarrow> proxy \<Rightarrow> bool \<Rightarrow> call_record \<Rightarrow> upstream_response \<Rightarrow> call_rw \<Rightarrow> (go_error option \<times> call_rw) option" where
  "answer env p stream rec0 resp w =
    (let rec = rec0\<lparr>rec_http_status := resp_status resp\<rparr>;
         content_type = header_get (resp_header resp) ''Content-Type'';
         sse = response_is_sse stream content_type;
         ndjson = (\<not> sse \<and> is_ndjson content_type) in
     if is_catastrophic None (resp_status resp) then
       map_option
         (\<lambda>(body, _).
           let rec = rec\<lparr>rec_response_json := encode_response_blob body sse,
                         rec_error := ''upstream status '' @ resp_status_text resp\<rparr> in
           (Some (GoError Opaque (''upstream status '' @ resp_status_text resp) []), log_call p rec w))
         (read_limited (nat max_status_blob) (resp_body resp))
     else
       let w = w\<lparr>rw_header := copy_response_headers (rw_header w) (resp_header resp)\<rparr>;
           w = (if sse then w\<lparr>rw_header := header_del ''Content-Length'' (rw_header w)\<rparr> else w);
           keepalive = (sse \<and> \<not> is_compressed_encoding (header_get (resp_header resp) ''Content-Encoding''));
           w = tracked_header (resp_status resp) w in
       map_option
         (\<lambda>(err, w, blob, usage, first).
           let rec = (case first of
                        None \<Rightarrow> rec
                      | Some t \<Rightarrow>
                          let rec = rec\<lparr>rec_first_token_ms := go_div (t - resp_sent_at resp) 1000000\<rparr> in
                          if 0 <s Output usage
                          then rec\<lparr>rec_output_speed := Some (Output usage, resp_done_at resp - t)\<rparr>
                          else rec);
               rec = rec\<lparr>rec_response_json := encode_response_blob blob (sse \<or> ndjson),
                         rec_input_tokens := Input usage, rec_output_tokens := Output usage,
                         rec_cache_tokens := CacheRead usage, rec_uncached_tokens := Uncached usage\<rparr>;
               rec = (if err \<noteq> None then rec\<lparr>rec_error := copy_err_text err\<rparr> else rec) in
           (err, log_call p rec w))
         (copy_body (env_float64 env) sse ndjson keepalive (resp_body resp) w))"

definition new_record :: "string \<Rightarrow> string \<Rightarrow> string \<Rightarrow> string \<Rightarrow> bytes \<Rightarrow> call_record" where
  "new_record model prov prov_model key_name request =
    \<lparr>rec_model = model, rec_provider = prov, rec_provider_model = prov_model,
     rec_api_key_name = key_name, rec_input_tokens = 0, rec_output_tokens = 0, rec_cache_tokens = 0,
     rec_uncached_tokens = 0, rec_first_token_ms = 0, rec_output_speed = None, rec_http_status = 0,
     rec_error = [], rec_request_json = request, rec_response_json = None\<rparr>"

definition forward ::
  "proxy_env \<Rightarrow> proxy \<Rightarrow> nat \<Rightarrow> http_request \<Rightarrow> request_meta \<Rightarrow> provider \<Rightarrow> call_rw \<Rightarrow>
    (go_error option \<times> call_rw) option" where
  "forward env p i r meta prov w =
    (case resolve prov (px_protocol p) of
       None \<Rightarrow>
         let text = ''provider '' @ go_quote (env_printable env) (ProvName prov) @ '' has no '' @
                    px_protocol p @ '' endpoint'';
             rec = (new_record (Model meta) (ProvName prov) [] (api_key_name_from r) (Body meta))
                     \<lparr>rec_error := text\<rparr> in
         Some (Some (GoError Opaque text []), log_call p rec w)
     | Some (upstream_url, provider_model, headers) \<Rightarrow>
         let rec = new_record (Model meta) (ProvName prov)
                     (if provider_model = [] then Model meta else provider_model)
                     (api_key_name_from r) (Body meta) in
         (case rewrite_request (Body meta) provider_model (Stream meta) (px_inject p) of
            None \<Rightarrow>
              let err = rewrite_error (env_json_error env) (Body meta);
                  rec = rec\<lparr>rec_http_status := 400, rec_error := error_text err\<rparr> in
              Some (Some err, tracked_error p 400 (client_error_type p False) (error_text err)
                (log_call p rec w))
          | Some payload \<Rightarrow>
              let rec = rec\<lparr>rec_request_json := payload\<rparr> in
              (case env_new_request env upstream_url of
                 Some err \<Rightarrow> Some (Some err, log_call p (rec\<lparr>rec_error := error_text err\<rparr>) w)
               | None \<Rightarrow>
                   let req = \<lparr>ur_url = upstream_url,
                              ur_header = request_headers (req_header r) headers, ur_body = payload\<rparr> in
                   (case env_do env i req of
                      Inl err \<Rightarrow>
                        Some (Some err, log_call p (rec\<lparr>rec_error := copy_err_text (Some err)\<rparr>) w)
                    | Inr resp \<Rightarrow> answer env p (Stream meta) rec resp w))))"

subsection \<open>The call\<close>

text \<open>The loop over the providers, from the \<open>i\<close>-th on; \<open>last_err\<close> is the last failure.\<close>

fun try_providers ::
  "proxy_env \<Rightarrow> proxy \<Rightarrow> http_request \<Rightarrow> request_meta \<Rightarrow> nat \<Rightarrow> go_error option \<Rightarrow> provider list \<Rightarrow> call_rw \<Rightarrow>
    call_rw option" where
  "try_providers env p r meta i last_err [] w =
    Some (write_error p 502 (upstream_error_type p)
      (''all upstreams unavailable: '' @ (case last_err of Some e \<Rightarrow> error_text e | None \<Rightarrow> [])) w)"
| "try_providers env p r meta i last_err (prov # provs) w =
    do {
      (err, w) \<leftarrow> forward env p i r meta prov w;
      if tw_wrote w then Some w
      else
        (case err of
           None \<Rightarrow> Some w
         | Some e \<Rightarrow>
             if err_as is_canceled err \<noteq> None then Some w
             else if is_catastrophic err 0 then try_providers env p r meta (Suc i) err provs w
             else Some (write_error p (status_from_err err) (upstream_error_type p) (error_text e) w))
    }"

text \<open>\<^verbatim>\<open>io.ReadAll\<close> of the body under \<^verbatim>\<open>http.MaxBytesReader\<close>, which marks the connection for closing.\<close>

datatype read_error = BodyTooLarge | ReadFailed

definition read_body :: "http_request \<Rightarrow> read_error + bytes" where
  "read_body r =
    (if max_request_body < int (length (req_body r)) then Inl BodyTooLarge
     else if req_read_fails r then Inl ReadFailed
     else Inr (req_body r))"

definition no_model_text :: "string \<Rightarrow> string" where
  "no_model_text model = ''the model '' @ [CHR 0x60] @ model @ [CHR 0x60] @ '' does not exist''"

definition serve :: "proxy_env \<Rightarrow> proxy \<Rightarrow> http_request \<Rightarrow> call_rw \<Rightarrow> call_rw option" where
  "serve env p r w =
    (case read_body r of
       Inl BodyTooLarge \<Rightarrow>
         Some (write_error p 413 (client_error_type p False) ''request body too large''
           (set_header ''Connection'' ''close'' w))
     | Inl ReadFailed \<Rightarrow>
         Some (write_error p 400 (client_error_type p False) ''failed to read request body'' w)
     | Inr sent \<Rightarrow>
         do {
           decoded \<leftarrow> decode_request_body (env_printable env) (env_gunzip env) (env_unzstd env) sent (req_header r);
           (case decoded of
              Inl (UnsupportedEncoding text) \<Rightarrow> Some (write_error p 415 (client_error_type p False) text w)
            | Inl DecodedTooLarge \<Rightarrow>
                Some (write_error p 413 (client_error_type p False) ''request body too large'' w)
            | Inl (InvalidEncoded text) \<Rightarrow> Some (write_error p 400 (client_error_type p False) text w)
            | Inr body \<Rightarrow>
                (case parse_request body of
                   Inl e \<Rightarrow>
                     Some (write_error p 400 (client_error_type p False)
                       (parse_error_text (env_json_error env) body e) w)
                 | Inr meta \<Rightarrow>
                     if model_of (px_config p) (Model meta) = None then
                       Some (write_error p 404 (client_error_type p True) (no_model_text (Model meta)) w)
                     else
                       (let provs = providers_for (px_config p) (Model meta) (px_protocol p) in
                        if provs = [] then
                          Some (write_error p 404 (client_error_type p True)
                            (''the model '' @ [CHR 0x60] @ Model meta @ [CHR 0x60] @ '' has no '' @
                             px_protocol p @ '' providers'') w)
                        else
                          try_providers env p r meta 0 None provs (w\<lparr>tw_wrote := False\<rparr>))))
         })"

subsection \<open>Headers sent to the upstream\<close>

lemma header_values_request:
  assumes "canonical_header client"
  shows "header_values (request_headers client hs) k =
    (let k' = canonical_key k in
     if k' = ''Accept-Encoding'' \<or> k' = ''Content-Encoding'' then []
     else
       let vs = (case set_value hs k of
                   Some v \<Rightarrow> [v]
                 | None \<Rightarrow>
                     if k' \<in> set (hop_by_hop client @ private_headers) then []
                     else header_values client k) in
       if k' = ''Content-Type'' \<and> (vs = [] \<or> hd vs = []) then [''application/json''] else vs)"
proof -
  define h where "h = foldl (\<lambda>h (k, v). header_set k v h) (copy_request_headers [] client) hs"
  have ct: "canonical_key ''Content-Type'' = ''Content-Type''"
    "canonical_key ''Accept-Encoding'' = ''Accept-Encoding''"
    "canonical_key ''Content-Encoding'' = ''Content-Encoding''" by code_simp+
  have absent: "header_values client k = []" if "canonical_key k \<notin> fst ` set client" for k
    using that map_of_eq_None_iff [of client "canonical_key k"] by (simp add: header_values_def)

  have copied: "header_values (copy_request_headers [] client) k =
      (if canonical_key k \<in> set (hop_by_hop client @ private_headers) then [] else header_values client k)"
    for k
    unfolding copy_request_headers_def header_values_copy [OF assms]
    using absent [of k] by (simp add: header_values_def del: set_append)
  have h: "header_values h k = (case set_value hs k of
      Some v \<Rightarrow> [v]
    | None \<Rightarrow> if canonical_key k \<in> set (hop_by_hop client @ private_headers) then []
              else header_values client k)" for k
    by (simp add: h_def header_values_sets copied del: set_append split: option.split)
  have get: "header_get h k = (case header_values h k of [] \<Rightarrow> [] | v # _ \<Rightarrow> v)" for k
    by (simp add: header_get_def)
  have "header_values (request_headers client hs) k =
    (if canonical_key k = ''Accept-Encoding'' \<or> canonical_key k = ''Content-Encoding'' then []
     else if canonical_key k = ''Content-Type'' \<and> header_get h ''Content-Type'' = []
          then [''application/json'']
     else header_values h k)"
    using ct by (auto simp: request_headers_def h_def [symmetric] header_values_del header_values_set Let_def)
  moreover have "header_get h ''Content-Type'' = [] \<longleftrightarrow> header_values h k = [] \<or> hd (header_values h k) = []"
    if "canonical_key k = ''Content-Type''"
  proof -
    from that ct have "header_values h k = header_values h ''Content-Type''"
      by (simp add: header_values_def)
    then show ?thesis by (auto simp: get split: list.splits)
  qed
  ultimately show ?thesis unfolding Let_def h [of k, symmetric] by auto
qed

subsection \<open>The tracked writer\<close>

lemma tracked_write_body:
  assumes "tracked_write p w = (n, err, w')"
  shows "rw_body w' = rw_body w @ take n p \<and> (err = None \<longrightarrow> n = length p)"
proof -
  have "rw_body (write_header 200 s) = rw_body s" for s :: call_rw by (simp add: write_header_def)
  with assms show ?thesis
    by (auto simp: tracked_write_def rw_write_def Let_def split: if_splits option.splits prod.splits)
qed

interpretation tracked: sink tracked_write "rw_body :: call_rw \<Rightarrow> bytes"
  by unfold_locales (use tracked_write_body in auto)

interpretation tracked_events: sse_client tracked_write "rw_body :: call_rw \<Rightarrow> bytes" ..

interpretation tracked_lines: ndjson_client tracked_write "rw_body :: call_rw \<Rightarrow> bytes" ..

text \<open>A call whose answer has begun: its status and header are out and stay as they are.\<close>

definition begun :: "int \<times> header \<Rightarrow> header \<Rightarrow> call_record list \<Rightarrow> call_rw \<Rightarrow> bool" where
  "begun sent h log w \<longleftrightarrow> rw_sent w = Some sent \<and> rw_header w = h \<and> call_log w = log \<and> tw_wrote w"

lemma begun_write: "begun sent h log w \<Longrightarrow> tracked_write p w = (n, e, w') \<Longrightarrow> begun sent h log w'"
  by (auto simp: begun_def tracked_write_def rw_write_def write_header_def Let_def
      split: if_splits option.splits prod.splits)

subsection \<open>Copying a body\<close>

locale body_client = ndjson_client put seen for put :: "'s writer" and seen :: "'s \<Rightarrow> bytes"
begin

lemma io_copy_step:
  assumes "(if p \<noteq> [] then multi_write put cap_write p (w, c) else (0, None, (w, c))) = (n, werr, (w1, c1))"
  shows "\<exists>q. prefix q p \<and> seen w1 = seen w @ q \<and> (werr = None \<longrightarrow> q = p \<and> n = length p \<and> c1 = cap_put c p)"
proof (cases "p = []")
  case False
  with assms have m: "multi_write put cap_write p (w, c) = (n, werr, (w1, c1))" by simp
  from both.accepts_prefix [OF m] obtain q where q: "prefix q p" "seen w1 = seen w @ q" by auto
  show ?thesis
  proof (cases werr)
    case None
    with both.accepts_all [of p "(w, c)" n "(w1, c1)"] both.count [of p "(w, c)" n "(w1, c1)"]
      log_step [of p "(w, c)" n "(w1, c1)"] m show ?thesis by auto
  qed (use q in auto)
qed (use assms in auto)

lemma io_copy_seen:
  "io_copy (multi_write put cap_write) es first (w, c) = Some (err, (w', c'), first') \<Longrightarrow>
    \<exists>q. prefix q (read_bytes es) \<and> seen w' = seen w @ q \<and>
      (err = None \<longrightarrow> q = read_bytes es \<and> c' = foldl cap_put c (read_pieces es))"
proof (induction es arbitrary: first w c)
  case (Cons e es)
  show ?case
  proof (cases e)
    case (Read t p rerr)
    obtain n werr w1 c1 where m: "(if p \<noteq> [] then multi_write put cap_write p (w, c)
        else (0, None, (w, c))) = (n, werr, (w1, c1))" using surj_pair by metis
    from io_copy_step [OF m] obtain q where q: "prefix q p" "seen w1 = seen w @ q"
      "werr = None \<longrightarrow> q = p \<and> n = length p \<and> c1 = cap_put c p" by blast
    have c1: "c1 = foldl cap_put c (if p = [] then [] else [p])" if "werr = None"
      using q(3) that m by auto
    show ?thesis
    proof (cases "werr = None \<and> rerr = None")
      case True
      with Cons.prems Read m q(3) have "io_copy (multi_write put cap_write) es
          (if p \<noteq> [] \<and> first = None then Some t else first) (w1, c1) = Some (err, (w', c'), first')"
        by (simp add: Let_def)
      from Cons.IH [OF this] True q c1 Read show ?thesis by auto
    next
      case False
      with Cons.prems Read m q have "w' = w1" "c' = c1" "err = None \<longrightarrow> werr = None"
        by (auto simp: Let_def split: option.splits if_splits)
      with False q c1 Read show ?thesis
        by (intro exI [of _ q]) (auto intro: prefix_prefix)
    qed
  qed (use Cons in auto)
qed simp

lemma io_copy_keeps:
  assumes "\<And>p s n e s'. I s \<Longrightarrow> put p s = (n, e, s') \<Longrightarrow> I s'"
  shows "io_copy (multi_write put cap_write) es first s = Some (err, s', first') \<Longrightarrow> I (fst s) \<Longrightarrow> I (fst s')"
proof (induction es arbitrary: first s)
  case (Cons e es)
  show ?case
  proof (cases e)
    case (Read t p rerr)
    obtain n werr s1 where m: "(if p \<noteq> [] then multi_write put cap_write p s
        else (0, None, s)) = (n, werr, s1)" using surj_pair by metis
    have "I (fst s1)"
    proof (cases "p = []")
      case False
      with m have "multi_write put cap_write p s = (n, werr, s1)" by simp
      with Cons.prems(2) show ?thesis by (rule both_keeps(1) [where I = I, rotated]) (rule assms)
    qed (use m Cons.prems(2) in auto)
    with Cons Read m show ?thesis by (auto simp: Let_def split: option.splits if_splits)
  qed (use Cons in auto)
qed simp

end

interpretation tracked_body: body_client tracked_write "rw_body :: call_rw \<Rightarrow> bytes" ..

lemma copy_body_seen:
  assumes "copy_body float64 sse ndjson keepalive es w = Some (err, w', blob, usage, first)"
  shows "\<exists>q. prefix q (stream_text (sse \<and> keepalive) es) \<and> rw_body w' = rw_body w @ q \<and>
    (err = None \<longrightarrow> q = stream_text (sse \<and> keepalive) es)"
proof (cases sse)
  case True
  with assms obtain l where "copy_sse float64 (multi_write tracked_write log_write) (beside tracked_write)
      es keepalive (w, new_sse_log_writer \<lparr>cb_b = [], cb_max = max_medium_blob\<rparr>) =
      Some (err, (w', l), usage, first)" by (auto simp: copy_body_def)
  from tracked_events.copy_sse_seen [OF this] True show ?thesis by simp
next
  case False
  show ?thesis
  proof (cases ndjson)
    case True
    with assms False obtain c where "copy_ndjson float64 (multi_write tracked_write cap_write) es
        (w, \<lparr>cb_b = [], cb_max = max_medium_blob\<rparr>) = Some (err, (w', c), usage, first)"
      by (auto simp: copy_body_def)
    from tracked_lines.copy_ndjson_seen [OF this] False show ?thesis by (simp add: stream_text_quiet)
  next
    case ndjson: False
    with assms False obtain c where "io_copy (multi_write tracked_write cap_write) es None
        (w, \<lparr>cb_b = [], cb_max = max_medium_blob\<rparr>) = Some (err, (w', c), first)"
      by (auto simp: copy_body_def)
    from tracked_body.io_copy_seen [OF this] False show ?thesis by (auto simp: stream_text_quiet)
  qed
qed

lemma copy_body_begun:
  assumes "copy_body float64 sse ndjson keepalive es w = Some (err, w', blob, usage, first)"
    and "begun sent h log w"
  shows "begun sent h log w'"
proof -
  note pumped = pump_keeps [where I = "\<lambda>s. begun sent h log (fst s)", rotated 2]
  note events_keep = tracked_events.both_keeps [where I = "begun sent h log"]
    and lines_keep = tracked_lines.both_keeps [where I = "begun sent h log"]
  show ?thesis
  proof (cases sse)
    case True
    with assms(1) obtain l where "copy_sse float64 (multi_write tracked_write log_write)
        (beside tracked_write) es keepalive
        (w, new_sse_log_writer \<lparr>cb_b = [], cb_max = max_medium_blob\<rparr>) = Some (err, (w', l), usage, first)"
      by (auto simp: copy_body_def)
    from this [unfolded copy_sse_def] have "begun sent h log (fst (w', l))"
    proof (rule pumped)
      show "begun sent h log (fst (w, new_sse_log_writer \<lparr>cb_b = [], cb_max = max_medium_blob\<rparr>))"
        using assms(2) by simp
    qed (erule (1) events_keep [rotated], erule (1) begun_write)+
    then show ?thesis by simp
  next
    case False
    show ?thesis
    proof (cases ndjson)
      case True
      with assms(1) False obtain c where "copy_ndjson float64 (multi_write tracked_write cap_write) es
          (w, \<lparr>cb_b = [], cb_max = max_medium_blob\<rparr>) = Some (err, (w', c), usage, first)"
        by (auto simp: copy_body_def)
      from this [unfolded copy_ndjson_def] have "begun sent h log (fst (w', c))"
      proof (rule pumped)
        show "begun sent h log (fst (w, \<lparr>cb_b = [], cb_max = max_medium_blob\<rparr>))"
          using assms(2) by simp
      qed (erule (1) lines_keep [rotated], erule (1) begun_write)+
      then show ?thesis by simp
    next
      case ndjson: False
      with assms(1) False obtain c where "io_copy (multi_write tracked_write cap_write) es None
          (w, \<lparr>cb_b = [], cb_max = max_medium_blob\<rparr>) = Some (err, (w', c), first)"
        by (auto simp: copy_body_def)
      then have "begun sent h log (fst (w', c))"
        by (rule tracked_body.io_copy_keeps [where I = "begun sent h log", rotated])
          (simp add: assms(2), rule begun_write)
      then show ?thesis by simp
    qed
  qed
qed

text \<open>What the log holds of a body that was copied to its end.\<close>

lemma copy_body_blob:
  assumes "copy_body float64 sse ndjson keepalive es w = Some (None, w', blob, usage, first)"
    and "sse \<longrightarrow> events_fit (read_bytes es)"
  shows "blob = take (nat max_medium_blob)
    (if sse then concat (coalesce (transcript_events (read_bytes es))) else read_bytes es)"
proof (cases sse)
  case True
  with assms(1) obtain l where l: "copy_sse float64 (multi_write tracked_write log_write)
      (beside tracked_write) es keepalive
      (w, new_sse_log_writer \<lparr>cb_b = [], cb_max = max_medium_blob\<rparr>) = Some (None, (w', l), usage, first)"
    "blob = cb_b (lw_out (log_flush l))" by (auto simp: copy_body_def)
  from tracked_events.copy_sse_log [OF l(1)] assms(2) True l(2) show ?thesis
    by (simp add: cap_puts_take)
next
  case False
  show ?thesis
  proof (cases ndjson)
    case True
    with assms(1) False obtain c where c: "copy_ndjson float64 (multi_write tracked_write cap_write) es
        (w, \<lparr>cb_b = [], cb_max = max_medium_blob\<rparr>) = Some (None, (w', c), usage, first)" "blob = cb_b c"
      by (auto simp: copy_body_def)
    from tracked_lines.copy_ndjson_log [OF c(1)] c(2) False show ?thesis
      by (simp add: cap_puts_take concat_read_pieces)
  next
    case ndjson: False
    with assms(1) False obtain c where c: "io_copy (multi_write tracked_write cap_write) es None
        (w, \<lparr>cb_b = [], cb_max = max_medium_blob\<rparr>) = Some (None, (w', c), first)" "blob = cb_b c"
      by (auto simp: copy_body_def)
    from tracked_body.io_copy_seen [OF c(1)] c(2) False show ?thesis
      by (auto simp: cap_puts_take concat_read_pieces)
  qed
qed

text \<open>The counts of a body that was copied to its end.\<close>

definition body_usage :: "(string \<Rightarrow> int64 option) \<Rightarrow> bool \<Rightarrow> bool \<Rightarrow> bytes \<Rightarrow> token_usage" where
  "body_usage float64 sse ndjson body =
    (if sse then merge_all (map (parse_usage_sse_line float64) (scanned_lines body))
     else if ndjson then merge_all (map (parse_usage_json float64)
        (filter (\<lambda>l. l \<noteq> []) (map trim_space (scanned_lines body))))
     else parse_usage_json float64 (take (nat max_medium_blob) body))"

lemma copy_body_usage:
  assumes "copy_body float64 sse ndjson keepalive es w = Some (None, w', blob, usage, first)"
    and "sse \<or> ndjson \<longrightarrow> lines_fit (read_bytes es)"
  shows "usage = body_usage float64 sse ndjson (read_bytes es)"
proof (cases sse)
  case True
  with assms(1) obtain l where l: "copy_sse float64 (multi_write tracked_write log_write)
      (beside tracked_write) es keepalive
      (w, new_sse_log_writer \<lparr>cb_b = [], cb_max = max_medium_blob\<rparr>) = Some (None, (w', l), usage, first)"
    by (auto simp: copy_body_def)
  from tracked_events.copy_sse_counts(1) [OF l] assms(2) True show ?thesis
    by (simp add: body_usage_def)
next
  case False
  show ?thesis
  proof (cases ndjson)
    case True
    with assms(1) False obtain c where c: "copy_ndjson float64 (multi_write tracked_write cap_write) es
        (w, \<lparr>cb_b = [], cb_max = max_medium_blob\<rparr>) = Some (None, (w', c), usage, first)"
      by (auto simp: copy_body_def)
    from tracked_lines.copy_ndjson_usage [OF c] assms(2) True False show ?thesis
      by (simp add: body_usage_def)
  next
    case ndjson: False
    with assms(1) False have "usage = parse_usage_json float64 blob" by (auto simp: copy_body_def)
    with copy_body_blob [OF assms(1)] False ndjson show ?thesis by (simp add: body_usage_def)
  qed
qed

end
