(* ===== verification/Db.thy ===== *)
theory Db
  imports FileJson Proxy
begin

text \<open>
  \<^verbatim>\<open>db.go\<close>: the call log in MySQL. The tables are explicit state; each statement the code builds is
  one function on them, with the effect SQL gives it, and may fail with an error and no effect
  (\<open>err\<close> says which do). Times are nanoseconds. The connection itself (\<^verbatim>\<open>openDB\<close>, the DSN) is not
  modelled.
\<close>

subsection \<open>Rows and tables\<close>

record llm_call =
  call_created_at :: int
  call_model :: string
  call_provider :: string
  call_provider_model :: string
  call_api_key_name :: string
  call_input_tokens :: int64
  call_output_tokens :: int64
  call_cache_tokens :: int64
  call_uncached_tokens :: int64
  call_first_token_ms :: int
  call_output_speed :: "(int64 \<times> int) option"
  call_http_status :: int
  call_error :: string
  call_request_json :: "bytes option"
  call_response_json :: "bytes option"

record llm_file =
  file_mime :: string
  file_size :: nat
  file_data :: bytes
  file_created_at :: int
  file_visited_at :: int

record llm_call_file =
  cf_call :: nat
  cf_sha :: string
  cf_seq :: nat

record tables =
  llm_calls :: "(nat \<times> llm_call) list"
  llm_files :: "(string \<times> llm_file) list"
  llm_call_files :: "llm_call_file list"
  next_call_id :: nat

datatype statement = InsertCall | UpsertFiles | InsertJoins | ClearBlobs | DeleteJoins | DeleteFiles

subsection \<open>What fits a column\<close>

definition max_error_len :: nat where
  "max_error_len = 1024"

definition retainable_blob :: "bytes \<Rightarrow> bool" where
  "retainable_blob b = (b \<noteq> [] \<and> int (length b) \<le> max_medium_blob)"

definition clip_blob :: "bytes \<Rightarrow> bytes option" where
  "clip_blob b = (if b = [] \<or> max_medium_blob < int (length b) then None else Some b)"

function clip_valid :: "string \<Rightarrow> string" where
  "clip_valid s = (if \<not> valid_utf8 s \<and> s \<noteq> [] then clip_valid (butlast s) else s)"
  by pat_completeness auto
termination
  by (relation "measure length") auto

declare clip_valid.simps [simp del]

definition clip_error :: "string \<Rightarrow> string" where
  "clip_error s = (if length s \<le> max_error_len then s else clip_valid (take max_error_len s))"

subsection \<open>Recording a call\<close>

record call_logger =
  retain :: int
  pruning :: bool
  since_prune :: nat

definition prune_every_n :: nat where
  "prune_every_n = 50"

definition new_call_logger :: "int \<Rightarrow> call_logger" where
  "new_call_logger r = \<lparr>retain = r, pruning = False, since_prune = 0\<rparr>"

text \<open>The bodies and files of a record, before clipping.\<close>

definition record_bodies ::
  "(bytes \<Rightarrow> bytes) \<Rightarrow> (bytes \<Rightarrow> string) \<Rightarrow> int \<Rightarrow> call_record \<Rightarrow> bytes \<times> bytes \<times> extracted_file list" where
  "record_bodies sha detect r rec =
    (let req = rec_request_json rec; resp = the_or [] (rec_response_json rec) in
     if 0 < r then
       let (req, req_files) = (if retainable_blob req then extract_files sha detect req else (req, []));
           (resp, resp_files) = (if retainable_blob resp then extract_files sha detect resp else (resp, []))
       in (req, resp, merge_extracted req_files resp_files)
     else (req, resp, []))"

definition call_row :: "int \<Rightarrow> int \<Rightarrow> call_record \<Rightarrow> bytes \<Rightarrow> bytes \<Rightarrow> llm_call" where
  "call_row r now rec req resp =
    \<lparr>call_created_at = now, call_model = rec_model rec, call_provider = rec_provider rec,
     call_provider_model = rec_provider_model rec, call_api_key_name = rec_api_key_name rec,
     call_input_tokens = rec_input_tokens rec, call_output_tokens = rec_output_tokens rec,
     call_cache_tokens = rec_cache_tokens rec, call_uncached_tokens = rec_uncached_tokens rec,
     call_first_token_ms = rec_first_token_ms rec, call_output_speed = rec_output_speed rec,
     call_http_status = rec_http_status rec, call_error = clip_error (rec_error rec),
     call_request_json = (if r \<le> 0 then None else clip_blob req),
     call_response_json = (if r \<le> 0 then None else clip_blob resp)\<rparr>"

definition insert_call :: "llm_call \<Rightarrow> tables \<Rightarrow> nat \<times> tables" where
  "insert_call row t =
    (next_call_id t,
     t\<lparr>llm_calls := llm_calls t @ [(next_call_id t, row)], next_call_id := Suc (next_call_id t)\<rparr>)"

text \<open>\<^verbatim>\<open>INSERT ... ON DUPLICATE KEY UPDATE visited_at = now\<close>, row by row.\<close>

definition upsert_file :: "int \<Rightarrow> extracted_file \<Rightarrow> (string \<times> llm_file) list \<Rightarrow> (string \<times> llm_file) list" where
  "upsert_file now f fs =
    (case map_of fs (ef_sha f) of
       Some row \<Rightarrow> AList.update (ef_sha f) (row\<lparr>file_visited_at := now\<rparr>) fs
     | None \<Rightarrow>
         AList.update (ef_sha f)
           \<lparr>file_mime = ef_mime f, file_size = length (ef_data f), file_data = ef_data f,
            file_created_at = now, file_visited_at = now\<rparr> fs)"

definition upsert_files :: "int \<Rightarrow> extracted_file list \<Rightarrow> tables \<Rightarrow> tables" where
  "upsert_files now files t = t\<lparr>llm_files := fold (upsert_file now) files (llm_files t)\<rparr>"

definition join_rows :: "nat \<Rightarrow> extracted_file list \<Rightarrow> llm_call_file list" where
  "join_rows cid files =
    map (\<lambda>(i, f). \<lparr>cf_call = cid, cf_sha = ef_sha f, cf_seq = i\<rparr>) (enumerate 0 files)"

definition insert_joins :: "nat \<Rightarrow> extracted_file list \<Rightarrow> tables \<Rightarrow> tables" where
  "insert_joins cid files t = t\<lparr>llm_call_files := llm_call_files t @ join_rows cid files\<rparr>"

definition store_files ::
  "(statement \<Rightarrow> string option) \<Rightarrow> int \<Rightarrow> nat \<Rightarrow> extracted_file list \<Rightarrow> tables \<Rightarrow> string option \<times> tables" where
  "store_files err now cid files t =
    (if files = [] then (None, t)
     else
       (case err UpsertFiles of
          Some e \<Rightarrow> (Some e, t)
        | None \<Rightarrow>
            let t = upsert_files now files t in
            (case err InsertJoins of Some e \<Rightarrow> (Some e, t) | None \<Rightarrow> (None, insert_joins cid files t))))"

text \<open>
  \<^verbatim>\<open>Record\<close>: the tables it leaves, the lines it logs and whether it goes on to \<^verbatim>\<open>pruneAsync\<close>. \<open>have_db\<close>
  is the check for a nil logger or database; \<open>now\<close> is when the row is created, \<open>later\<close> when the
  files are stored.
\<close>

definition record_call ::
  "(bytes \<Rightarrow> bytes) \<Rightarrow> (bytes \<Rightarrow> string) \<Rightarrow> (statement \<Rightarrow> string option) \<Rightarrow> bool \<Rightarrow> int \<Rightarrow> int \<Rightarrow> int \<Rightarrow>
    call_record \<Rightarrow> tables \<Rightarrow> tables \<times> string list \<times> bool" where
  "record_call sha detect err have_db r now later rec t =
    (if \<not> have_db then (t, [], False)
     else
       let (req, resp, files) = record_bodies sha detect r rec in
       (case err InsertCall of
          Some e \<Rightarrow> (t, [''llm_calls insert: '' @ e], False)
        | None \<Rightarrow>
            let (cid, t) = insert_call (call_row r now rec req resp) t in
            (case store_files err later cid files t of
               (Some e, t) \<Rightarrow> (t, [''llm_files insert: '' @ e], True)
             | (None, t) \<Rightarrow> (t, [], True))))"

subsection \<open>Pruning\<close>

text \<open>
  \<^verbatim>\<open>pruneAsync\<close> up to the prune itself, and what it does when the prune has returned: the mutex is
  held while it runs. The second component says whether to prune.
\<close>

definition prune_async :: "call_logger \<Rightarrow> call_logger \<times> bool" where
  "prune_async l =
    (if pruning l then (l, False)
     else
       let l = l\<lparr>since_prune := Suc (since_prune l)\<rparr> in
       if since_prune l < prune_every_n then (l, False)
       else (l\<lparr>since_prune := 0, pruning := True\<rparr>, True))"

definition prune_done :: "call_logger \<Rightarrow> call_logger" where
  "prune_done l = l\<lparr>pruning := False\<rparr>"

text \<open>The zero \<^verbatim>\<open>time.Time\<close>: January 1, year 1.\<close>

definition zero_time :: int where
  "zero_time = - 62135596800 * 1000000000"

definition prune_file_scope :: "int \<Rightarrow> int \<Rightarrow> int \<times> bool" where
  "prune_file_scope r now = (if r \<le> 0 then (zero_time, True) else (now - r, False))"

definition clear_blobs :: "int \<Rightarrow> bool \<Rightarrow> tables \<Rightarrow> tables" where
  "clear_blobs cutoff every t =
    t\<lparr>llm_calls := map (\<lambda>(cid, c).
        (cid, if (call_request_json c \<noteq> None \<or> call_response_json c \<noteq> None) \<and> (every \<or> call_created_at c < cutoff)
             then c\<lparr>call_request_json := None, call_response_json := None\<rparr> else c)) (llm_calls t)\<rparr>"

definition delete_joins :: "int \<Rightarrow> bool \<Rightarrow> tables \<Rightarrow> tables" where
  "delete_joins cutoff every t =
    t\<lparr>llm_call_files := filter (\<lambda>j. \<not> (every \<or>
        (\<exists>(cid, c) \<in> set (llm_calls t). cid = cf_call j \<and> call_created_at c < cutoff))) (llm_call_files t)\<rparr>"

definition delete_files :: "int \<Rightarrow> bool \<Rightarrow> tables \<Rightarrow> tables" where
  "delete_files cutoff every t =
    t\<lparr>llm_files := filter (\<lambda>(sha, f). sha \<in> cf_sha ` set (llm_call_files t) \<or>
        \<not> (every \<or> file_visited_at f < cutoff)) (llm_files t)\<rparr>"

definition prune_files :: "(statement \<Rightarrow> string option) \<Rightarrow> int \<Rightarrow> bool \<Rightarrow> tables \<Rightarrow> string option \<times> tables" where
  "prune_files err cutoff every t =
    (case err DeleteJoins of
       Some e \<Rightarrow> (Some e, t)
     | None \<Rightarrow>
         let t = delete_joins cutoff every t in
         (case err DeleteFiles of Some e \<Rightarrow> (Some e, t) | None \<Rightarrow> (None, delete_files cutoff every t)))"

definition prune :: "(statement \<Rightarrow> string option) \<Rightarrow> int \<Rightarrow> int \<Rightarrow> tables \<Rightarrow> string option \<times> tables" where
  "prune err r now t =
    (let (cutoff, every) = prune_file_scope r now in
     case err ClearBlobs of
       Some e \<Rightarrow> (Some e, t)
     | None \<Rightarrow> prune_files err cutoff every (clear_blobs cutoff every t))"

subsection \<open>Clipping\<close>

lemma clip_valid_prefix: "prefix (clip_valid s) s \<and> valid_utf8 (clip_valid s)"
proof (induction s rule: clip_valid.induct)
  case (1 s)
  show ?case
  proof (cases "\<not> valid_utf8 s \<and> s \<noteq> []")
    case True
    with 1 have "prefix (clip_valid (butlast s)) (butlast s) \<and> valid_utf8 (clip_valid (butlast s))" by blast
    then show ?thesis using True by (simp add: clip_valid.simps [of s]) (meson prefix_order.trans prefixeq_butlast)
  next
    case False
    then show ?thesis by (subst (1 2) clip_valid.simps) auto
  qed
qed

lemma clip_valid_longest: "prefix p s \<Longrightarrow> valid_utf8 p \<Longrightarrow> prefix p (clip_valid s)"
proof (induction s rule: clip_valid.induct)
  case (1 s)
  show ?case
  proof (cases "\<not> valid_utf8 s \<and> s \<noteq> []")
    case True
    then have "p \<noteq> s" using 1 by auto
    then have "prefix p (butlast s)"
      using 1(2) True by (metis append_butlast_last_id prefix_snoc)
    with 1(1) [OF True] 1(3) True show ?thesis by (simp add: clip_valid.simps [of s])
  next
    case False
    then show ?thesis using 1 by (subst clip_valid.simps) auto
  qed
qed

lemma clip_error_fits: "length (clip_error s) \<le> max_error_len"
proof (cases "length s \<le> max_error_len")
  case False
  have "length (clip_valid (take max_error_len s)) \<le> length (take max_error_len s)"
    using clip_valid_prefix prefix_length_le by blast
  with False show ?thesis by (simp add: clip_error_def)
qed (simp add: clip_error_def)

subsection \<open>The files of a record\<close>

definition file_fits :: "(bytes \<Rightarrow> bytes) \<Rightarrow> extracted_file \<Rightarrow> bool" where
  "file_fits sha f \<longleftrightarrow> ef_sha f = hex_bytes (sha (ef_data f)) \<and> min_decoded_file_bytes \<le> length (ef_data f) \<and>
    int (length (ef_data f)) \<le> max_medium_blob"

lemma extract_files_fit: "extract_files sha detect body = (out, files) \<Longrightarrow> f \<in> set files \<Longrightarrow> file_fits sha f"
  by (cases sha detect body rule: extract_cases) (auto simp: files_ok_def file_fits_def)

lemma extract_files_distinct: "extract_files sha detect body = (out, files) \<Longrightarrow> distinct (map ef_sha files)"
  by (cases sha detect body rule: extract_cases) (auto simp: files_ok_def)

lemma merge_into_props:
  "set (merge_into seen fs) \<subseteq> set fs \<and> distinct (map ef_sha (merge_into seen fs)) \<and>
    ef_sha ` set (merge_into seen fs) = ef_sha ` set fs - set seen"
  by (induction seen fs rule: merge_into.induct) auto

lemma merge_extracted_props:
  assumes "distinct (map ef_sha a)" "distinct (map ef_sha b)"
  shows "set (merge_extracted a b) \<subseteq> set a \<union> set b" "distinct (map ef_sha (merge_extracted a b))"
    "ef_sha ` set (merge_extracted a b) = ef_sha ` set a \<union> ef_sha ` set b"
  using assms merge_into_props [of "[]" "a @ b"] by (auto simp: merge_extracted_def)

lemma record_bodies_files:
  assumes "record_bodies sha detect r rec = (req, resp, files)"
  shows "distinct (map ef_sha files)" "\<forall>f \<in> set files. file_fits sha f" "r \<le> 0 \<longrightarrow> files = []"
proof -
  obtain a fa where a: "(if retainable_blob (rec_request_json rec)
      then extract_files sha detect (rec_request_json rec) else (rec_request_json rec, [])) = (a, fa)" by fastforce
  obtain b fb where b: "(if retainable_blob (the_or [] (rec_response_json rec))
      then extract_files sha detect (the_or [] (rec_response_json rec)) else (the_or [] (rec_response_json rec), [])) = (b, fb)"
    by fastforce
  have d: "distinct (map ef_sha fa)" "distinct (map ef_sha fb)"
    using a b extract_files_distinct by (force split: if_splits)+
  have f: "\<forall>f \<in> set fa \<union> set fb. file_fits sha f"
    using a b extract_files_fit by (force split: if_splits)
  have "files = (if 0 < r then merge_extracted fa fb else [])"
    using assms a b by (auto simp: record_bodies_def Let_def split: if_splits)
  with merge_extracted_props [OF d] f
  show "distinct (map ef_sha files)" "\<forall>f \<in> set files. file_fits sha f" "r \<le> 0 \<longrightarrow> files = []"
    by auto
qed

subsection \<open>The type of the tables\<close>

text \<open>
  What the columns and keys of the tables demand, and what links them to the code's data: ids are
  below the next one and unique, blobs and errors fit, a file is under the digest of its data, a join
  row belongs to an existing call, at most one per call and file.
\<close>

definition call_fits :: "llm_call \<Rightarrow> bool" where
  "call_fits c \<longleftrightarrow> length (call_error c) \<le> max_error_len \<and>
    (\<forall>b. call_request_json c = Some b \<or> call_response_json c = Some b \<longrightarrow> retainable_blob b)"

definition row_fits :: "(bytes \<Rightarrow> bytes) \<Rightarrow> string \<times> llm_file \<Rightarrow> bool" where
  "row_fits sha kf \<longleftrightarrow> fst kf = hex_bytes (sha (file_data (snd kf))) \<and>
    file_size (snd kf) = length (file_data (snd kf)) \<and> min_decoded_file_bytes \<le> file_size (snd kf) \<and>
    int (file_size (snd kf)) \<le> max_medium_blob"

definition tables_ok :: "(bytes \<Rightarrow> bytes) \<Rightarrow> tables \<Rightarrow> bool" where
  "tables_ok sha t \<longleftrightarrow>
    distinct_keys (llm_calls t) \<and> (\<forall>(cid, c) \<in> set (llm_calls t). cid < next_call_id t \<and> call_fits c) \<and>
    distinct_keys (llm_files t) \<and> (\<forall>kf \<in> set (llm_files t). row_fits sha kf) \<and>
    distinct (map (\<lambda>j. (cf_call j, cf_sha j)) (llm_call_files t)) \<and>
    cf_call ` set (llm_call_files t) \<subseteq> fst ` set (llm_calls t)"

lemma call_row_fits: "call_fits (call_row r now rec req resp)"
  by (auto simp: call_fits_def call_row_def clip_error_fits clip_blob_def retainable_blob_def split: if_splits)

lemma insert_call_ok:
  "tables_ok sha t \<Longrightarrow> call_fits row \<Longrightarrow> tables_ok sha (snd (insert_call row t))"
proof -
  assume t: "tables_ok sha t" and row: "call_fits row"
  then have calls: "\<forall>(cid, c) \<in> set (llm_calls t). cid < next_call_id t \<and> call_fits c" by (simp add: tables_ok_def)
  then have "next_call_id t \<notin> fst ` set (llm_calls t)" by fastforce
  moreover have "\<forall>(cid, c) \<in> set (llm_calls t). cid < Suc (next_call_id t) \<and> call_fits c" using calls by fastforce
  ultimately show ?thesis using t row by (auto simp: tables_ok_def insert_call_def)
qed

lemma upsert_file_ok:
  assumes "distinct_keys fs" "\<forall>kf \<in> set fs. row_fits sha kf" "file_fits sha f"
  shows "distinct_keys (upsert_file now f fs) \<and> (\<forall>kf \<in> set (upsert_file now f fs). row_fits sha kf)"
proof -
  obtain row where row: "upsert_file now f fs = AList.update (ef_sha f) row fs" "row_fits sha (ef_sha f, row)"
  proof (cases "map_of fs (ef_sha f)")
    case None
    then show ?thesis using that assms(3) by (simp add: upsert_file_def row_fits_def file_fits_def)
  next
    case (Some row)
    then have "row_fits sha (ef_sha f, row)" using assms(2) map_of_SomeD by fast
    then have "row_fits sha (ef_sha f, row\<lparr>file_visited_at := now\<rparr>)" unfolding row_fits_def by simp
    with Some show ?thesis using that by (simp add: upsert_file_def)
  qed
  then show ?thesis using assms(1,2) set_update_subset by fastforce
qed

lemma upsert_files_ok:
  "tables_ok sha t \<Longrightarrow> \<forall>f \<in> set files. file_fits sha f \<Longrightarrow> tables_ok sha (upsert_files now files t)"
proof -
  have fold: "distinct_keys (fold (upsert_file now) files fs) \<and> (\<forall>kf \<in> set (fold (upsert_file now) files fs). row_fits sha kf)"
    if "distinct_keys fs" "\<forall>kf \<in> set fs. row_fits sha kf" "\<forall>f \<in> set files. file_fits sha f" for fs
    using that
  proof (induction files arbitrary: fs)
    case (Cons f files)
    have "file_fits sha f" using Cons.prems(3) by simp
    from upsert_file_ok [OF Cons.prems(1,2) this, of now] Cons.IH [of "upsert_file now f fs"] Cons.prems(3)
    show ?case by simp
  qed simp
  assume t: "tables_ok sha t" "\<forall>f \<in> set files. file_fits sha f"
  then have "distinct_keys (llm_files t)" "\<forall>kf \<in> set (llm_files t). row_fits sha kf" by (simp_all add: tables_ok_def)
  from fold [OF this t(2)] t(1) show ?thesis by (simp add: tables_ok_def upsert_files_def)
qed

lemma map_enumerate: "map (\<lambda>x. g (snd x)) (enumerate n xs) = map g xs"
  by (induction xs arbitrary: n) auto

lemma join_rows_sha: "map cf_sha (join_rows cid files) = map ef_sha files"
  using map_enumerate [of ef_sha] by (simp add: join_rows_def comp_def case_prod_beta')

lemma join_rows_call: "j \<in> set (join_rows cid files) \<Longrightarrow> cf_call j = cid"
  by (auto simp: join_rows_def)

lemma insert_joins_ok:
  assumes t: "tables_ok sha t" and d: "distinct (map ef_sha files)" and c: "cid \<in> fst ` set (llm_calls t)"
    and new: "\<forall>j \<in> set (llm_call_files t). cf_call j \<noteq> cid"
  shows "tables_ok sha (insert_joins cid files t)"
proof -
  have "distinct (map cf_sha (join_rows cid files))" using d by (simp add: join_rows_sha)
  then have "distinct (map (\<lambda>j. (cf_call j, cf_sha j)) (join_rows cid files))"
    by (rule_tac distinct_map [THEN iffD2]) (auto simp: distinct_map inj_on_def)
  moreover have "(\<lambda>j. (cf_call j, cf_sha j)) ` set (llm_call_files t) \<inter>
      (\<lambda>j. (cf_call j, cf_sha j)) ` set (join_rows cid files) = {}"
    using new join_rows_call by fastforce
  moreover have "cf_call ` set (join_rows cid files) \<subseteq> fst ` set (llm_calls t)"
    using c join_rows_call by fast
  ultimately show ?thesis using t by (simp add: tables_ok_def insert_joins_def image_Un)
qed

lemma clear_blobs_row:
  "(cid, c') \<in> set (llm_calls (clear_blobs cutoff every t)) \<Longrightarrow> \<exists>c. (cid, c) \<in> set (llm_calls t) \<and>
    (c' = c \<or> c' = c\<lparr>call_request_json := None, call_response_json := None\<rparr>)"
  by (auto simp: clear_blobs_def split: if_splits)

lemma clear_blobs_calls:
  "map fst (llm_calls (clear_blobs cutoff every t)) = map fst (llm_calls t)"
  by (simp add: clear_blobs_def comp_def case_prod_beta')

lemma clear_blobs_ok: "tables_ok sha t \<Longrightarrow> tables_ok sha (clear_blobs cutoff every t)"
proof -
  assume t: "tables_ok sha t"
  have "\<forall>(cid, c) \<in> set (llm_calls (clear_blobs cutoff every t)). cid < next_call_id t \<and> call_fits c"
  proof clarify
    fix cid c' assume "(cid, c') \<in> set (llm_calls (clear_blobs cutoff every t))"
    then obtain c where c: "(cid, c) \<in> set (llm_calls t)"
        "c' = c \<or> c' = c\<lparr>call_request_json := None, call_response_json := None\<rparr>"
      using clear_blobs_row by blast
    then have "cid < next_call_id t \<and> call_fits c" using t by (auto simp: tables_ok_def)
    with c(2) show "cid < next_call_id t \<and> call_fits c'" unfolding call_fits_def by auto
  qed
  moreover have "fst ` set (llm_calls (clear_blobs cutoff every t)) = fst ` set (llm_calls t)"
    using clear_blobs_calls by (metis list.set_map)
  ultimately show ?thesis
    using t clear_blobs_calls [of cutoff every t] by (simp add: tables_ok_def) (simp add: clear_blobs_def)
qed

lemma delete_joins_ok: "tables_ok sha t \<Longrightarrow> tables_ok sha (delete_joins cutoff every t)"
  by (auto simp: tables_ok_def delete_joins_def distinct_map_filter)

lemma delete_files_ok: "tables_ok sha t \<Longrightarrow> tables_ok sha (delete_files cutoff every t)"
  by (auto simp: tables_ok_def delete_files_def distinct_map_filter)

lemmas statement_ok = insert_call_ok upsert_files_ok insert_joins_ok clear_blobs_ok delete_joins_ok delete_files_ok

end
