(* ===== verification/DbRace.thy ===== *)
theory DbRace
  imports Db "HOL-Library.Multiset"
begin

text \<open>
  Recorders and pruners of any number of gateways on one database, statement by statement. A step is
  one statement, one reading of the clock, or the passing of time. A statement may fail; what it was
  part of then ends. \<open>d\<close> bounds the time a recorder takes from reading the clock in \<^verbatim>\<open>storeFiles\<close> to
  its last statement.
\<close>

subsection \<open>The system\<close>

datatype recorder =
  Inserted nat "extracted_file list"
| Storing nat "extracted_file list" int
| Joining nat "extracted_file list" int

datatype pruner =
  Clearing int bool
| Unjoining int bool
| Deleting int bool

record system =
  db :: tables
  clock :: int
  recorders :: "recorder multiset"
  pruners :: "pruner multiset"

fun in_time :: "int \<Rightarrow> int \<Rightarrow> recorder \<Rightarrow> bool" where
  "in_time d now (Inserted cid fs) = True"
| "in_time d now (Storing cid fs t) = (now \<le> t + d)"
| "in_time d now (Joining cid fs t) = (now \<le> t + d)"

inductive db_step ::
  "(bytes \<Rightarrow> bytes) \<Rightarrow> (bytes \<Rightarrow> string) \<Rightarrow> int \<Rightarrow> int \<Rightarrow> system \<Rightarrow> system \<Rightarrow> bool" for sha detect r d where
  tick: "clock s \<le> now \<Longrightarrow> \<forall>x \<in># recorders s. in_time d now x \<Longrightarrow> db_step sha detect r d s (s\<lparr>clock := now\<rparr>)"
| insert: "record_bodies sha detect r rec = (req, resp, files) \<Longrightarrow>
    insert_call (call_row r (clock s) rec req resp) (db s) = (cid, t) \<Longrightarrow>
    db_step sha detect r d s (s\<lparr>db := t, recorders :=
      (if files = [] then recorders s else add_mset (Inserted cid files) (recorders s))\<rparr>)"
| read_clock: "recorders s = add_mset (Inserted cid files) xs \<Longrightarrow>
    db_step sha detect r d s (s\<lparr>recorders := add_mset (Storing cid files (clock s)) xs\<rparr>)"
| upsert: "recorders s = add_mset (Storing cid files now) xs \<Longrightarrow>
    db_step sha detect r d s (s\<lparr>db := upsert_files now files (db s), recorders := add_mset (Joining cid files now) xs\<rparr>)"
| join: "recorders s = add_mset (Joining cid files now) xs \<Longrightarrow>
    db_step sha detect r d s (s\<lparr>db := insert_joins cid files (db s), recorders := xs\<rparr>)"
| record_fails: "recorders s = add_mset x xs \<Longrightarrow> db_step sha detect r d s (s\<lparr>recorders := xs\<rparr>)"
| prune_starts: "prune_file_scope r (clock s) = (cutoff, every) \<Longrightarrow>
    db_step sha detect r d s (s\<lparr>pruners := add_mset (Clearing cutoff every) (pruners s)\<rparr>)"
| clear: "pruners s = add_mset (Clearing cutoff every) ps \<Longrightarrow>
    db_step sha detect r d s (s\<lparr>db := clear_blobs cutoff every (db s), pruners := add_mset (Unjoining cutoff every) ps\<rparr>)"
| unjoin: "pruners s = add_mset (Unjoining cutoff every) ps \<Longrightarrow>
    db_step sha detect r d s (s\<lparr>db := delete_joins cutoff every (db s), pruners := add_mset (Deleting cutoff every) ps\<rparr>)"
| delete: "pruners s = add_mset (Deleting cutoff every) ps \<Longrightarrow>
    db_step sha detect r d s (s\<lparr>db := delete_files cutoff every (db s), pruners := ps\<rparr>)"
| prune_fails: "pruners s = add_mset x ps \<Longrightarrow> db_step sha detect r d s (s\<lparr>pruners := ps\<rparr>)"

abbreviation db_run where
  "db_run sha detect r d \<equiv> (db_step sha detect r d)\<^sup>*\<^sup>*"

definition quiet :: "tables \<Rightarrow> int \<Rightarrow> system" where
  "quiet t now = \<lparr>db = t, clock = now, recorders = {#}, pruners = {#}\<rparr>"

subsection \<open>The type of the system\<close>

fun recorder_call :: "recorder \<Rightarrow> nat" where
  "recorder_call (Inserted cid fs) = cid"
| "recorder_call (Storing cid fs t) = cid"
| "recorder_call (Joining cid fs t) = cid"

fun recorder_files :: "recorder \<Rightarrow> extracted_file list" where
  "recorder_files (Inserted cid fs) = fs"
| "recorder_files (Storing cid fs t) = fs"
| "recorder_files (Joining cid fs t) = fs"

definition recorder_ok :: "(bytes \<Rightarrow> bytes) \<Rightarrow> tables \<Rightarrow> recorder \<Rightarrow> bool" where
  "recorder_ok sha t x \<longleftrightarrow> recorder_call x \<in> fst ` set (llm_calls t) \<and>
    (\<forall>j \<in> set (llm_call_files t). cf_call j \<noteq> recorder_call x) \<and>
    distinct (map ef_sha (recorder_files x)) \<and> (\<forall>f \<in> set (recorder_files x). file_fits sha f)"

definition calls_apart :: "recorder multiset \<Rightarrow> bool" where
  "calls_apart M \<longleftrightarrow> (\<forall>n. count (image_mset recorder_call M) n \<le> 1)"

definition system_ok :: "(bytes \<Rightarrow> bytes) \<Rightarrow> system \<Rightarrow> bool" where
  "system_ok sha s \<longleftrightarrow> tables_ok sha (db s) \<and> (\<forall>x \<in># recorders s. recorder_ok sha (db s) x) \<and>
    calls_apart (recorders s)"

lemma recorder_ok_mono:
  "recorder_ok sha t x \<Longrightarrow> fst ` set (llm_calls t) \<subseteq> fst ` set (llm_calls t') \<Longrightarrow>
    cf_call ` set (llm_call_files t') \<subseteq> cf_call ` set (llm_call_files t) \<Longrightarrow> recorder_ok sha t' x"
proof -
  assume x: "recorder_ok sha t x" and c: "fst ` set (llm_calls t) \<subseteq> fst ` set (llm_calls t')"
    and j: "cf_call ` set (llm_call_files t') \<subseteq> cf_call ` set (llm_call_files t)"
  have "recorder_call x \<in> fst ` set (llm_calls t')" using x subsetD [OF c] by (simp add: recorder_ok_def)
  moreover have "recorder_call x \<notin> cf_call ` set (llm_call_files t)" using x by (auto simp: recorder_ok_def)
  then have "recorder_call x \<notin> cf_call ` set (llm_call_files t')" using j by blast
  then have "\<forall>j \<in> set (llm_call_files t'). cf_call j \<noteq> recorder_call x" by force
  ultimately show ?thesis using x by (simp add: recorder_ok_def)
qed

lemma recorder_ok_same:
  "recorder_ok sha t x \<Longrightarrow> recorder_call y = recorder_call x \<Longrightarrow> recorder_files y = recorder_files x \<Longrightarrow>
    recorder_ok sha t y"
  by (simp add: recorder_ok_def)

lemma calls_apart_empty [simp]: "calls_apart {#}"
  by (simp add: calls_apart_def)

lemma calls_apart_add [simp]:
  "calls_apart (add_mset x M) \<longleftrightarrow> calls_apart M \<and> (\<forall>y \<in># M. recorder_call y \<noteq> recorder_call x)"
proof -
  have "(\<forall>y \<in># M. recorder_call y \<noteq> recorder_call x) \<longleftrightarrow> count (image_mset recorder_call M) (recorder_call x) = 0"
    by (simp add: count_eq_zero_iff image_iff) metis
  then show ?thesis by (auto simp: calls_apart_def le_Suc_eq split: if_splits)
qed

lemma system_ok_db:
  assumes "system_ok sha s" "tables_ok sha t" "fst ` set (llm_calls (db s)) \<subseteq> fst ` set (llm_calls t)"
    "cf_call ` set (llm_call_files t) \<subseteq> cf_call ` set (llm_call_files (db s))"
  shows "system_ok sha (s\<lparr>db := t\<rparr>)"
  using assms recorder_ok_mono by (auto simp: system_ok_def)

text \<open>A statement that keeps the calls and adds no join rows.\<close>

lemma system_ok_stmt:
  assumes "system_ok sha s" "tables_ok sha t" "map fst (llm_calls t) = map fst (llm_calls (db s))"
    "set (llm_call_files t) \<subseteq> set (llm_call_files (db s))"
  shows "system_ok sha (s\<lparr>db := t\<rparr>)"
proof (rule system_ok_db [OF assms(1,2)])
  show "fst ` set (llm_calls (db s)) \<subseteq> fst ` set (llm_calls t)" using assms(3) by (metis list.set_map order.refl)
qed (use assms(4) in blast)

lemma system_ok_pruners [simp]: "system_ok sha (s\<lparr>pruners := ps\<rparr>) = system_ok sha s"
  by (simp add: system_ok_def)

lemma system_ok_replace:
  "system_ok sha s \<Longrightarrow> recorders s = add_mset x xs \<Longrightarrow> recorder_call y = recorder_call x \<Longrightarrow>
    recorder_files y = recorder_files x \<Longrightarrow> system_ok sha (s\<lparr>recorders := add_mset y xs\<rparr>)"
  by (auto simp: system_ok_def recorder_ok_def)

lemma system_ok_drop: "system_ok sha s \<Longrightarrow> recorders s = add_mset x xs \<Longrightarrow> system_ok sha (s\<lparr>recorders := xs\<rparr>)"
  by (auto simp: system_ok_def)

lemma step_system_ok: "db_step sha detect r d s s' \<Longrightarrow> system_ok sha s \<Longrightarrow> system_ok sha s'"
proof (induction rule: db_step.induct)
  case (tick s now)
  then show ?case by (simp add: system_ok_def)
next
  case (insert rec req resp files s cid t)
  let ?row = "call_row r (clock s) rec req resp"
  have t: "t = snd (insert_call ?row (db s))" "cid = next_call_id (db s)"
    using insert.hyps(2) by (auto simp: insert_call_def)
  have ok: "tables_ok sha (db s)" using insert.prems by (simp add: system_ok_def)
  then have fresh: "\<forall>k \<in> fst ` set (llm_calls (db s)). k < cid" by (fastforce simp: tables_ok_def t(2))
  have "system_ok sha (s\<lparr>db := t\<rparr>)"
    unfolding t(1) by (rule system_ok_db [OF insert.prems insert_call_ok [OF ok call_row_fits]]) (auto simp: insert_call_def)
  moreover have "recorder_ok sha t (Inserted cid files)"
    using record_bodies_files [OF insert.hyps(1)] ok fresh
    by (fastforce simp: recorder_ok_def t insert_call_def tables_ok_def)
  moreover have "\<forall>y \<in># recorders s. recorder_call y \<noteq> cid"
    using insert.prems fresh by (fastforce simp: system_ok_def recorder_ok_def)
  ultimately show ?case by (auto simp: system_ok_def)
next
  case (read_clock s cid files xs)
  then show ?case by (intro system_ok_replace) auto
next
  case (upsert s cid files now xs)
  then have "recorder_ok sha (db s) (Storing cid files now)" by (simp add: system_ok_def)
  then have "tables_ok sha (upsert_files now files (db s))"
    using upsert.prems by (intro upsert_files_ok) (auto simp: system_ok_def recorder_ok_def)
  then have "system_ok sha (s\<lparr>db := upsert_files now files (db s)\<rparr>)"
    by (intro system_ok_stmt [OF upsert.prems]) (simp_all add: upsert_files_def)
  from system_ok_replace [OF this, of "Storing cid files now" xs "Joining cid files now"] upsert.hyps
  show ?case by simp
next
  case (join s cid files now xs)
  then have x: "recorder_ok sha (db s) (Joining cid files now)" "\<forall>y \<in># xs. recorder_call y \<noteq> cid"
    "\<forall>y \<in># xs. recorder_ok sha (db s) y" "tables_ok sha (db s)" "calls_apart xs" by (auto simp: system_ok_def)
  then have "tables_ok sha (insert_joins cid files (db s))"
    by (intro insert_joins_ok) (auto simp: recorder_ok_def)
  moreover have "recorder_ok sha (insert_joins cid files (db s)) y" if "y \<in># xs" for y
    using x that join_rows_call by (fastforce simp: recorder_ok_def insert_joins_def)
  ultimately show ?case using x(5) by (simp add: system_ok_def)
next
  case (record_fails s x xs)
  then show ?case by (rule_tac system_ok_drop)
next
  case (clear s cutoff every ps)
  then have "system_ok sha (s\<lparr>db := clear_blobs cutoff every (db s)\<rparr>)"
    by (intro system_ok_stmt clear_blobs_ok) (simp_all add: system_ok_def clear_blobs_calls, simp add: clear_blobs_def)
  then show ?case by (simp add: system_ok_def)
next
  case (unjoin s cutoff every ps)
  then have "system_ok sha (s\<lparr>db := delete_joins cutoff every (db s)\<rparr>)"
    by (intro system_ok_stmt delete_joins_ok) (simp_all add: system_ok_def, auto simp: delete_joins_def)
  then show ?case by (simp add: system_ok_def)
next
  case (delete s cutoff every ps)
  then have "system_ok sha (s\<lparr>db := delete_files cutoff every (db s)\<rparr>)"
    by (intro system_ok_stmt delete_files_ok) (simp_all add: system_ok_def, auto simp: delete_files_def)
  then show ?case by (simp add: system_ok_def)
qed simp_all

lemma run_system_ok: "db_run sha detect r d s s' \<Longrightarrow> system_ok sha s \<Longrightarrow> system_ok sha s'"
  by (induction rule: rtranclp_induct) (auto intro: step_system_ok)

subsection \<open>Every file a join row names is there\<close>

definition visited_since :: "int \<Rightarrow> string \<Rightarrow> tables \<Rightarrow> bool" where
  "visited_since v k t \<longleftrightarrow> (\<exists>row. (k, row) \<in> set (llm_files t) \<and> v \<le> file_visited_at row)"

definition joined :: "tables \<Rightarrow> bool" where
  "joined t \<longleftrightarrow> cf_sha ` set (llm_call_files t) \<subseteq> fst ` set (llm_files t)"

lemma update_mem: "(k, v) \<in> set (AList.update k v m)"
  by (induction m) auto

lemma update_keeps: "(k', v') \<in> set m \<Longrightarrow> k' \<noteq> k \<Longrightarrow> (k', v') \<in> set (AList.update k v m)"
  by (induction m) auto

lemma upsert_file_row:
  "\<exists>row. upsert_file now f fs = AList.update (ef_sha f) row fs \<and> file_visited_at row = now"
  by (auto simp: upsert_file_def split: option.splits)

lemma upsert_file_since:
  assumes "(k, row) \<in> set fs" "v \<le> file_visited_at row" "v \<le> now"
  shows "\<exists>row. (k, row) \<in> set (upsert_file now f fs) \<and> v \<le> file_visited_at row"
proof -
  obtain nrow where n: "upsert_file now f fs = AList.update (ef_sha f) nrow fs" "file_visited_at nrow = now"
    using upsert_file_row by blast
  with assms show ?thesis by (cases "k = ef_sha f") (auto intro: update_mem update_keeps)
qed

lemma upsert_files_since:
  assumes "visited_since v k t" "v \<le> now"
  shows "visited_since v k (upsert_files now files t)"
proof -
  have "\<exists>row. (k, row) \<in> set (fold (upsert_file now) files fs) \<and> v \<le> file_visited_at row"
    if "(k, row) \<in> set fs" "v \<le> file_visited_at row" for fs row
    using that
  proof (induction files arbitrary: fs row)
    case (Cons f files)
    then show ?case using upsert_file_since [OF Cons.prems assms(2), of f] by auto
  qed auto
  with assms(1) show ?thesis by (fastforce simp: visited_since_def upsert_files_def)
qed

lemma upsert_files_visits:
  assumes "f \<in> set files"
  shows "visited_since now (ef_sha f) (upsert_files now files t)"
proof -
  obtain a b where f: "files = a @ f # b" using assms by (meson split_list)
  let ?t = "t\<lparr>llm_files := upsert_file now f (fold (upsert_file now) a (llm_files t))\<rparr>"
  have "visited_since now (ef_sha f) ?t"
    using upsert_file_row [of now f "fold (upsert_file now) a (llm_files t)"] update_mem
    by (force simp: visited_since_def)
  from upsert_files_since [OF this, of now b] show ?thesis
    by (simp add: visited_since_def upsert_files_def f)
qed

lemma visited_since_present: "visited_since v k t \<Longrightarrow> k \<in> fst ` set (llm_files t)"
  by (force simp: visited_since_def)

lemma upsert_files_joined: "joined t \<Longrightarrow> joined (upsert_files now files t)"
proof -
  assume j: "joined t"
  have "k \<in> fst ` set (llm_files (upsert_files now files t))" if k: "k \<in> fst ` set (llm_files t)" for k
  proof -
    obtain row where "(k, row) \<in> set (llm_files t)" using k by force
    then have "visited_since (min now (file_visited_at row)) k t" by (auto simp: visited_since_def)
    then show ?thesis by (rule visited_since_present [OF upsert_files_since]) simp
  qed
  with j show ?thesis by (auto simp: joined_def upsert_files_def)
qed

lemma delete_files_since: "visited_since v k t \<Longrightarrow> cutoff \<le> v \<Longrightarrow> visited_since v k (delete_files cutoff False t)"
  by (force simp: visited_since_def delete_files_def)

lemma delete_files_joined: "joined t \<Longrightarrow> joined (delete_files cutoff every t)"
  by (force simp: joined_def delete_files_def)

fun recorder_safe :: "int \<Rightarrow> int \<Rightarrow> tables \<Rightarrow> recorder \<Rightarrow> bool" where
  "recorder_safe d now t (Inserted cid fs) = True"
| "recorder_safe d now t (Storing cid fs u) = (u \<le> now \<and> now \<le> u + d)"
| "recorder_safe d now t (Joining cid fs u) =
    (u \<le> now \<and> now \<le> u + d \<and> (\<forall>f \<in> set fs. visited_since (u - d) (ef_sha f) t))"

fun pruner_scope :: "pruner \<Rightarrow> int \<times> bool" where
  "pruner_scope (Clearing c a) = (c, a)"
| "pruner_scope (Unjoining c a) = (c, a)"
| "pruner_scope (Deleting c a) = (c, a)"

definition race_safe :: "int \<Rightarrow> int \<Rightarrow> system \<Rightarrow> bool" where
  "race_safe r d s \<longleftrightarrow> joined (db s) \<and>
    (if 0 < r
     then (\<forall>x \<in># recorders s. recorder_safe d (clock s) (db s) x) \<and>
       (\<forall>p \<in># pruners s. \<not> snd (pruner_scope p) \<and> fst (pruner_scope p) \<le> clock s - r)
     else recorders s = {#})"

lemma recorder_safe_later:
  "recorder_safe d now t x \<Longrightarrow> now \<le> now' \<Longrightarrow> in_time d now' x \<Longrightarrow> recorder_safe d now' t x"
  by (cases x) auto

lemma recorder_safe_db:
  "recorder_safe d now t x \<Longrightarrow> (\<And>k u. u \<le> now \<Longrightarrow> now \<le> u + d \<Longrightarrow> visited_since (u - d) k t \<Longrightarrow> visited_since (u - d) k t') \<Longrightarrow>
    recorder_safe d now t' x"
  by (cases x) auto

lemma step_race_safe:
  assumes "2 * d \<le> r \<or> r \<le> 0" "0 \<le> d"
  shows "db_step sha detect r d s s' \<Longrightarrow> race_safe r d s \<Longrightarrow> race_safe r d s'"
proof (induction rule: db_step.induct)
  case (tick s now)
  have "recorder_safe d now (db s) x" if "x \<in># recorders s" "recorder_safe d (clock s) (db s) x" for x
    using recorder_safe_later [OF that(2) tick.hyps(1)] tick.hyps(2) that(1) by blast
  moreover have "c \<le> clock s - r \<Longrightarrow> c \<le> now - r" for c using tick.hyps(1) by simp
  ultimately show ?case using tick.prems by (simp add: race_safe_def split: if_splits)
next
  case (insert rec req resp files s cid t)
  have same: "llm_files t = llm_files (db s)" "llm_call_files t = llm_call_files (db s)"
    using insert.hyps(2) by (auto simp: insert_call_def)
  then have "joined t \<longleftrightarrow> joined (db s)" by (simp add: joined_def)
  moreover have "visited_since v k t \<longleftrightarrow> visited_since v k (db s)" for v k
    by (simp add: visited_since_def same)
  then have "recorder_safe d (clock s) t x \<longleftrightarrow> recorder_safe d (clock s) (db s) x" for x
    by (cases x) auto
  moreover have "r \<le> 0 \<Longrightarrow> files = []" using record_bodies_files(3) [OF insert.hyps(1)] by simp
  ultimately show ?case using insert.prems by (auto simp: race_safe_def)
next
  case (read_clock s cid files xs)
  then show ?case using assms(2) by (auto simp: race_safe_def split: if_splits)
next
  case (upsert s cid files now xs)
  have r: "0 < r" using upsert by (auto simp: race_safe_def split: if_splits)
  then have now: "now \<le> clock s" "clock s \<le> now + d" and xs: "\<forall>x \<in># xs. recorder_safe d (clock s) (db s) x"
    using upsert by (auto simp: race_safe_def)
  have "recorder_safe d (clock s) (upsert_files now files (db s)) x" if "x \<in># xs" for x
    using xs [rule_format, OF that] by (rule recorder_safe_db) (use now in \<open>auto intro: upsert_files_since\<close>)
  moreover have "visited_since (now - d) (ef_sha f) (upsert_files now files (db s))" if "f \<in> set files" for f
    using upsert_files_visits [OF that, of now "db s"] assms(2) by (auto simp: visited_since_def)
  ultimately show ?case
    using upsert.prems r now by (auto simp: race_safe_def upsert_files_joined)
next
  case (join s cid files now xs)
  have r: "0 < r" using join by (auto simp: race_safe_def split: if_splits)
  then have "\<forall>f \<in> set files. visited_since (now - d) (ef_sha f) (db s)" using join by (auto simp: race_safe_def)
  then have "ef_sha ` set files \<subseteq> fst ` set (llm_files (db s))" by (auto dest!: visited_since_present)
  then have "joined (insert_joins cid files (db s))"
    using join.prems arg_cong [OF join_rows_sha, of set cid files]
    by (simp add: race_safe_def joined_def insert_joins_def image_Un)
  moreover have "recorder_safe d (clock s) (insert_joins cid files (db s)) x"
    if "recorder_safe d (clock s) (db s) x" for x
    using that by (rule recorder_safe_db) (simp add: visited_since_def insert_joins_def)
  ultimately show ?case using join r by (auto simp: race_safe_def)
next
  case (record_fails s x xs)
  then show ?case by (auto simp: race_safe_def split: if_splits)
next
  case (prune_starts s cutoff every)
  then show ?case by (auto simp: race_safe_def prune_file_scope_def split: if_splits)
next
  case (clear s cutoff every ps)
  have "recorder_safe d (clock s) (clear_blobs cutoff every (db s)) x" if "recorder_safe d (clock s) (db s) x" for x
    using that by (rule recorder_safe_db) (simp add: visited_since_def clear_blobs_def)
  moreover have "joined (clear_blobs cutoff every (db s)) = joined (db s)" by (simp add: joined_def clear_blobs_def)
  ultimately show ?case using clear by (auto simp: race_safe_def)
next
  case (unjoin s cutoff every ps)
  have "recorder_safe d (clock s) (delete_joins cutoff every (db s)) x" if "recorder_safe d (clock s) (db s) x" for x
    using that by (rule recorder_safe_db) (simp add: visited_since_def delete_joins_def)
  moreover have "joined (db s) \<Longrightarrow> joined (delete_joins cutoff every (db s))" by (auto simp: joined_def delete_joins_def)
  ultimately show ?case using unjoin by (auto simp: race_safe_def)
next
  case (delete s cutoff every ps)
  show ?case
  proof (cases "0 < r")
    case True
    then have c: "\<not> every" "cutoff \<le> clock s - r" and r: "2 * d \<le> r"
      using delete assms(1) by (auto simp: race_safe_def)
    have "recorder_safe d (clock s) (delete_files cutoff every (db s)) x"
      if "recorder_safe d (clock s) (db s) x" for x
      using that by (rule recorder_safe_db) (use c r delete_files_since in auto)
    with delete True show ?thesis by (auto simp: race_safe_def delete_files_joined)
  next
    case False
    with delete show ?thesis by (simp add: race_safe_def delete_files_joined)
  qed
next
  case (prune_fails s x ps)
  then show ?case by (auto simp: race_safe_def split: if_splits)
qed

lemma run_race_safe:
  "2 * d \<le> r \<or> r \<le> 0 \<Longrightarrow> 0 \<le> d \<Longrightarrow> db_run sha detect r d s s' \<Longrightarrow> race_safe r d s \<Longrightarrow> race_safe r d s'"
  by (rotate_tac 2, induction rule: rtranclp_induct) (auto intro: step_race_safe)

subsection \<open>The sequential functions are runs\<close>

lemma run_step: "db_step sha detect r d s s' \<Longrightarrow> db_run sha detect r d s' s'' \<Longrightarrow> db_run sha detect r d s s''"
  by (rule converse_rtranclp_into_rtranclp)

lemma run_last: "db_step sha detect r d s s' \<Longrightarrow> db_run sha detect r d s s'"
  by (rule r_into_rtranclp)

lemma run_tick: "clock s \<le> now \<Longrightarrow> recorders s = {#} \<Longrightarrow> db_step sha detect r d s (s\<lparr>clock := now\<rparr>)"
  by (rule tick) simp_all

lemma prune_run:
  assumes "prune err r now t = (e, t')"
  shows "db_run sha detect r d (quiet t now) (quiet t' now)"
proof -
  obtain cutoff every where sc: "prune_file_scope r now = (cutoff, every)" by fastforce
  let ?p = "\<lambda>t p. (quiet t now)\<lparr>pruners := {#p#}\<rparr>"
  have q: "(?p t p)\<lparr>pruners := {#}\<rparr> = quiet t now" for t p by (simp add: quiet_def)
  have fails: "db_step sha detect r d (?p t p) (quiet t now)" for t p
    using prune_fails [of "?p t p" p "{#}"] unfolding q by simp
  have 1: "db_step sha detect r d (quiet t now) (?p t (Clearing cutoff every))"
    using prune_starts [of r "quiet t now" cutoff every] sc by (simp add: quiet_def)
  have 2: "db_step sha detect r d (?p t (Clearing cutoff every)) (?p (clear_blobs cutoff every t) (Unjoining cutoff every))" for t
    using clear [of "?p t (Clearing cutoff every)" cutoff every "{#}"] by (simp add: quiet_def)
  have 3: "db_step sha detect r d (?p t (Unjoining cutoff every)) (?p (delete_joins cutoff every t) (Deleting cutoff every))" for t
    using unjoin [of "?p t (Unjoining cutoff every)" cutoff every "{#}"] by (simp add: quiet_def)
  have 4: "db_step sha detect r d (?p t (Deleting cutoff every)) (quiet (delete_files cutoff every t) now)" for t
    using delete [of "?p t (Deleting cutoff every)" cutoff every "{#}"] by (simp add: quiet_def)
  from assms show ?thesis
    unfolding prune_def prune_files_def sc Let_def prod.case
    by (auto split: option.splits intro: run_step [OF 1] run_step [OF 2] run_step [OF 3] run_last [OF 4]
        run_last [OF fails])
qed

lemma record_run:
  assumes "record_call sha detect err have_db r now later rec t = (t', logs, p)" "now \<le> later" "0 \<le> d"
  shows "db_run sha detect r d (quiet t now) (quiet t' later)"
proof -
  have wait: "db_step sha detect r d (quiet t now) (quiet t later)" for t
    using run_tick [of "quiet t now" later] assms(2) by (simp add: quiet_def)
  obtain req resp files where b: "record_bodies sha detect r rec = (req, resp, files)" by (metis prod_cases3)
  obtain cid t1 where i: "insert_call (call_row r now rec req resp) t = (cid, t1)" by fastforce
  let ?r = "\<lambda>t n x. \<lparr>db = t, clock = n, recorders = {#x#}, pruners = {#}\<rparr>"
  have fails: "db_step sha detect r d (?r t n x) (quiet t n)" for t n x
    using record_fails [of "?r t n x" x "{#}"] by (simp add: quiet_def)
  have 1: "db_step sha detect r d (quiet t now)
      (if files = [] then quiet t1 now else ?r t1 now (Inserted cid files))"
    using insert [OF b, of "quiet t now" cid t1] i by (cases "files = []") (simp_all add: quiet_def)
  have 2: "db_step sha detect r d (?r t1 now (Inserted cid files)) (?r t1 later (Inserted cid files))"
    using tick [of "?r t1 now (Inserted cid files)" later] assms(2) by simp
  have 3: "db_step sha detect r d (?r t1 later (Inserted cid files)) (?r t1 later (Storing cid files later))"
    using read_clock [of "?r t1 later (Inserted cid files)" cid files "{#}"] by simp
  have 4: "db_step sha detect r d (?r t1 later (Storing cid files later))
      (?r (upsert_files later files t1) later (Joining cid files later))"
    using upsert [of "?r t1 later (Storing cid files later)" cid files later "{#}"] by simp
  have 5: "db_step sha detect r d (?r t2 later (Joining cid files later)) (quiet (insert_joins cid files t2) later)" for t2
    using join [of "?r t2 later (Joining cid files later)" cid files later "{#}"] by (simp add: quiet_def)
  show ?thesis
  proof (cases "have_db \<and> err InsertCall = None")
    case False
    then have "t' = t" using assms(1) by (cases have_db) (auto simp: record_call_def b i split: option.splits)
    with wait show ?thesis by (simp add: run_last)
  next
    case True
    then have t': "t' = snd (store_files err later cid files t1)"
      using assms(1) by (auto simp: record_call_def b i split: prod.splits option.splits)
    show ?thesis
    proof (cases "files = []")
      case True
      with t' have "t' = t1" by (simp add: store_files_def)
      with True 1 wait show ?thesis by (simp add: run_step run_last)
    next
      case False
      have "db_run sha detect r d (?r t1 later (Storing cid files later)) (quiet t' later)"
        unfolding t' store_files_def Let_def
        using False by (auto split: option.splits intro: run_step [OF 4] run_last [OF 5] run_last [OF fails])
      from run_step [OF 2 run_step [OF 3 this]] 1 False show ?thesis by (simp add: run_step)
    qed
  qed
qed

subsection \<open>The bound is sharp\<close>

lemma update_set_distinct:
  "distinct_keys m \<Longrightarrow> set (AList.update k v m) = insert (k, v) {kv \<in> set m. fst kv \<noteq> k}"
proof (cases "k \<in> fst ` set m")
  case True
  assume d: "distinct_keys m"
  show ?thesis unfolding update_existing [OF d True] using True by force
next
  case False
  then have "{kv \<in> set m. fst kv \<noteq> k} = set m" by force
  then show ?thesis by (simp add: update_new [OF False])
qed

lemma upsert_fold_rows:
  "distinct_keys fs \<Longrightarrow> (k, row) \<in> set (fold (upsert_file now) files fs) \<Longrightarrow>
    file_visited_at row = now \<or> (k, row) \<in> set fs \<and> k \<notin> ef_sha ` set files"
proof (induction files arbitrary: fs)
  case (Cons f files)
  obtain nrow where n: "upsert_file now f fs = AList.update (ef_sha f) nrow fs" "file_visited_at nrow = now"
    using upsert_file_row by blast
  then have "distinct_keys (upsert_file now f fs)" using Cons.prems(1) by simp
  from Cons.IH [OF this] Cons.prems(2) n update_set_distinct [OF Cons.prems(1), of "ef_sha f" nrow]
  show ?case by auto
qed simp

lemma upsert_fold_keys:
  "fst ` set (fold (upsert_file now) files fs) = fst ` set fs \<union> ef_sha ` set files"
proof (induction files arbitrary: fs)
  case (Cons f files)
  obtain nrow where "upsert_file now f fs = AList.update (ef_sha f) nrow fs" using upsert_file_row by blast
  then have "fst ` set (upsert_file now f fs) = insert (ef_sha f) (fst ` set fs)" by (simp add: dom_update)
  with Cons show ?case by auto
qed simp

lemma upsert_twice:
  "(k, row) \<in> set (fold (upsert_file 0) files (fold (upsert_file u) files [])) \<Longrightarrow> file_visited_at row = 0"
proof -
  assume m: "(k, row) \<in> set (fold (upsert_file 0) files (fold (upsert_file u) files []))"
  have "distinct_keys (fold (upsert_file u) files fs)" if "distinct_keys fs" for fs
    using that
  proof (induction files arbitrary: fs)
    case (Cons f files)
    obtain nrow where "upsert_file u f fs = AList.update (ef_sha f) nrow fs" using upsert_file_row by blast
    with Cons show ?case by simp
  qed simp
  then have d: "distinct_keys (fold (upsert_file u) files [])" by simp
  have "k \<in> fst ` set (fold (upsert_file 0) files (fold (upsert_file u) files []))" using m by (rule image_eqI [rotated]) simp
  then have "k \<in> ef_sha ` set files" by (simp add: upsert_fold_keys)
  with upsert_fold_rows [OF d m] show ?thesis by blast
qed

definition empty_tables :: tables where
  "empty_tables = \<lparr>llm_calls = [], llm_files = [], llm_call_files = [], next_call_id = 0\<rparr>"

text \<open>
  The schedule. Call 0 reads its clock at 0 and call 1 at \<open>d\<close>, both with the same files; call 1
  stores them, then call 0 does and moves \<^verbatim>\<open>visited_at\<close> back to 0; a prune at \<open>2d\<close> finds call 0 and
  the files too old and deletes its join rows and the files; call 1 then writes its own join rows.
\<close>

lemma lost_file_run:
  assumes b: "record_bodies sha detect r rec = (req, resp, files)" and ne: "files \<noteq> []"
    and d: "0 < r" "r < 2 * d"
  shows "\<exists>s. db_run sha detect r d (quiet empty_tables 0) s \<and> \<not> joined (db s)"
proof -
  let ?S = "\<lambda>t n xs ps. \<lparr>db = t, clock = n, recorders = xs, pruners = ps\<rparr>"
  let ?ia = "Inserted 0 files" and ?sa = "Storing 0 files 0" and ?ja = "Joining 0 files 0"
  let ?ib = "Inserted 1 files" and ?sb = "Storing 1 files d" and ?jb = "Joining 1 files d"
  let ?c = "2 * d - r"
  let ?ta = "\<lparr>llm_calls = [(0, call_row r 0 rec req resp)], llm_files = [], llm_call_files = [], next_call_id = 1\<rparr>"
  let ?tb = "\<lparr>llm_calls = [(0, call_row r 0 rec req resp), (1, call_row r d rec req resp)], llm_files = [],
    llm_call_files = [], next_call_id = 2\<rparr>"
  let ?tc = "upsert_files d files ?tb"
  let ?td = "upsert_files 0 files ?tc"
  let ?te = "insert_joins 0 files ?td"
  let ?tf = "delete_joins ?c False (clear_blobs ?c False ?te)"
  let ?tg = "delete_files ?c False ?tf"
  let ?step = "db_step sha detect r d"
  have 1: "?step (quiet empty_tables 0) (?S ?ta 0 {#?ia#} {#})"
    using insert [OF b, of "quiet empty_tables 0" 0 ?ta d] ne
    by (simp add: quiet_def empty_tables_def insert_call_def)
  have 2: "?step (?S t 0 {#?ia#} {#}) (?S t 0 {#?sa#} {#})" for t
    using read_clock [of "?S t 0 {#?ia#} {#}" 0 files "{#}"] by simp
  have 3: "?step (?S t 0 {#?sa#} {#}) (?S t d {#?sa#} {#})" for t
    using tick [of "?S t 0 {#?sa#} {#}" d] d by simp
  have 4: "?step (?S ?ta d {#?sa#} {#}) (?S ?tb d {#?ib, ?sa#} {#})"
    using insert [OF b, of "?S ?ta d {#?sa#} {#}" 1 ?tb d] ne by (simp add: insert_call_def)
  have 5: "?step (?S t d {#?ib, ?sa#} {#}) (?S t d {#?sb, ?sa#} {#})" for t
    using read_clock [of "?S t d {#?ib, ?sa#} {#}" 1 files "{#?sa#}"] by simp
  have 6: "?step (?S t d {#?sb, ?sa#} {#}) (?S (upsert_files d files t) d {#?jb, ?sa#} {#})" for t
    using upsert [of "?S t d {#?sb, ?sa#} {#}" 1 files d "{#?sa#}"] by simp
  have 7: "?step (?S t d {#?jb, ?sa#} {#}) (?S (upsert_files 0 files t) d {#?jb, ?ja#} {#})" for t
    using upsert [of "?S t d {#?jb, ?sa#} {#}" 0 files 0 "{#?jb#}"] by (simp add: add_mset_commute)
  have 8: "?step (?S t d {#?jb, ?ja#} {#}) (?S (insert_joins 0 files t) d {#?jb#} {#})" for t
    using join [of "?S t d {#?jb, ?ja#} {#}" 0 files 0 "{#?jb#}"] by (simp add: add_mset_commute)
  have 9: "?step (?S t d {#?jb#} {#}) (?S t (2 * d) {#?jb#} {#})" for t
    using tick [of "?S t d {#?jb#} {#}" "2 * d"] d by simp
  have 10: "?step (?S t (2 * d) {#?jb#} {#}) (?S t (2 * d) {#?jb#} {#Clearing ?c False#})" for t
    using prune_starts [of r "?S t (2 * d) {#?jb#} {#}" ?c False] d by (simp add: prune_file_scope_def)
  have 11: "?step (?S t (2 * d) {#?jb#} {#Clearing ?c False#})
      (?S (clear_blobs ?c False t) (2 * d) {#?jb#} {#Unjoining ?c False#})" for t
    using clear [of "?S t (2 * d) {#?jb#} {#Clearing ?c False#}" ?c False "{#}"] by simp
  have 12: "?step (?S t (2 * d) {#?jb#} {#Unjoining ?c False#})
      (?S (delete_joins ?c False t) (2 * d) {#?jb#} {#Deleting ?c False#})" for t
    using unjoin [of "?S t (2 * d) {#?jb#} {#Unjoining ?c False#}" ?c False "{#}"] by simp
  have 13: "?step (?S t (2 * d) {#?jb#} {#Deleting ?c False#}) (?S (delete_files ?c False t) (2 * d) {#?jb#} {#})" for t
    using delete [of "?S t (2 * d) {#?jb#} {#Deleting ?c False#}" ?c False "{#}"] by simp
  have 14: "?step (?S t (2 * d) {#?jb#} {#}) (?S (insert_joins 1 files t) (2 * d) {#} {#})" for t
    using join [of "?S t (2 * d) {#?jb#} {#}" 1 files d "{#}"] by simp
  have run: "db_run sha detect r d (quiet empty_tables 0) (?S (insert_joins 1 files ?tg) (2 * d) {#} {#})"
    by (rule run_step [OF 1], rule run_step [OF 2], rule run_step [OF 3], rule run_step [OF 4],
        rule run_step [OF 5], rule run_step [OF 6], rule run_step [OF 7], rule run_step [OF 8],
        rule run_step [OF 9], rule run_step [OF 10], rule run_step [OF 11], rule run_step [OF 12],
        rule run_step [OF 13], rule run_last [OF 14])
  have "llm_call_files ?tf = []"
    using d join_rows_call
    by (auto simp: delete_joins_def clear_blobs_def insert_joins_def upsert_files_def call_row_def filter_empty_conv)
  moreover have "file_visited_at row = 0" if "(k, row) \<in> set (llm_files ?tf)" for k row
    using that upsert_twice by (simp add: delete_joins_def clear_blobs_def insert_joins_def upsert_files_def)
  ultimately have "llm_files ?tg = []" using d by (fastforce simp: delete_files_def filter_empty_conv)
  moreover obtain f fs where "files = f # fs" using ne by (cases files) auto
  ultimately have "\<not> joined (insert_joins 1 files ?tg)"
    by (simp add: joined_def insert_joins_def join_rows_def)
  with run show ?thesis by force
qed

subsection \<open>Retention\<close>

definition unbodied :: "llm_call \<Rightarrow> bool" where
  "unbodied c \<longleftrightarrow> call_request_json c = None \<and> call_response_json c = None"

definition strip_bodies :: "llm_call \<Rightarrow> llm_call" where
  "strip_bodies c = c\<lparr>call_request_json := None, call_response_json := None\<rparr>"

lemma strip_unbodied: "unbodied c \<Longrightarrow> strip_bodies c = c"
  by (cases c) (simp add: unbodied_def strip_bodies_def)

lemma unbodied_strip [simp]: "unbodied (strip_bodies c)"
  by (simp add: unbodied_def strip_bodies_def)

lemma clear_blobs_strip:
  "clear_blobs cutoff every t =
    t\<lparr>llm_calls := map (\<lambda>(cid, c). (cid, if every \<or> call_created_at c < cutoff then strip_bodies c else c)) (llm_calls t)\<rparr>"
proof -
  have "(if (call_request_json c \<noteq> None \<or> call_response_json c \<noteq> None) \<and> (every \<or> call_created_at c < cutoff)
      then c\<lparr>call_request_json := None, call_response_json := None\<rparr> else c) =
      (if every \<or> call_created_at c < cutoff then strip_bodies c else c)" for c
    using strip_unbodied [of c] by (auto simp: unbodied_def strip_bodies_def)
  then show ?thesis unfolding clear_blobs_def by presburger
qed

text \<open>What is stored while retention is off.\<close>

definition no_bodies_since :: "tables \<Rightarrow> system \<Rightarrow> bool" where
  "no_bodies_since t s \<longleftrightarrow> recorders s = {#} \<and> set (llm_files (db s)) \<subseteq> set (llm_files t) \<and>
    set (llm_call_files (db s)) \<subseteq> set (llm_call_files t) \<and> next_call_id t \<le> next_call_id (db s) \<and>
    (\<forall>(cid, c) \<in> set (llm_calls (db s)). next_call_id t \<le> cid \<longrightarrow> unbodied c)"

lemma step_no_bodies:
  "db_step sha detect r d s s' \<Longrightarrow> r \<le> 0 \<Longrightarrow> no_bodies_since t s \<Longrightarrow> no_bodies_since t s'"
proof (induction rule: db_step.induct)
  case (insert rec req resp files s cid t')
  then have "files = []" using record_bodies_files(3) by simp
  then show ?case
    using insert by (auto simp: no_bodies_since_def insert_call_def call_row_def unbodied_def)
next
  case (clear s cutoff every ps)
  then show ?case
    by (fastforce simp: no_bodies_since_def clear_blobs_strip)
next
  case (unjoin s cutoff every ps)
  then show ?case by (auto simp: no_bodies_since_def delete_joins_def)
next
  case (delete s cutoff every ps)
  then show ?case by (auto simp: no_bodies_since_def delete_files_def)
qed (simp_all add: no_bodies_since_def)

lemma run_no_bodies:
  "db_run sha detect r d s s' \<Longrightarrow> r \<le> 0 \<Longrightarrow> no_bodies_since t s \<Longrightarrow> no_bodies_since t s'"
  by (induction rule: rtranclp_induct) (auto intro: step_no_bodies)

lemma record_bodies_redacted:
  assumes "record_bodies sha detect r rec = (req, resp, files)" "0 < r" "retainable_blob (rec_request_json rec)"
  shows "redacted sha (ef_sha ` set files) (rec_request_json rec) req"
proof -
  obtain fa where a: "extract_files sha detect (rec_request_json rec) = (req, fa)"
    using assms by (auto simp: record_bodies_def Let_def split: prod.splits)
  obtain b fb where b: "(if retainable_blob (the_or [] (rec_response_json rec))
      then extract_files sha detect (the_or [] (rec_response_json rec)) else (the_or [] (rec_response_json rec), [])) = (b, fb)"
    by fastforce
  have f: "files = merge_extracted fa fb"
    using assms a b by (auto simp: record_bodies_def Let_def)
  have d: "distinct (map ef_sha fa)" "distinct (map ef_sha fb)"
    using extract_files_distinct [OF a] b extract_files_distinct by (force split: if_splits)+
  have "redacted sha (ef_sha ` set fa) (rec_request_json rec) req"
    by (cases sha detect "rec_request_json rec" rule: extract_cases) (use a in \<open>auto intro: rd_same\<close>)
  then show ?thesis by (rule redacted_mono) (simp add: f merge_extracted_props(3) [OF d])
qed

subsection \<open>Properties of the call log\<close>

definition sample_record :: call_record where
  "sample_record = \<lparr>rec_model = ''m'', rec_provider = ''p'', rec_provider_model = ''q'', rec_api_key_name = ''k'',
    rec_input_tokens = 1, rec_output_tokens = 2, rec_cache_tokens = 0, rec_uncached_tokens = 1,
    rec_first_token_ms = 5, rec_output_speed = None, rec_http_status = 200, rec_error = [],
    rec_request_json = sample_image, rec_response_json = None\<rparr>"

abbreviation sample_tables :: tables where
  "sample_tables \<equiv> fst (record_call (take 2) (\<lambda>_. []) (\<lambda>_. None) True 10 0 1 sample_record empty_tables)"

lemma sample_run: "db_run (take 2) (\<lambda>_. []) 10 5 (quiet empty_tables 0) (quiet sample_tables 1)"
  by (rule record_run [of _ _ _ True _ _ _ sample_record _ _ "fst (snd (record_call (take 2) (\<lambda>_. []) (\<lambda>_. None) True 10 0 1 sample_record empty_tables))"
        "snd (snd (record_call (take 2) (\<lambda>_. []) (\<lambda>_. None) True 10 0 1 sample_record empty_tables))"]) simp_all

lemma sample_joins: "llm_call_files sample_tables \<noteq> []"
  by code_simp

lemma empty_ok: "tables_ok sha empty_tables" "joined empty_tables"
  by (simp_all add: tables_ok_def joined_def empty_tables_def)



text \<open>
  C9: if every recorder is done within half the retention (or retention is off), then in every
  interleaving of recorders and pruners each file a call refers to is stored.
\<close>

theorem call_files_present:
  assumes "db_run sha detect r d (quiet t now) s" "2 * d \<le> r \<or> r \<le> 0" "0 \<le> d"
    "cf_sha ` set (llm_call_files t) \<subseteq> fst ` set (llm_files t)"
  shows "cf_sha ` set (llm_call_files (db s)) \<subseteq> fst ` set (llm_files (db s))"
  using run_race_safe [OF assms(2,3,1)] assms(4) by (simp add: race_safe_def quiet_def joined_def)

lemma call_files_present_witness:
  "cf_sha ` set (llm_call_files sample_tables) \<subseteq> fst ` set (llm_files sample_tables)"
  using call_files_present [OF sample_run] by (simp add: quiet_def empty_tables_def)

text \<open>
  C36: the bound is sharp. Whenever a recorder may take longer than half the retention, a prune can
  delete a file between a recorder's two statements although the file has just been stored, because
  another recorder of the same file has moved visited_at back; the join rows then name a file that
  is not there.
\<close>

theorem call_files_lost:
  assumes "0 < r" "r < 2 * d" "record_bodies sha detect r rec = (req, resp, files)" "files \<noteq> []"
  shows "\<exists>s. db_run sha detect r d (quiet empty_tables 0) s \<and>
    \<not> cf_sha ` set (llm_call_files (db s)) \<subseteq> fst ` set (llm_files (db s))"
  using lost_file_run [OF assms(3,4,1,2)] by (simp add: joined_def)

lemma call_files_lost_witness:
  "\<exists>s. db_run (take 2) (\<lambda>_. []) 10 6 (quiet empty_tables 0) s \<and>
    \<not> cf_sha ` set (llm_call_files (db s)) \<subseteq> fst ` set (llm_files (db s))"
proof -
  obtain req resp files where b: "record_bodies (take 2) (\<lambda>_. []) 10 sample_record = (req, resp, files)"
    by (metis prod_cases3)
  have "snd (snd (record_bodies (take 2) (\<lambda>_. []) 10 sample_record)) \<noteq> []" by code_simp
  with b have "files \<noteq> []" by simp
  from call_files_lost [OF _ _ b this] show ?thesis by simp
qed

text \<open>
  C33: a prune that meets no error strips the bodies of the calls older than the retention (of all
  calls when it is off), drops their join rows, and deletes the files no join row is left for that
  have not been visited within the retention; everything else stays as it is.
\<close>

theorem prune_retention:
  "prune (\<lambda>_. None) r now t = (None,
    (let old = (\<lambda>time. r \<le> 0 \<or> time < now - r);
         joins = filter (\<lambda>j. \<not> (r \<le> 0 \<or> (\<exists>(cid, c) \<in> set (llm_calls t). cid = cf_call j \<and> old (call_created_at c))))
           (llm_call_files t)
     in t\<lparr>llm_calls := map (\<lambda>(cid, c). (cid, if old (call_created_at c) then strip_bodies c else c)) (llm_calls t),
          llm_call_files := joins,
          llm_files := filter (\<lambda>(k, f). k \<in> cf_sha ` set joins \<or> \<not> old (file_visited_at f)) (llm_files t)\<rparr>))"
proof -
  have time: "call_created_at (if b then strip_bodies c else c) = call_created_at c" for b c
    by (simp add: strip_bodies_def)
  show ?thesis
  proof (cases "r \<le> 0")
    case True
    then show ?thesis
      by (simp add: prune_def prune_files_def prune_file_scope_def clear_blobs_strip delete_joins_def delete_files_def Let_def)
  next
    case False
    then show ?thesis
      unfolding prune_def prune_files_def prune_file_scope_def clear_blobs_strip delete_joins_def delete_files_def Let_def
      by (simp add: time case_prod_beta')
  qed
qed

lemma prune_retention_witness:
  "llm_call_files (snd (prune (\<lambda>_. None) 10 100 sample_tables)) = [] \<and> fst (prune (\<lambda>_. None) 10 100 sample_tables) = None"
proof -
  have "filter (\<lambda>j. \<not> ((10::int) \<le> 0 \<or> (\<exists>(cid, c) \<in> set (llm_calls sample_tables). cid = cf_call j \<and>
      call_created_at c < 100 - 10))) (llm_call_files sample_tables) = []" by code_simp
  then show ?thesis using prune_retention [of 10 100 sample_tables] by (simp add: Let_def)
qed

text \<open>
  C34: with retention off nothing of a body is stored: whatever is recorded and pruned, no file and
  no join row is added, and the rows of new calls have neither request nor response.
\<close>

theorem retention_off_stores_nothing:
  assumes "db_run sha detect r d (quiet t now) s" "r \<le> 0" "\<forall>(cid, c) \<in> set (llm_calls t). cid < next_call_id t"
  shows "set (llm_files (db s)) \<subseteq> set (llm_files t) \<and> set (llm_call_files (db s)) \<subseteq> set (llm_call_files t) \<and>
    (\<forall>(cid, c) \<in> set (llm_calls (db s)). next_call_id t \<le> cid \<longrightarrow>
      call_request_json c = None \<and> call_response_json c = None)"
proof -
  have "no_bodies_since t (quiet t now)" using assms(3) by (fastforce simp: no_bodies_since_def quiet_def)
  from run_no_bodies [OF assms(1,2) this] show ?thesis by (auto simp: no_bodies_since_def unbodied_def)
qed

lemma retention_off_stores_nothing_witness:
  "llm_files (fst (record_call (take 2) (\<lambda>_. []) (\<lambda>_. None) True 0 0 1 sample_record empty_tables)) = []"
proof -
  let ?x = "record_call (take 2) (\<lambda>_. []) (\<lambda>_. None) True 0 0 1 sample_record empty_tables"
  have "db_run (take 2) (\<lambda>_. []) 0 5 (quiet empty_tables 0) (quiet (fst ?x) 1)"
    by (rule record_run [of _ _ _ True _ _ _ sample_record _ _ "fst (snd ?x)" "snd (snd ?x)"]) simp_all
  from retention_off_stores_nothing [OF this] show ?thesis by (simp add: quiet_def empty_tables_def)
qed



end
