(* ===== verification/ProxyCall.thy ===== *)
theory ProxyCall
  imports Proxy
begin

text \<open>
  What one call of the gateway guarantees, proved over the model of \<^verbatim>\<open>proxy.go\<close> in \<^verbatim>\<open>Proxy\<close>:
  the cases of one attempt and of the loop over the providers, the entries of the call log, the
  answer the client gets, and that a call ends.
\<close>

subsection \<open>The error answers\<close>

lemma write_error_kept [simp]:
  "call_log (write_error p status kind message w) = call_log w"
  "tw_wrote (write_error p status kind message w) = tw_wrote w"
  "call_log (tracked_error p status kind message w) = call_log w"
  "tw_wrote (tracked_error p status kind message w) = True"
  by (auto simp: tracked_error_def write_error_def write_protocol_error_def write_json_def rw_write_def
      write_header_def set_header_def Let_def split: option.splits prod.splits)

lemma write_error_sent [simp]:
  "rw_sent (write_error p status kind message w) =
    (case rw_sent w of
       None \<Rightarrow> Some (status, header_set ''Content-Type'' ''application/json; charset=utf-8'' (rw_header w))
     | Some x \<Rightarrow> Some x)"
  by (auto simp: write_error_def write_protocol_error_def write_json_def rw_write_def
      write_header_def set_header_def Let_def split: option.splits prod.splits)

lemma tracked_error_sent [simp]: "rw_sent (tracked_error p status kind message w) \<noteq> None"
  by (simp add: tracked_error_def split: option.split)

lemma log_call_simps [simp]:
  "call_log (log_call p rec w) = call_log w @ (if px_logger p then [rec] else [])"
  "tw_wrote (log_call p rec w) = tw_wrote w" "rw_sent (log_call p rec w) = rw_sent w"
  "rw_header (log_call p rec w) = rw_header w" "rw_body (log_call p rec w) = rw_body w"
  by (simp_all add: log_call_def)

lemma log_call_only: "log_call p rec w = w\<lparr>call_log := call_log (log_call p rec w)\<rparr>"
  by (simp add: log_call_def)

subsection \<open>One attempt\<close>

text \<open>What the log says of an attempt.\<close>

definition entry :: "http_request \<Rightarrow> request_meta \<Rightarrow> provider \<Rightarrow> go_error option \<Rightarrow> call_record \<Rightarrow> bool" where
  "entry r meta prov err rec \<longleftrightarrow>
    rec_model rec = Model meta \<and> rec_provider rec = ProvName prov \<and>
    rec_api_key_name rec = api_key_name_from r \<and>
    (case err of
       None \<Rightarrow> rec_error rec = []
     | Some e \<Rightarrow> rec_error rec = error_text e \<or>
                is_client_disconnect err \<and> rec_error rec = ''canceled'')"

lemma entry_new_record:
  "entry r meta prov (Some e) ((new_record (Model meta) (ProvName prov) pm (api_key_name_from r) b)
     \<lparr>rec_error := error_text e\<rparr>)"
  "entry r meta prov (Some e) ((new_record (Model meta) (ProvName prov) pm (api_key_name_from r) b)
     \<lparr>rec_error := copy_err_text (Some e)\<rparr>)"
  by (simp_all add: entry_def new_record_def copy_err_text_def)

lemma answer_cases:
  assumes "answer env p stream rec0 resp w = Some (err, w')"
  obtains (status) rec where
    "err = Some (GoError Opaque (''upstream status '' @ resp_status_text resp) [])"
    "w' = log_call p (rec0\<lparr>rec_http_status := resp_status resp, rec_response_json := rec,
      rec_error := ''upstream status '' @ resp_status_text resp\<rparr>) w"
    "is_catastrophic None (resp_status resp)"
  | (copied) sse ndjson h keepalive w1 w2 blob usage first rec where
    "\<not> is_catastrophic None (resp_status resp)"
    "sse = response_is_sse stream (header_get (resp_header resp) ''Content-Type'')"
    "ndjson = (\<not> sse \<and> is_ndjson (header_get (resp_header resp) ''Content-Type''))"
    "keepalive = (sse \<and> \<not> is_compressed_encoding (header_get (resp_header resp) ''Content-Encoding''))"
    "h = (if sse then header_del ''Content-Length'' else id)
      (copy_response_headers (rw_header w) (resp_header resp))"
    "w1 = tracked_header (resp_status resp) (w\<lparr>rw_header := h\<rparr>)"
    "copy_body (env_float64 env) sse ndjson keepalive (resp_body resp) w1 = Some (err, w2, blob, usage, first)"
    "w' = log_call p rec w2"
    "rec_model rec = rec_model rec0" "rec_provider rec = rec_provider rec0"
    "rec_provider_model rec = rec_provider_model rec0" "rec_api_key_name rec = rec_api_key_name rec0"
    "rec_request_json rec = rec_request_json rec0" "rec_http_status rec = resp_status resp"
    "rec_response_json rec = encode_response_blob blob (sse \<or> ndjson)"
    "rec_input_tokens rec = Input usage" "rec_output_tokens rec = Output usage"
    "rec_cache_tokens rec = CacheRead usage" "rec_uncached_tokens rec = Uncached usage"
    "rec_error rec = (if err = None then rec_error rec0 else copy_err_text err)"
proof (cases "is_catastrophic None (resp_status resp)")
  case True
  with assms show ?thesis
    by (auto simp: answer_def Let_def intro!: status)
next
  case False
  define sse where "sse = response_is_sse stream (header_get (resp_header resp) ''Content-Type'')"
  define ndjson where "ndjson = (\<not> sse \<and> is_ndjson (header_get (resp_header resp) ''Content-Type''))"
  define keepalive where
    "keepalive = (sse \<and> \<not> is_compressed_encoding (header_get (resp_header resp) ''Content-Encoding''))"
  define h where "h = (if sse then header_del ''Content-Length'' else id)
      (copy_response_headers (rw_header w) (resp_header resp))"
  define w1 where "w1 = tracked_header (resp_status resp) (w\<lparr>rw_header := h\<rparr>)"
  have h: "(if sse then (w\<lparr>rw_header := copy_response_headers (rw_header w) (resp_header resp)\<rparr>)
        \<lparr>rw_header := header_del ''Content-Length''
          (rw_header (w\<lparr>rw_header := copy_response_headers (rw_header w) (resp_header resp)\<rparr>))\<rparr>
      else w\<lparr>rw_header := copy_response_headers (rw_header w) (resp_header resp)\<rparr>) = w\<lparr>rw_header := h\<rparr>"
    by (simp add: h_def)
  from assms False obtain w2 blob usage first rec where
    "copy_body (env_float64 env) sse ndjson keepalive (resp_body resp) w1 = Some (err, w2, blob, usage, first)"
    "w' = log_call p rec w2"
    "rec_model rec = rec_model rec0" "rec_provider rec = rec_provider rec0"
    "rec_provider_model rec = rec_provider_model rec0" "rec_api_key_name rec = rec_api_key_name rec0"
    "rec_request_json rec = rec_request_json rec0" "rec_http_status rec = resp_status resp"
    "rec_response_json rec = encode_response_blob blob (sse \<or> ndjson)"
    "rec_input_tokens rec = Input usage" "rec_output_tokens rec = Output usage"
    "rec_cache_tokens rec = CacheRead usage" "rec_uncached_tokens rec = Uncached usage"
    "rec_error rec = (if err = None then rec_error rec0 else copy_err_text err)"
    unfolding answer_def Let_def sse_def [symmetric] ndjson_def [symmetric] keepalive_def [symmetric] h
      w1_def [symmetric]
    by (auto split: option.splits if_splits)
  with False show ?thesis
    by (intro copied [OF _ sse_def ndjson_def keepalive_def h_def w1_def])
qed

lemma tracked_header_begun:
  "rw_sent w = None \<Longrightarrow>
    begun (status, rw_header w) (rw_header w) (call_log w) (tracked_header status w)"
  by (simp add: begun_def tracked_header_def write_header_def)

lemma tracked_header_sent: "rw_sent (tracked_header status w) \<noteq> None"
  by (simp add: tracked_header_def write_header_def)

lemma tracked_header_again:
  "rw_sent w = Some x \<Longrightarrow> begun x (rw_header w) (call_log w) (tracked_header status w)"
  by (simp add: begun_def tracked_header_def write_header_def)

lemma begun_any: "\<exists>x. begun x (rw_header w) (call_log w) (tracked_header status w)"
  by (cases "rw_sent w") (use tracked_header_begun tracked_header_again in blast)+

lemma answer_logged:
  assumes "answer env p stream rec0 resp w = Some (err, w')" "rec_error rec0 = []"
  shows "\<exists>rec. call_log w' = call_log w @ (if px_logger p then [rec] else []) \<and>
    rec_model rec = rec_model rec0 \<and> rec_provider rec = rec_provider rec0 \<and>
    rec_api_key_name rec = rec_api_key_name rec0 \<and>
    (case err of None \<Rightarrow> rec_error rec = []
     | Some e \<Rightarrow> rec_error rec = error_text e \<or> is_client_disconnect err \<and> rec_error rec = ''canceled'')"
  using assms(1)
proof (cases rule: answer_cases)
  case (status rec)
  then show ?thesis
    by (intro exI [of _ "rec0\<lparr>rec_http_status := resp_status resp, rec_response_json := rec,
      rec_error := ''upstream status '' @ resp_status_text resp\<rparr>"]) simp
next
  case (copied sse ndjson h keepalive w1 w2 blob usage first rec)
  obtain x where "begun x h (call_log w) w1"
    using begun_any [of "w\<lparr>rw_header := h\<rparr>" "resp_status resp"] copied(6) by auto
  from copy_body_begun [OF copied(7) this] have "call_log w2 = call_log w" by (simp add: begun_def)
  with copied assms(2) show ?thesis
    by (intro exI [of _ rec]) (auto simp: copy_err_text_def split: option.splits)
qed

lemma forward_cases:
  assumes "forward env p i r meta prov w = Some (err, w')"
  obtains (failed) e rec where "err = Some e" "w' = log_call p rec w" "entry r meta prov err rec"
  | (rejected) e rec status kind where "err = Some e"
    "w' = tracked_error p status kind (error_text e) (log_call p rec w)" "entry r meta prov err rec"
  | (answered) url pm hs payload resp where
    "resolve prov (px_protocol p) = Some (url, pm, hs)"
    "rewrite_request (Body meta) pm (Stream meta) (px_inject p) = Some payload"
    "env_do env i \<lparr>ur_url = url, ur_header = request_headers (req_header r) hs, ur_body = payload\<rparr> = Inr resp"
    "answer env p (Stream meta)
      ((new_record (Model meta) (ProvName prov) (if pm = [] then Model meta else pm) (api_key_name_from r)
         (Body meta))\<lparr>rec_request_json := payload\<rparr>) resp w = Some (err, w')"
proof (cases "resolve prov (px_protocol p)")
  case None
  let ?text = "''provider '' @ go_quote (env_printable env) (ProvName prov) @ '' has no '' @
    px_protocol p @ '' endpoint''"
  from assms None have "err = Some (GoError Opaque ?text [])" "w' = log_call p
      ((new_record (Model meta) (ProvName prov) [] (api_key_name_from r) (Body meta))\<lparr>rec_error := ?text\<rparr>) w"
    by (simp_all add: forward_def Let_def del: append.simps append_assoc)
  with entry_new_record(1) [of r meta prov "GoError Opaque ?text []" "[]" "Body meta"] failed
  show ?thesis by simp
next
  case (Some uph)
  obtain url pm hs where uph: "uph = (url, pm, hs)" by (cases uph)
  define rec where "rec = new_record (Model meta) (ProvName prov) (if pm = [] then Model meta else pm)
      (api_key_name_from r) (Body meta)"
  note run = assms [unfolded forward_def Some uph option.case prod.case Let_def, folded rec_def]
  have entries: "entry r meta prov (Some e) (rec\<lparr>rec_http_status := n, rec_error := error_text e\<rparr>)"
    "entry r meta prov (Some e) (rec\<lparr>rec_request_json := b, rec_error := error_text e\<rparr>)"
    "entry r meta prov (Some e) (rec\<lparr>rec_request_json := b, rec_error := copy_err_text (Some e)\<rparr>)" for e n b
    by (simp_all add: entry_def rec_def new_record_def copy_err_text_def)
  show ?thesis
  proof (cases "rewrite_request (Body meta) pm (Stream meta) (px_inject p)")
    case None
    let ?err = "rewrite_error (env_json_error env) (Body meta)"
    from None run have "err = Some ?err" "w' = tracked_error p 400 (client_error_type p False)
      (error_text ?err) (log_call p (rec\<lparr>rec_http_status := 400, rec_error := error_text ?err\<rparr>) w)" by auto
    with entries(1) rejected show ?thesis by blast
  next
    case payload: (Some payload)
    let ?req = "\<lparr>ur_url = url, ur_header = request_headers (req_header r) hs, ur_body = payload\<rparr>"
    show ?thesis
    proof (cases "env_new_request env url")
      case None
      show ?thesis
      proof (cases "env_do env i ?req")
        case (Inl e)
        with payload None run have "err = Some e"
          "w' = log_call p (rec\<lparr>rec_request_json := payload, rec_error := copy_err_text (Some e)\<rparr>) w" by auto
        with entries(3) failed show ?thesis by blast
      next
        case (Inr resp)
        with payload None run
        have "answer env p (Stream meta) (rec\<lparr>rec_request_json := payload\<rparr>) resp w = Some (err, w')"
          by simp
        with answered [OF Some [unfolded uph] payload Inr] show ?thesis by (simp add: rec_def)
      qed
    next
      case e: (Some e)
      with payload run have "err = Some e"
        "w' = log_call p (rec\<lparr>rec_request_json := payload, rec_error := error_text e\<rparr>) w" by auto
      with entries(2) failed show ?thesis by blast
    qed
  qed
qed

lemma forward_logged:
  assumes "forward env p i r meta prov w = Some (err, w')"
  shows "\<exists>rec. call_log w' = call_log w @ (if px_logger p then [rec] else []) \<and> entry r meta prov err rec"
  using assms
proof (cases rule: forward_cases)
  case (answered url pm hs payload resp)
  from answer_logged [OF answered(4)] show ?thesis by (auto simp: entry_def new_record_def)
qed auto

text \<open>An attempt that wrote nothing failed, and left all but the log as it was.\<close>

lemma answer_untouched:
  assumes "answer env p stream rec0 resp w = Some (err, w')"
  shows "tw_wrote w' \<and> rw_sent w' \<noteq> None \<or>
    err \<noteq> None \<and> tw_wrote w' = tw_wrote w \<and> w' = w\<lparr>call_log := call_log w'\<rparr>"
  using assms
proof (cases rule: answer_cases)
  case (status rec)
  then show ?thesis using log_call_only by simp
next
  case (copied sse ndjson h keepalive w1 w2 blob usage first rec)
  obtain x where "begun x h (call_log w) w1"
    using begun_any [of "w\<lparr>rw_header := h\<rparr>" "resp_status resp"] copied(6) by auto
  from copy_body_begun [OF copied(7) this] copied(8) show ?thesis by (simp add: begun_def)
qed

lemma forward_untouched:
  assumes "forward env p i r meta prov w = Some (err, w')"
  shows "tw_wrote w' \<and> rw_sent w' \<noteq> None \<or>
    err \<noteq> None \<and> tw_wrote w' = tw_wrote w \<and> w' = w\<lparr>call_log := call_log w'\<rparr>"
  using assms
proof (cases rule: forward_cases)
  case (failed e rec)
  then show ?thesis using log_call_only by simp
next
  case (answered url pm hs payload resp)
  then show ?thesis by (intro answer_untouched)
qed simp

subsection \<open>Failed attempts\<close>

definition retried :: "go_error \<Rightarrow> bool" where
  "retried e \<longleftrightarrow> err_as is_canceled (Some e) = None \<and> is_catastrophic (Some e) 0"

text \<open>
  A run of attempts, from the \<open>i\<close>-th on, that all failed before anything was written, with
  errors after which the next provider is tried.
\<close>

inductive failed_attempts ::
  "proxy_env \<Rightarrow> proxy \<Rightarrow> http_request \<Rightarrow> request_meta \<Rightarrow> nat \<Rightarrow> provider list \<Rightarrow> call_rw \<Rightarrow>
    go_error list \<Rightarrow> call_rw \<Rightarrow> bool"
  for env p r meta where
  none: "failed_attempts env p r meta i [] w [] w"
| more: "forward env p i r meta prov w = Some (Some e, w1) \<Longrightarrow> \<not> tw_wrote w1 \<Longrightarrow> retried e \<Longrightarrow>
    failed_attempts env p r meta (Suc i) provs w1 es w2 \<Longrightarrow>
    failed_attempts env p r meta i (prov # provs) w (e # es) w2"

inductive_cases failed_attempts_ConsE: "failed_attempts env p r meta i (prov # provs) w es w'"
inductive_simps failed_attempts_Nil: "failed_attempts env p r meta i [] w es w'"

text \<open>They leave their entries in the log and nothing else.\<close>

lemma failed_attempts_log:
  "failed_attempts env p r meta i provs w es w' \<Longrightarrow>
    length es = length provs \<and> w' = w\<lparr>call_log := call_log w'\<rparr> \<and>
    (\<exists>recs. call_log w' = call_log w @ (if px_logger p then recs else []) \<and>
      list_all2 (\<lambda>(prov, e) rec. entry r meta prov (Some e) rec) (zip provs es) recs)"
proof (induction rule: failed_attempts.induct)
  case (more i prov w e w1 provs es w2)
  from forward_untouched [OF more(1)] more(2) have w1: "w1 = w\<lparr>call_log := call_log w1\<rparr>" by blast
  from forward_logged [OF more(1)] obtain rec where
    rec: "call_log w1 = call_log w @ (if px_logger p then [rec] else [])" "entry r meta prov (Some e) rec"
    by blast
  from more(5) obtain recs where recs: "length es = length provs" "w2 = w1\<lparr>call_log := call_log w2\<rparr>"
    "call_log w2 = call_log w1 @ (if px_logger p then recs else [])"
    "list_all2 (\<lambda>(prov, e) rec. entry r meta prov (Some e) rec) (zip provs es) recs" by blast
  have "w2 = w\<lparr>call_log := call_log w2\<rparr>" by (subst recs(2), subst w1) simp
  moreover have "call_log w2 = call_log w @ (if px_logger p then rec # recs else [])"
    using rec(1) recs(3) by simp
  ultimately show ?case using rec(2) recs(1,4) by (intro conjI exI [of _ "rec # recs"]) auto
qed auto

lemma failed_attempts_quiet:
  "failed_attempts env p r meta i provs w es w' \<Longrightarrow> \<not> tw_wrote w \<Longrightarrow> \<not> tw_wrote w'"
  by (induction rule: failed_attempts.induct) auto

text \<open>How the loop over the providers ends.\<close>

definition ends_with ::
  "proxy_env \<Rightarrow> proxy \<Rightarrow> http_request \<Rightarrow> request_meta \<Rightarrow> nat \<Rightarrow> provider \<Rightarrow> call_rw \<Rightarrow> call_rw \<Rightarrow> bool" where
  "ends_with env p r meta i prov w w' \<longleftrightarrow>
    (\<exists>err w1. forward env p i r meta prov w = Some (err, w1) \<and>
      (tw_wrote w1 \<and> w' = w1 \<or>
       \<not> tw_wrote w1 \<and>
       (\<exists>e. err = Some e \<and> \<not> retried e \<and>
         w' = (if err_as is_canceled err \<noteq> None then w1
               else write_error p (status_from_err err) (upstream_error_type p) (error_text e) w1))))"

definition unavailable_text :: "go_error option \<Rightarrow> go_error list \<Rightarrow> string" where
  "unavailable_text before es =
    ''all upstreams unavailable: '' @
    (if es = [] then (case before of None \<Rightarrow> [] | Some e \<Rightarrow> error_text e) else error_text (last es))"

lemma try_providers_outcome:
  "try_providers env p r meta i last_err provs w = Some w' \<Longrightarrow>
    \<exists>tried rest es w1. provs = tried @ rest \<and> failed_attempts env p r meta i tried w es w1 \<and>
      (case rest of
         [] \<Rightarrow> w' = write_error p 502 (upstream_error_type p) (unavailable_text last_err es) w1
       | prov # _ \<Rightarrow> ends_with env p r meta (i + length tried) prov w1 w')"
proof (induction env p r meta i last_err provs w rule: try_providers.induct)
  case (1 env p r meta i last_err w)
  then show ?case
    by (intro exI [of _ "[]"] exI [of _ w]) (auto simp: failed_attempts.none unavailable_text_def)
next
  case (2 env p r meta i last_err prov provs w)
  from 2(2) obtain err w1 where f: "forward env p i r meta prov w = Some (err, w1)"
    by (auto simp: bind_eq_Some_conv)
  show ?case
  proof (cases "\<not> tw_wrote w1 \<and> (\<exists>e. err = Some e \<and> retried e)")
    case True
    then obtain e where e: "err = Some e" "retried e" "\<not> tw_wrote w1" by blast
    with 2(2) f have "try_providers env p r meta (Suc i) (Some e) provs w1 = Some w'"
      by (simp add: retried_def)
    with 2(1) [OF f refl _ e(1)] e obtain tried rest es w2 where
      t: "provs = tried @ rest" "failed_attempts env p r meta (Suc i) tried w1 es w2"
      "case rest of
         [] \<Rightarrow> w' = write_error p 502 (upstream_error_type p) (unavailable_text (Some e) es) w2
       | prov # _ \<Rightarrow> ends_with env p r meta (Suc i + length tried) prov w2 w'"
      by (auto simp: retried_def)
    with failed_attempts.more [OF f [unfolded e(1)] e(3,2) t(2)] show ?thesis
      by (intro exI [of _ "prov # tried"] exI [of _ rest] exI [of _ "e # es"] exI [of _ w2])
        (auto simp: unavailable_text_def split: list.splits)
  next
    case False
    from forward_untouched [OF f] have "tw_wrote w1 \<or> err \<noteq> None" by blast
    with False 2(2) f have "ends_with env p r meta i prov w w'"
      by (auto simp: ends_with_def retried_def split: option.splits if_splits)
    then show ?thesis
      by (intro exI [of _ "[]"] exI [of _ "prov # provs"] exI [of _ "[]"] exI [of _ w])
        (simp add: failed_attempts.none)
  qed
qed

subsection \<open>Accepted requests\<close>

text \<open>The request parses as a call of a configured model that has providers for the protocol.\<close>

definition accepted :: "proxy_env \<Rightarrow> proxy \<Rightarrow> http_request \<Rightarrow> request_meta \<Rightarrow> provider list \<Rightarrow> bool" where
  "accepted env p r meta provs \<longleftrightarrow>
    (\<exists>sent body. read_body r = Inr sent \<and>
      decode_request_body (env_printable env) (env_gunzip env) (env_unzstd env) sent (req_header r) =
        Some (Inr body) \<and>
      parse_request body = Inr meta) \<and>
    model_of (px_config p) (Model meta) \<noteq> None \<and>
    provs = providers_for (px_config p) (Model meta) (px_protocol p) \<and> provs \<noteq> []"

lemma serve_accepted:
  "accepted env p r meta provs \<Longrightarrow>
    serve env p r w = try_providers env p r meta 0 None provs (w\<lparr>tw_wrote := False\<rparr>)"
  by (auto simp: serve_def accepted_def Let_def)

lemma serve_rejected_other:
  assumes "\<nexists>meta provs. accepted env p r meta provs"
  shows "serve (env\<lparr>env_do := other\<rparr>) p r w = serve env p r w"
proof -
  have "try_providers (env\<lparr>env_do := other\<rparr>) p r meta 0 None provs w =
      try_providers env p r meta 0 None provs w"
    if "read_body r = Inr sent" "decode_request_body (env_printable env) (env_gunzip env) (env_unzstd env)
        sent (req_header r) = Some (Inr body)" "parse_request body = Inr meta"
      "model_of (px_config p) (Model meta) \<noteq> None"
      "provs = providers_for (px_config p) (Model meta) (px_protocol p)" "provs \<noteq> []"
    for sent body meta provs w using that assms unfolding accepted_def by blast
  then show ?thesis
    by (simp add: serve_def Let_def split: sum.split bind_splits)
qed

lemma serve_rejected:
  assumes "\<nexists>meta provs. accepted env p r meta provs" "serve env p r w = Some w'"
  shows "\<exists>status kind message. status \<in> {400, 404, 413, 415} \<and>
    (w' = write_error p status kind message w \<or>
     w' = write_error p status kind message (set_header ''Connection'' ''close'' w))"
proof (cases "read_body r")
  case (Inl e)
  with assms(2) have "w' = write_error p 413 (client_error_type p False) ''request body too large''
      (set_header ''Connection'' ''close'' w) \<or>
    w' = write_error p 400 (client_error_type p False) ''failed to read request body'' w"
    by (cases e) (simp_all add: serve_def)
  then show ?thesis by blast
next
  case sent: (Inr sent)
  have plain: ?thesis if "w' = write_error p status kind message w" "status \<in> {400, 404, 413, 415}"
    for status kind message using that by blast
  from assms(2) sent obtain decoded where d: "decode_request_body (env_printable env) (env_gunzip env)
      (env_unzstd env) sent (req_header r) = Some decoded" by (auto simp: serve_def bind_eq_Some_conv)
  note run = assms(2) [unfolded serve_def sent d sum.case bind.bind_lunit]
  show ?thesis
  proof (cases decoded)
    case (Inl e)
    with run show ?thesis by (cases e) (auto intro: plain)
  next
    case body: (Inr body)
    show ?thesis
    proof (cases "parse_request body")
      case (Inl e)
      with run body show ?thesis by (auto intro: plain)
    next
      case meta: (Inr meta)
      with assms(1) sent d body have "model_of (px_config p) (Model meta) = None \<or>
          providers_for (px_config p) (Model meta) (px_protocol p) = []"
        by (auto simp: accepted_def)
      with run body meta show ?thesis by (auto simp: Let_def intro: plain split: if_splits)
    qed
  qed
qed

subsection \<open>A call ends\<close>

text \<open>The reads of a body come to an end or an error.\<close>

definition body_ends :: "pump_event list \<Rightarrow> bool" where
  "body_ends es \<longleftrightarrow> (\<exists>t p e. Read t p (Some e) \<in> set es)"

lemma body_ends_simps [simp]:
  "\<not> body_ends []" "body_ends (Tick # es) = body_ends es"
  "body_ends (Read t p err # es) \<longleftrightarrow> err \<noteq> None \<or> body_ends es"
  by (auto simp: body_ends_def)

definition env_ends :: "proxy_env \<Rightarrow> bool" where
  "env_ends env \<longleftrightarrow>
    (\<forall>i req resp. env_do env i req = Inr resp \<longrightarrow> body_ends (resp_body resp)) \<and>
    (\<forall>b es. env_gunzip env b = Inr es \<longrightarrow> body_ends es) \<and>
    (\<forall>b es. env_unzstd env b = Inr es \<longrightarrow> body_ends es)"

lemma read_limited_ends: "body_ends es \<Longrightarrow> read_limited n es \<noteq> None"
  by (induction n es rule: read_limited.induct) (auto split: option.splits)

lemma io_copy_ends: "body_ends es \<Longrightarrow> io_copy put es first s \<noteq> None"
proof (induction es arbitrary: first s)
  case (Cons e es)
  show ?case
  proof (cases e)
    case (Read t p err)
    obtain n werr s1 where "(if p \<noteq> [] then put p s else (0, None, s)) = (n, werr, s1)"
      using surj_pair by metis
    with Cons Read show ?thesis by (auto simp: Let_def split: option.splits)
  qed (use Cons in auto)
qed simp

lemma pump_not_None: "body_ends es \<Longrightarrow> pump dst ping keepalive scan es st \<noteq> None"
  using pump_ends unfolding body_ends_def by (metis option.distinct(1))

lemma copy_body_ends: "body_ends es \<Longrightarrow> copy_body float64 sse ndjson keepalive es w \<noteq> None"
  by (simp add: copy_body_def copy_sse_def copy_ndjson_def Let_def pump_not_None io_copy_ends
      del: not_None_eq split_paired_Ex)

lemma answer_ends: "body_ends (resp_body resp) \<Longrightarrow> answer env p stream rec resp w \<noteq> None"
  using read_limited_ends copy_body_ends
  by (simp add: answer_def Let_def del: not_None_eq split_paired_Ex)

lemma forward_ends:
  assumes "env_ends env"
  shows "forward env p i r meta prov w \<noteq> None"
proof -
  have "answer env p stream rec resp w \<noteq> None" if "env_do env i req = Inr resp" for stream rec resp req w
    using that assms by (intro answer_ends) (auto simp: env_ends_def)
  then show ?thesis
    by (simp add: forward_def Let_def del: not_None_eq split_paired_Ex
        split: option.split prod.split sum.split)
qed

lemma try_providers_ends:
  "env_ends env \<Longrightarrow> try_providers env p r meta i last_err provs w \<noteq> None"
proof (induction env p r meta i last_err provs w rule: try_providers.induct)
  case (2 env p r meta i last_err prov provs w)
  obtain err w1 where f: "forward env p i r meta prov w = Some (err, w1)"
    using forward_ends [OF 2(2)] by fast
  with 2 show ?case by (auto split: option.split)
qed simp

lemma decode_request_body_ends:
  "env_ends env \<Longrightarrow> decode_request_body printable (env_gunzip env) (env_unzstd env) body h \<noteq> None"
  using read_limited_ends
  by (simp add: decode_request_body_def decode_with_def env_ends_def
      del: not_None_eq split_paired_Ex split: sum.split)

lemma serve_ends:
  assumes "env_ends env"
  shows "serve env p r w \<noteq> None"
proof (cases "read_body r")
  case (Inl e)
  then show ?thesis by (cases e) (simp_all add: serve_def)
next
  case (Inr sent)
  obtain decoded where "decode_request_body (env_printable env) (env_gunzip env) (env_unzstd env) sent
      (req_header r) = Some decoded"
    using decode_request_body_ends [OF assms] by fast
  with Inr try_providers_ends [OF assms] show ?thesis
    by (simp add: serve_def Let_def del: not_None_eq split_paired_Ex split: sum.split body_error.split)
qed

subsection \<open>Samples\<close>

text \<open>
  A client's call of the sample configuration's model, with an upstream that cannot be dialled,
  and with one that answers.
\<close>

definition sample_request :: http_request where
  "sample_request = \<lparr>req_path = ''/'', req_header = [(''Authorization'', [''Bearer v''])],
     req_body = ''{\"model\":\"m\"}'', req_read_fails = False, req_tls = False, req_key_name = Some ''k''\<rparr>"

definition sample_meta :: request_meta where
  "sample_meta = \<lparr>Model = ''m'', Stream = False, Body = ''{\"model\":\"m\"}''\<rparr>"

definition sample_proxy :: proxy where
  "sample_proxy = \<lparr>px_config = Some sample_config, px_logger = True,
     px_protocol = protocolOpenAICompletions, px_inject = True\<rparr>"

definition sample_env :: "go_error + upstream_response \<Rightarrow> proxy_env" where
  "sample_env result = \<lparr>env_gunzip = \<lambda>_. Inl end_of_file, env_unzstd = \<lambda>_. Inl end_of_file,
     env_json_error = \<lambda>_. ''bad'', env_printable = \<lambda>_. True, env_new_request = \<lambda>_. None,
     env_do = \<lambda>_ _. result, env_float64 = \<lambda>_. None\<rparr>"

definition dial_failure :: go_error where
  "dial_failure = GoError UrlErr ''Post: dial'' [GoError (OpErr ''dial'') ''dial'' []]"

definition sample_response :: upstream_response where
  "sample_response = \<lparr>resp_status = 200, resp_status_text = ''200 OK'',
     resp_header = [(''Content-Type'', [''application/json''])],
     resp_body = [Read 5 ''{}'' None, Read 6 [] (Some end_of_file)], resp_sent_at = 1, resp_done_at = 9\<rparr>"

definition fresh_call :: call_rw where
  "fresh_call = \<lparr>rw_header = [], rw_sent = None, rw_body = [], rw_room = None, tw_wrote = False, call_log = []\<rparr>"

lemma sample_ends: "env_ends (sample_env (Inl e))" "env_ends (sample_env (Inr sample_response))"
  by (simp_all add: env_ends_def sample_env_def sample_response_def)

lemma sample_accepted:
  "accepted (sample_env result) sample_proxy sample_request sample_meta
    (providers_for (Some sample_config) ''m'' protocolOpenAICompletions)"
proof -
  have "read_body sample_request = Inr ''{\"model\":\"m\"}''"
    by (simp add: read_body_def sample_request_def max_request_body_def)
  moreover have "encodings (req_header sample_request) = []" by code_simp
  moreover have "parse_request ''{\"model\":\"m\"}'' = Inr sample_meta"
    unfolding sample_meta_def by code_simp
  moreover have "model_of (Some sample_config) ''m'' \<noteq> None"
    "providers_for (Some sample_config) ''m'' protocolOpenAICompletions \<noteq> []" by code_simp+
  ultimately show ?thesis
    by (simp add: accepted_def decode_request_body_def content_encoding_def sample_proxy_def sample_meta_def)
qed

subsection \<open>Properties\<close>



text \<open>
  C1: failover. The providers of the model are tried in their order. As long as an attempt fails
  with an error that may be retried and nothing has reached the client, the next one is tried,
  and the client's writer is as before; the first other attempt decides the answer. When all have
  failed the answer is a 502 with the last error.
\<close>

theorem serve_failover:
  assumes "accepted env p r meta provs" "serve env p r w = Some w'"
  shows "\<exists>tried rest es w1. provs = tried @ rest \<and>
    failed_attempts env p r meta 0 tried (w\<lparr>tw_wrote := False\<rparr>) es w1 \<and>
    w1 = w\<lparr>tw_wrote := False, call_log := call_log w1\<rparr> \<and>
    (case rest of
       [] \<Rightarrow> w' = write_error p 502 (upstream_error_type p)
         (''all upstreams unavailable: '' @ error_text (last es)) w1
     | prov # _ \<Rightarrow> ends_with env p r meta (length tried) prov w1 w')"
proof -
  from assms(2) have "try_providers env p r meta 0 None provs (w\<lparr>tw_wrote := False\<rparr>) = Some w'"
    by (simp add: serve_accepted [OF assms(1)])
  from try_providers_outcome [OF this, unfolded add_0] obtain tried rest es w1 where t: "provs = tried @ rest"
    "failed_attempts env p r meta 0 tried (w\<lparr>tw_wrote := False\<rparr>) es w1"
    "case rest of
       [] \<Rightarrow> w' = write_error p 502 (upstream_error_type p) (unavailable_text None es) w1
     | prov # _ \<Rightarrow> ends_with env p r meta (length tried) prov w1 w'" by blast
  moreover from failed_attempts_log [OF t(2)] have "length es = length tried"
    "w1 = w\<lparr>tw_wrote := False, call_log := call_log w1\<rparr>" by simp_all
  moreover have "provs \<noteq> []" using assms(1) by (auto simp: accepted_def)
  ultimately show ?thesis
    by (intro exI [of _ tried] exI [of _ rest] exI [of _ es] exI [of _ w1])
      (auto simp: unavailable_text_def split: list.splits)
qed

theorem serve_failover_witness:
  "\<exists>w' tried rest es w1.
    serve (sample_env (Inl dial_failure)) sample_proxy sample_request fresh_call = Some w' \<and>
    providers_for (Some sample_config) ''m'' protocolOpenAICompletions = tried @ rest \<and>
    failed_attempts (sample_env (Inl dial_failure)) sample_proxy sample_request sample_meta 0 tried
      fresh_call es w1"
proof -
  obtain w' where run: "serve (sample_env (Inl dial_failure)) sample_proxy sample_request fresh_call = Some w'"
    using serve_ends [OF sample_ends(1)] by fast
  have "fresh_call\<lparr>tw_wrote := False\<rparr> = fresh_call" by (simp add: fresh_call_def)
  with serve_failover [OF sample_accepted run] run show ?thesis by metis
qed

text \<open>
  C19: a request that is not an acceptable call gets a 400, 404, 413 or 415 error answer; no
  upstream is asked and nothing is logged.
\<close>

theorem serve_rejects:
  assumes "\<nexists>meta provs. accepted env p r meta provs" "serve env p r w = Some w'" "rw_sent w = None"
  shows "(\<exists>status h. status \<in> {400, 404, 413, 415} \<and> rw_sent w' = Some (status, h)) \<and>
    call_log w' = call_log w \<and> serve (env\<lparr>env_do := other\<rparr>) p r w = Some w'"
proof -
  obtain status kind message where "status \<in> {400, 404, 413, 415}"
    "w' = write_error p status kind message w \<or>
     w' = write_error p status kind message (set_header ''Connection'' ''close'' w)"
    using serve_rejected [OF assms(1,2)] by blast
  with assms(2,3) serve_rejected_other [OF assms(1)] show ?thesis by (auto simp: set_header_def)
qed

theorem serve_rejects_witness:
  "\<exists>w' status h. serve (sample_env (Inl dial_failure)) sample_proxy
      (sample_request\<lparr>req_body := ''{}''\<rparr>) fresh_call = Some w' \<and> rw_sent w' = Some (status, h) \<and>
    status \<in> {400, 404, 413, 415}"
proof -
  let ?r = "sample_request\<lparr>req_body := ''{}''\<rparr>"
  have "read_body ?r = Inr ''{}''" by (simp add: read_body_def sample_request_def max_request_body_def)
  moreover have "encodings (req_header ?r) = []" by code_simp
  moreover have "parse_request ''{}'' = Inl MissingModel" by code_simp
  ultimately have n: "\<nexists>meta provs. accepted (sample_env (Inl dial_failure)) sample_proxy ?r meta provs"
    by (simp add: accepted_def decode_request_body_def content_encoding_def)
  obtain w' where run: "serve (sample_env (Inl dial_failure)) sample_proxy ?r fresh_call = Some w'"
    using serve_ends [OF sample_ends(1)] by fast
  have "rw_sent fresh_call = None" by (simp add: fresh_call_def)
  from serve_rejects [OF n run this, where other = "\<lambda>_ _. Inl dial_failure"] run show ?thesis by blast
qed



text \<open>
  C2: the answer. When an attempt ends well, the client has the upstream's status and, of a fresh
  writer, the copied headers (without the content length for an event stream), and exactly the
  bytes of the upstream's body - with a comment for each keepalive tick when it is an event stream
  that is not compressed, which a JSON answer never is.
\<close>

theorem forward_transparent:
  assumes "forward env p i r meta prov w = Some (None, w')" "rw_sent w = None"
  shows "\<exists>url model headers payload resp.
    resolve prov (px_protocol p) = Some (url, model, headers) \<and>
    rewrite_request (Body meta) model (Stream meta) (px_inject p) = Some payload \<and>
    env_do env i \<lparr>ur_url = url, ur_header = request_headers (req_header r) headers, ur_body = payload\<rparr> = Inr resp \<and>
    (let content_type = header_get (resp_header resp) ''Content-Type'';
         sse = response_is_sse (Stream meta) content_type;
         h = copy_response_headers (rw_header w) (resp_header resp) in
     rw_sent w' = Some (resp_status resp, if sse then header_del ''Content-Length'' h else h) \<and>
     rw_body w' = rw_body w @ stream_text
       (sse \<and> \<not> is_compressed_encoding (header_get (resp_header resp) ''Content-Encoding'')) (resp_body resp) \<and>
     (contains (to_lower content_type) ''json'' \<and> \<not> is_sse content_type \<longrightarrow>
       rw_body w' = rw_body w @ read_bytes (resp_body resp)))"
  using assms(1)
proof (cases rule: forward_cases)
  case (answered url pm hs payload resp)
  from answered(4) show ?thesis
  proof (cases rule: answer_cases)
    case (copied sse ndjson h keepalive w1 w2 blob usage first rec)
    have w1: "begun (resp_status resp, h) h (call_log w) w1"
      using tracked_header_begun [of "w\<lparr>rw_header := h\<rparr>" "resp_status resp"] assms(2) copied(6) by simp
    from copy_body_begun [OF copied(7) this] copied(8) have sent: "rw_sent w' = Some (resp_status resp, h)"
      by (simp add: begun_def)
    have "rw_body w1 = rw_body w" using copied(6) by (simp add: tracked_header_def write_header_def)
    with copy_body_seen [OF copied(7)] copied(4,8)
    have body: "rw_body w' = rw_body w @ stream_text keepalive (resp_body resp)" by auto
    have "rw_body w' = rw_body w @ read_bytes (resp_body resp)"
      if "contains (to_lower (header_get (resp_header resp) ''Content-Type'')) ''json''"
        "\<not> is_sse (header_get (resp_header resp) ''Content-Type'')"
    proof -
      from that have "\<not> sse" by (simp add: copied(2) response_is_sse_def)
      with body copied(4) show ?thesis by (simp add: stream_text_quiet)
    qed
    with answered(1-3) sent body show ?thesis
      unfolding copied(4) copied(5) copied(2) Let_def
      by (intro exI [of _ url] exI [of _ pm] exI [of _ hs] exI [of _ payload] exI [of _ resp]) auto
  qed simp
qed simp_all

text \<open>The sample call, answered.\<close>

lemma sample_copy:
  assumes "rw_sent w = Some (200, x)" "rw_room w = None"
  shows "\<exists>w2 blob usage first. copy_body (\<lambda>_. None) False False False (resp_body sample_response) w =
    Some (None, w2, blob, usage, first)"
  using assms
  by (simp add: copy_body_def sample_response_def tracked_lines.multi_write_eq tracked_write_def
      rw_write_def write_header_def body_allowed_def end_of_file_def Let_def)

lemma sample_forward:
  "\<exists>w'. forward (sample_env (Inr sample_response)) sample_proxy 0 sample_request sample_meta
    (ref_provider sample_config sample_ref) fresh_call = Some (None, w')"
proof -
  have r: "resolve (ref_provider sample_config sample_ref) (px_protocol sample_proxy) =
      Some (''http://h'', ''up'', [(''A'', ''2'')])" by code_simp
  have b: "rewrite_request (Body sample_meta) ''up'' (Stream sample_meta) (px_inject sample_proxy) =
      Some ''{\"model\":\"up\"}''" by code_simp
  have h: "response_is_sse (Stream sample_meta) (header_get (resp_header sample_response) ''Content-Type'') = False"
    "is_ndjson (header_get (resp_header sample_response) ''Content-Type'') = False" by code_simp+
  have s: "is_catastrophic None (resp_status sample_response) = False" by code_simp
  have env: "env_new_request (sample_env (Inr sample_response)) u = None"
    "env_do (sample_env (Inr sample_response)) i q = Inr sample_response"
    "env_float64 (sample_env (Inr sample_response)) = (\<lambda>_. None)" for u i q
    by (simp_all add: sample_env_def)
  obtain w2 blob usage first where "copy_body (\<lambda>_. None) False False False (resp_body sample_response)
      (tracked_header (resp_status sample_response) (fresh_call\<lparr>rw_header :=
        copy_response_headers (rw_header fresh_call) (resp_header sample_response)\<rparr>)) =
      Some (None, w2, blob, usage, first)"
    using sample_copy [of "tracked_header (resp_status sample_response) (fresh_call\<lparr>rw_header :=
        copy_response_headers (rw_header fresh_call) (resp_header sample_response)\<rparr>)"]
    by (auto simp: tracked_header_def write_header_def fresh_call_def sample_response_def)
  then show ?thesis by (simp add: forward_def r b env answer_def h s Let_def)
qed

theorem forward_transparent_witness:
  "\<exists>w'. forward (sample_env (Inr sample_response)) sample_proxy 0 sample_request sample_meta
      (ref_provider sample_config sample_ref) fresh_call = Some (None, w') \<and> rw_body w' = ''{}''"
proof -
  obtain w' where f: "forward (sample_env (Inr sample_response)) sample_proxy 0 sample_request sample_meta
      (ref_provider sample_config sample_ref) fresh_call = Some (None, w')" using sample_forward by blast
  have fresh: "rw_sent fresh_call = None" "rw_body fresh_call = []" by (simp_all add: fresh_call_def)
  have env: "env_do (sample_env (Inr sample_response)) i q = Inr resp \<longleftrightarrow> resp = sample_response" for i q resp
    by (auto simp: sample_env_def)
  have "contains (to_lower (header_get (resp_header sample_response) ''Content-Type'')) ''json''"
    "\<not> is_sse (header_get (resp_header sample_response) ''Content-Type'')" by code_simp+
  moreover have "read_bytes (resp_body sample_response) = ''{}''" by (simp add: sample_response_def)
  ultimately have "rw_body w' = ''{}''"
    using forward_transparent [OF f fresh(1)] by (auto simp: env fresh(2) Let_def)
  with f show ?thesis by blast
qed

text \<open>
  C17: the log entry of an attempt that ended well: the upstream's status, the payload sent, the
  coalesced events of an event stream or the body itself, up to the blob limit, and the token
  counts the body reports.
\<close>

theorem forward_record:
  assumes "forward env p i r meta prov w = Some (None, w')" "px_logger p"
  shows "\<exists>rec url model headers payload resp.
    call_log w' = call_log w @ [rec] \<and>
    resolve prov (px_protocol p) = Some (url, model, headers) \<and>
    rewrite_request (Body meta) model (Stream meta) (px_inject p) = Some payload \<and>
    env_do env i \<lparr>ur_url = url, ur_header = request_headers (req_header r) headers, ur_body = payload\<rparr> = Inr resp \<and>
    rec_request_json rec = payload \<and> rec_http_status rec = resp_status resp \<and> rec_error rec = [] \<and>
    rec_provider_model rec = (if model = [] then Model meta else model) \<and>
    (let content_type = header_get (resp_header resp) ''Content-Type'';
         sse = response_is_sse (Stream meta) content_type;
         ndjson = (\<not> sse \<and> is_ndjson content_type);
         body = read_bytes (resp_body resp) in
     ((sse \<longrightarrow> events_fit body) \<longrightarrow> rec_response_json rec =
        encode_response_blob
          (take (nat max_medium_blob) (if sse then concat (coalesce (transcript_events body)) else body))
          (sse \<or> ndjson)) \<and>
     ((sse \<or> ndjson \<longrightarrow> lines_fit body) \<longrightarrow>
        rec_input_tokens rec = Input (body_usage (env_float64 env) sse ndjson body) \<and>
        rec_output_tokens rec = Output (body_usage (env_float64 env) sse ndjson body) \<and>
        rec_cache_tokens rec = CacheRead (body_usage (env_float64 env) sse ndjson body) \<and>
        rec_uncached_tokens rec = Uncached (body_usage (env_float64 env) sse ndjson body)))"
  using assms(1)
proof (cases rule: forward_cases)
  case (answered url pm hs payload resp)
  from answered(4) show ?thesis
  proof (cases rule: answer_cases)
    case (copied sse ndjson h keepalive w1 w2 blob usage first rec)
    obtain x where "begun x h (call_log w) w1"
      using begun_any [of "w\<lparr>rw_header := h\<rparr>" "resp_status resp"] copied(6) by auto
    from copy_body_begun [OF copied(7) this] assms(2) copied(8)
    have log: "call_log w' = call_log w @ [rec]" by (simp add: begun_def)
    note blob = copy_body_blob [OF copied(7)] and usage = copy_body_usage [OF copied(7)]
    have fields: "rec_request_json rec = payload" "rec_error rec = []"
      "rec_provider_model rec = (if pm = [] then Model meta else pm)"
      using copied(11,13,20) by (simp_all add: new_record_def)
    have blob': "rec_response_json rec = encode_response_blob (take (nat max_medium_blob)
        (if sse then concat (coalesce (transcript_events (read_bytes (resp_body resp))))
         else read_bytes (resp_body resp))) (sse \<or> ndjson)"
      if "sse \<longrightarrow> events_fit (read_bytes (resp_body resp))"
      using blob [OF that] copied(15) by simp
    let ?u = "body_usage (env_float64 env) sse ndjson (read_bytes (resp_body resp))"
    have counts: "rec_input_tokens rec = Input ?u" "rec_output_tokens rec = Output ?u"
      "rec_cache_tokens rec = CacheRead ?u" "rec_uncached_tokens rec = Uncached ?u"
      if "sse \<or> ndjson \<longrightarrow> lines_fit (read_bytes (resp_body resp))"
      using usage [OF that] copied(16-19) by simp_all
    show ?thesis
      unfolding Let_def
    proof (intro exI conjI)
      show "call_log w' = call_log w @ [rec]" by (rule log)
      show "resolve prov (px_protocol p) = Some (url, pm, hs)" by (rule answered)
    qed (rule answered fields copied(14) impI [OF blob', unfolded copied(3), unfolded copied(2)]
        impI [OF conjI [OF counts(1) conjI [OF counts(2) conjI [OF counts(3,4)]]],
          unfolded copied(3), unfolded copied(2)] | assumption)+
  qed simp
qed simp_all

theorem forward_record_witness:
  "\<exists>w' rec. forward (sample_env (Inr sample_response)) sample_proxy 0 sample_request sample_meta
      (ref_provider sample_config sample_ref) fresh_call = Some (None, w') \<and>
    call_log w' = [rec] \<and> rec_http_status rec = 200 \<and> rec_error rec = []"
proof -
  obtain w' where f: "forward (sample_env (Inr sample_response)) sample_proxy 0 sample_request sample_meta
      (ref_provider sample_config sample_ref) fresh_call = Some (None, w')" using sample_forward by blast
  have l: "px_logger sample_proxy" by (simp add: sample_proxy_def)
  have env: "env_do (sample_env (Inr sample_response)) i q = Inr resp \<longleftrightarrow> resp = sample_response" for i q resp
    by (auto simp: sample_env_def)
  have s: "resp_status sample_response = 200" "call_log fresh_call = []"
    by (simp_all add: sample_response_def fresh_call_def)
  from forward_record [OF f l] obtain rec where
    "call_log w' = [rec]" "rec_http_status rec = 200" "rec_error rec = []"
    unfolding env by (auto simp: s)
  with f show ?thesis by blast
qed



end
