(* ===== verification/Clock.thy ===== *)
theory Clock
  imports Usage Db
begin

text \<open>
  The part of Go's \<^verbatim>\<open>time\<close> package the dashboard uses. An instant is its number of nanoseconds since
  1970-01-01T00:00:00Z (\<open>zero_time\<close> is the zero \<^verbatim>\<open>time.Time\<close>), a day its number since 1970-01-01;
  the calendar is the proleptic Gregorian one. Layouts are lists of their elements.
\<close>

subsection \<open>The calendar\<close>

definition second_ns :: int where
  "second_ns = 1000000000"

definition hour_ns :: int where
  "hour_ns = 3600 * second_ns"

definition day_ns :: int where
  "day_ns = 24 * hour_ns"

definition leap :: "int \<Rightarrow> bool" where
  "leap y = (y mod 4 = 0 \<and> (y mod 100 \<noteq> 0 \<or> y mod 400 = 0))"

text \<open>The day number of January 1 of a year.\<close>

definition new_year :: "int \<Rightarrow> int" where
  "new_year y = 365 * (y - 1) + (y - 1) div 4 - (y - 1) div 100 + (y - 1) div 400 - 719162"

text \<open>The year of a day and the days of that year before it.\<close>

definition year_yday :: "int \<Rightarrow> int \<times> int" where
  "year_yday day =
    (let d = day + 719162;
         n = d div 146097; d = d mod 146097;
         c = d div 36524; c = c - c div 4; d = d - 36524 * c;
         q = d div 1461; d = d mod 1461;
         y = d div 365; y = y - y div 4; d = d - 365 * y
     in (1 + 400 * n + 100 * c + 4 * q + y, d))"

definition month_lengths :: "int \<Rightarrow> int list" where
  "month_lengths y = [31, if leap y then 29 else 28, 31, 30, 31, 30, 31, 31, 30, 31, 30, 31]"

fun month_day :: "int \<Rightarrow> int list \<Rightarrow> int \<Rightarrow> int \<times> int" where
  "month_day m [] d = (m, d + 1)"
| "month_day m (l # ls) d = (if d < l then (m, d + 1) else month_day (m + 1) ls (d - l))"

definition civil :: "int \<Rightarrow> int \<times> int \<times> int" where
  "civil day = (case year_yday day of (y, d) \<Rightarrow> (y, month_day 1 (month_lengths y) d))"

text \<open>\<^verbatim>\<open>time.Date\<close> in UTC at midnight: the day may be out of its month's range.\<close>

definition date_day :: "int \<Rightarrow> int \<Rightarrow> int \<Rightarrow> int" where
  "date_day y m d = new_year y + sum_list (take (nat (m - 1)) (month_lengths y)) + d - 1"

definition day_of :: "int \<Rightarrow> int" where
  "day_of t = t div day_ns"

definition hour_of :: "int \<Rightarrow> int" where
  "hour_of t = t mod day_ns div hour_ns"

text \<open>\<^verbatim>\<open>Weekday\<close>, Sunday is 0, and \<^verbatim>\<open>ISOWeek\<close>, by the Thursday of the week.\<close>

definition weekday :: "int \<Rightarrow> int" where
  "weekday day = (day + 4) mod 7"

definition iso_week :: "int \<Rightarrow> int \<times> int" where
  "iso_week day =
    (let thursday = day + 4 - (weekday (day - 1) + 1) in
     case year_yday thursday of (y, d) \<Rightarrow> (y, d div 7 + 1))"

text \<open>\<^verbatim>\<open>a.Sub(b)\<close> saturates.\<close>

definition time_sub :: "int \<Rightarrow> int \<Rightarrow> int" where
  "time_sub a b = max (- (2 ^ 63)) (min (2 ^ 63 - 1) (a - b))"

subsection \<open>Formatting\<close>

definition zero_pad :: "nat \<Rightarrow> string \<Rightarrow> string" where
  "zero_pad w s = replicate (w - length s) CHR ''0'' @ s"

definition pad_int :: "nat \<Rightarrow> int \<Rightarrow> string" where
  "pad_int w i = (if i < 0 then CHR ''-'' # zero_pad w (digits (nat (- i))) else zero_pad w (digits (nat i)))"

text \<open>The layouts \<^verbatim>\<open>2006-01-02\<close>, \<^verbatim>\<open>2006-01-02 15:00\<close>, \<^verbatim>\<open>2006-01-02T15:04\<close> and \<^verbatim>\<open>time.RFC3339\<close>, in UTC.\<close>

definition format_date :: "int \<Rightarrow> string" where
  "format_date t = (case civil (day_of t) of (y, m, d) \<Rightarrow>
    pad_int 4 y @ ''-'' @ pad_int 2 m @ ''-'' @ pad_int 2 d)"

definition format_hour :: "int \<Rightarrow> string" where
  "format_hour t = format_date t @ '' '' @ pad_int 2 (hour_of t) @ '':00''"

definition format_minute :: "int \<Rightarrow> string" where
  "format_minute t = format_date t @ ''T'' @ pad_int 2 (hour_of t) @ '':'' @ pad_int 2 (t mod hour_ns div (60 * second_ns))"

definition format_rfc3339 :: "int \<Rightarrow> string" where
  "format_rfc3339 t = format_minute t @ '':'' @ pad_int 2 (t mod (60 * second_ns) div second_ns) @ ''Z''"

subsection \<open>Parsing\<close>

datatype layout_element = LYear | LMonth | LDay | LHour | LMinute | LSecond | LFraction | LZone | LChar char

record parsed_time =
  p_year :: int
  p_month :: int
  p_day :: int
  p_hour :: int
  p_minute :: int
  p_second :: int
  p_nano :: int
  p_zone :: "int option"

definition getnum :: "bool \<Rightarrow> string \<Rightarrow> (int \<times> string) option" where
  "getnum fixed s =
    (case s of
       [] \<Rightarrow> None
     | a # s' \<Rightarrow>
         if \<not> is_digit a then None
         else if s' = [] \<or> \<not> is_digit (hd s') then (if fixed then None else Some (int (digit_val a), s'))
         else Some (int (digit_val a) * 10 + int (digit_val (hd s')), tl s'))"

definition ranged :: "int \<Rightarrow> int \<Rightarrow> (int \<times> string) option \<Rightarrow> (int \<times> string) option" where
  "ranged lo hi r = (case r of Some (v, s) \<Rightarrow> if lo \<le> v \<and> v < hi then Some (v, s) else None | None \<Rightarrow> None)"

text \<open>A fraction after a second: its nanoseconds (nine digits count) and the rest, 0 when there is none.\<close>

definition take_fraction :: "string \<Rightarrow> int \<times> string" where
  "take_fraction s =
    (if 2 \<le> length s \<and> hd s \<in> {CHR ''.'', CHR '',''} \<and> is_digit (s ! 1) then
       (let ds = takeWhile is_digit (tl s); v = take 9 ds in
        (int (nat_of_digits v) * 10 ^ (9 - length v), dropWhile is_digit (tl s)))
     else (0, s))"

definition parse_zone :: "string \<Rightarrow> (int \<times> string) option" where
  "parse_zone s =
    (if s \<noteq> [] \<and> hd s = CHR ''Z'' then Some (0, tl s)
     else if length s < 6 \<or> s ! 3 \<noteq> CHR '':'' then None
     else do {
       (h, _) \<leftarrow> getnum True (take 2 (drop 1 s));
       (m, _) \<leftarrow> getnum True (take 2 (drop 4 s));
       if h > 24 \<or> m > 60 then None
       else if hd s = CHR ''+'' then Some ((h * 60 + m) * 60, drop 6 s)
       else if hd s = CHR ''-'' then Some (- ((h * 60 + m) * 60), drop 6 s)
       else None
     })"

fun is_lchar :: "layout_element \<Rightarrow> bool" where
  "is_lchar (LChar c) = True"
| "is_lchar _ = False"

definition fraction_next :: "layout_element list \<Rightarrow> bool" where
  "fraction_next ls = (case dropWhile is_lchar ls of LFraction # _ \<Rightarrow> True | _ \<Rightarrow> False)"

fun parse_layout :: "layout_element list \<Rightarrow> string \<Rightarrow> parsed_time \<Rightarrow> parsed_time option" where
  "parse_layout [] s p = (if s = [] then Some p else None)"
| "parse_layout (LChar c # ls) s p =
    (if c = CHR '' '' then
       (if s \<noteq> [] \<and> hd s \<noteq> CHR '' '' then None
        else parse_layout ls (dropWhile (\<lambda>x. x = CHR '' '') s) p)
     else if s = [] \<or> hd s \<noteq> c then None
     else parse_layout ls (tl s) p)"
| "parse_layout (LYear # ls) s p =
    (if length s < 4 \<or> \<not> list_all is_digit (take 4 s) then None
     else parse_layout ls (drop 4 s) (p\<lparr>p_year := int (nat_of_digits (take 4 s))\<rparr>))"
| "parse_layout (LMonth # ls) s p =
    do { (v, s) \<leftarrow> ranged 1 13 (getnum True s); parse_layout ls s (p\<lparr>p_month := v\<rparr>) }"
| "parse_layout (LDay # ls) s p =
    do { (v, s) \<leftarrow> getnum True s; parse_layout ls s (p\<lparr>p_day := v\<rparr>) }"
| "parse_layout (LHour # ls) s p =
    do { (v, s) \<leftarrow> ranged 0 24 (getnum False s); parse_layout ls s (p\<lparr>p_hour := v\<rparr>) }"
| "parse_layout (LMinute # ls) s p =
    do { (v, s) \<leftarrow> ranged 0 60 (getnum True s); parse_layout ls s (p\<lparr>p_minute := v\<rparr>) }"
| "parse_layout (LSecond # ls) s p =
    do { (v, s) \<leftarrow> ranged 0 60 (getnum True s);
         let (n, s) = (if fraction_next ls then (0, s) else take_fraction s);
         parse_layout ls s (p\<lparr>p_second := v, p_nano := n\<rparr>) }"
| "parse_layout (LFraction # ls) s p =
    (let (n, s) = take_fraction s in parse_layout ls s (p\<lparr>p_nano := n\<rparr>))"
| "parse_layout (LZone # ls) s p =
    do { (z, s) \<leftarrow> parse_zone s; parse_layout ls s (p\<lparr>p_zone := Some z\<rparr>) }"

text \<open>
  \<^verbatim>\<open>time.Parse\<close>: the date and clock as an instant of UTC, and the zone offset read, in seconds. A day
  beyond its month is an error.
\<close>

definition time_parse :: "layout_element list \<Rightarrow> string \<Rightarrow> (int \<times> int option) option" where
  "time_parse ls s =
    do { p \<leftarrow> parse_layout ls s \<lparr>p_year = 0, p_month = 1, p_day = 1, p_hour = 0, p_minute = 0, p_second = 0,
           p_nano = 0, p_zone = None\<rparr>;
         if p_day p < 1 \<or> month_lengths (p_year p) ! nat (p_month p - 1) < p_day p then None
         else Some
           (date_day (p_year p) (p_month p) (p_day p) * day_ns + p_hour p * hour_ns +
              p_minute p * (60 * second_ns) + p_second p * second_ns + p_nano p,
            p_zone p) }"

definition layout_date :: "layout_element list" where
  "layout_date = [LYear, LChar CHR ''-'', LMonth, LChar CHR ''-'', LDay]"

definition layout_clock :: "char \<Rightarrow> layout_element list" where
  "layout_clock sep = layout_date @ [LChar sep, LHour, LChar CHR '':'', LMinute]"

definition layout_seconds :: "char \<Rightarrow> layout_element list" where
  "layout_seconds sep = layout_clock sep @ [LChar CHR '':'', LSecond]"

definition layout_rfc3339 :: "layout_element list" where
  "layout_rfc3339 = layout_seconds CHR ''T'' @ [LZone]"

definition layout_rfc3339_nano :: "layout_element list" where
  "layout_rfc3339_nano = layout_seconds CHR ''T'' @ [LFraction, LZone]"

subsection \<open>The calendar is a bijection\<close>

lemma div_quarter: "0 \<le> k \<Longrightarrow> k \<le> (4 :: int) \<Longrightarrow> k div 4 = (if k = 4 then 1 else 0)"
  by auto

lemma year_parts:
  assumes "0 \<le> c" "c \<le> 3" "0 \<le> q" "q \<le> 24" "0 \<le> e" "e \<le> 3" "y = 1 + 400 * n + 100 * c + 4 * q + (e :: int)"
  shows "(y - 1) div 4 = 100 * n + 25 * c + q" "(y - 1) div 100 = 4 * n + c" "(y - 1) div 400 = n"
proof -
  show "(y - 1) div 4 = 100 * n + 25 * c + q"
    by (rule int_div_pos_eq [where r = e]) (use assms in simp)+
  show "(y - 1) div 100 = 4 * n + c"
    by (rule int_div_pos_eq [where r = "4 * q + e"]) (use assms in simp)+
  show "(y - 1) div 400 = n"
    by (rule int_div_pos_eq [where r = "100 * c + 4 * q + e"]) (use assms in simp)+
qed

lemma leap_parts:
  assumes "0 \<le> c" "c \<le> 3" "0 \<le> q" "q \<le> 24" "0 \<le> e" "e \<le> 3" "y = 1 + 400 * n + 100 * c + 4 * q + (e :: int)"
  shows "leap y \<longleftrightarrow> e = 3 \<and> (q < 24 \<or> c = 3)"
proof (cases "e = 3")
  case False
  with assms(6) have "e \<le> 2" by simp
  then have "y mod 4 = e + 1" by (intro int_mod_pos_eq [where q = "100 * n + 25 * c + q"]) (use assms in simp)+
  with False assms(5) show ?thesis by (simp add: leap_def)
next
  case True
  have m4: "y mod 4 = 0"
    by (rule int_mod_pos_eq [where q = "100 * n + 25 * c + q + 1"]) (use assms True in simp)+
  show ?thesis
  proof (cases "q = 24")
    case False
    with assms(4) have "q \<le> 23" by simp
    then have "y mod 100 = 4 * q + 4"
      by (intro int_mod_pos_eq [where q = "4 * n + c"]) (use assms True in simp)+
    with m4 True False assms(3,4) show ?thesis by (simp add: leap_def)
  next
    case q: True
    have m100: "y mod 100 = 0"
      by (rule int_mod_pos_eq [where q = "4 * n + c + 1"]) (use assms True q in simp)+
    show ?thesis
    proof (cases "c = 3")
      case c: True
      have "y mod 400 = 0"
        by (rule int_mod_pos_eq [where q = "n + 1"]) (use assms True q c in simp)+
      with m4 m100 True c show ?thesis by (simp add: leap_def)
    next
      case c: False
      with assms(2) have "c \<le> 2" by simp
      then have "y mod 400 = 100 * c + 100"
        by (intro int_mod_pos_eq [where q = n]) (use assms True q in simp)+
      with m4 m100 True q c assms(1) show ?thesis by (simp add: leap_def)
    qed
  qed
qed

lemma year_yday_bounds:
  assumes "year_yday day = (y, d)"
  shows "new_year y + d = day" "0 \<le> d" "d < (if leap y then 366 else 365)"
proof -
  define D where "D = day + 719162"
  define n where "n = D div 146097"
  define d1 where "d1 = D mod 146097"
  define c where "c = d1 div 36524 - d1 div 36524 div 4"
  define d2 where "d2 = d1 - 36524 * c"
  define q where "q = d2 div 1461"
  define d3 where "d3 = d2 mod 1461"
  define e where "e = d3 div 365 - d3 div 365 div 4"
  have y: "y = 1 + 400 * n + 100 * c + 4 * q + e" and d: "d = d3 - 365 * e"
    using assms unfolding year_yday_def Let_def
    by (simp_all only: prod.inject flip: D_def n_def d1_def c_def d2_def q_def d3_def e_def)
  have d1: "0 \<le> d1" "d1 < 146097" "D = 146097 * n + d1" by (auto simp: d1_def n_def)
  define k where "k = d1 div 36524"
  have k: "0 \<le> k" "k \<le> 4" "36524 * k \<le> d1" "d1 < 36524 * k + 36524"
    using d1(1,2) by (auto simp: k_def)
  have "c = (if k = 4 then 3 else k)" using k(1,2) by (auto simp: c_def k_def [symmetric] div_quarter)
  with k d1(2) have c: "0 \<le> c" "c \<le> 3" "0 \<le> d2" "d2 \<le> 36524" "c < 3 \<longrightarrow> d2 < 36524"
    by (auto simp: d2_def split: if_splits)
  have q: "0 \<le> q" "q \<le> 24" "d2 = 1461 * q + d3" "0 \<le> d3" "d3 < 1461"
    using c(3,4) by (auto simp: q_def d3_def)
  define j where "j = d3 div 365"
  have j: "0 \<le> j" "j \<le> 4" "365 * j \<le> d3" "d3 < 365 * j + 365"
    using q(4,5) by (auto simp: j_def)
  have "e = (if j = 4 then 3 else j)" using j(1,2) by (auto simp: e_def j_def [symmetric] div_quarter)
  with j q(5) have e: "0 \<le> e" "e \<le> 3" "0 \<le> d" "d \<le> 365" "e < 3 \<longrightarrow> d < 365"
    by (auto simp: d split: if_splits)
  have last: "q = 24 \<longrightarrow> c < 3 \<longrightarrow> d3 < 1460"
    using c q by auto
  note divs = year_parts [OF c(1,2) q(1,2) e(1,2) y]
  have "D = 146097 * n + 36524 * c + 1461 * q + 365 * e + d"
    using d1(3) q(3) d by (simp add: d2_def)
  then show "new_year y + d = day"
    unfolding new_year_def divs by (simp add: y D_def)
  show "0 \<le> d" by (rule e(3))
  have "leap y \<longleftrightarrow> e = 3 \<and> (q < 24 \<or> c = 3)"
    by (rule leap_parts [OF c(1,2) q(1,2) e(1,2) y])
  then show "d < (if leap y then 366 else 365)"
    using e last q d c by auto
qed

lemma div_step: "0 < k \<Longrightarrow> (y :: int) div k = (y - 1) div k + (if y mod k = 0 then 1 else 0)"
proof -
  assume k: "0 < k"
  have y: "y = k * (y div k) + y mod k" by simp
  show ?thesis
  proof (cases "y mod k = 0")
    case True
    then have "(y - 1) div k = y div k - 1" using k y by (intro int_div_pos_eq [where r = "k - 1"]) (auto simp: algebra_simps)
    with True show ?thesis by simp
  next
    case False
    then have "0 < y mod k" "y mod k < k" using k by (auto simp: order.not_eq_order_implies_strict)
    then have "0 \<le> y mod k - 1" "y mod k - 1 < k" by linarith+
    then have "(y - 1) div k = y div k" using y by (intro int_div_pos_eq [where r = "y mod k - 1"]) auto
    with False show ?thesis by simp
  qed
qed

lemma new_year_aux:
  "a = a' + da \<Longrightarrow> b = b' + db \<Longrightarrow> c = c' + dc \<Longrightarrow>
    365 * y + a - b + c - 719162 = (365 * (y - 1) + a' - b' + c' - 719162) + (365 + da - db + dc :: int)"
  by simp

lemma leap_count:
  "(p100 \<longrightarrow> p4) \<Longrightarrow> (p400 \<longrightarrow> p100) \<Longrightarrow>
    365 + (if p4 then 1 else 0) - (if p100 then 1 else 0) + (if p400 then 1 else 0) =
      (if p4 \<and> (\<not> p100 \<or> p400) then 366 else 365 :: int)"
  by (cases p4; cases p100; cases p400; simp)

lemma new_year_step: "new_year (y + 1) = new_year y + (if leap y then 366 else 365)"
proof -
  have "(4 :: int) dvd 100" "(100 :: int) dvd 400" by simp_all
  then have "y mod 100 = 0 \<longrightarrow> y mod 4 = 0" "y mod 400 = 0 \<longrightarrow> y mod 100 = 0"
    by (auto simp: mod_eq_0_iff_dvd intro: dvd_trans)
  then have p: "365 + (if y mod 4 = 0 then 1 else 0) - (if y mod 100 = 0 then 1 else 0) + (if y mod 400 = 0 then 1 else 0) =
      (if leap y then 366 else 365 :: int)"
    unfolding leap_def by (rule leap_count)
  have "new_year (y + 1) = 365 * y + y div 4 - y div 100 + y div 400 - 719162"
    by (simp add: new_year_def)
  also have "\<dots> = new_year y + (365 + (if y mod 4 = 0 then 1 else 0) - (if y mod 100 = 0 then 1 else 0) +
      (if y mod 400 = 0 then 1 else 0))"
    unfolding new_year_def
    by (rule new_year_aux) (rule div_step, simp)+
  finally show ?thesis unfolding p .
qed

lemma new_year_mono: "y \<le> z \<Longrightarrow> new_year y \<le> new_year z"
  by (induction z rule: int_ge_induct) (auto simp: new_year_step)

lemma year_unique:
  assumes "new_year y \<le> day" "day < new_year (y + 1)" "new_year z \<le> day" "day < new_year (z + 1)"
  shows "y = z"
proof (rule ccontr)
  assume "y \<noteq> z"
  then have "y + 1 \<le> z \<or> z + 1 \<le> y" by linarith
  with new_year_mono [of "y + 1" z] new_year_mono [of "z + 1" y] assms show False by linarith
qed

lemma year_yday_unique:
  assumes "0 \<le> d" "d < (if leap y then 366 else 365)"
  shows "year_yday (new_year y + d) = (y, d)"
proof -
  obtain z e where ze: "year_yday (new_year y + d) = (z, e)" by (cases "year_yday (new_year y + d)")
  note b = year_yday_bounds [OF ze]
  have "y = z"
    by (rule year_unique [where day = "new_year y + d"]) (use assms b new_year_step [of y] new_year_step [of z] in linarith)+
  with b(1) ze show ?thesis by simp
qed

lemma month_day_sum:
  assumes "month_day m ls d = (m', d')" "0 \<le> d" "d < sum_list ls"
  shows "\<exists>k. m' = m + int k \<and> k < length ls \<and> sum_list (take k ls) + d' - 1 = d \<and> 1 \<le> d' \<and> d' \<le> ls ! k"
  using assms
proof (induction m ls d rule: month_day.induct)
  case (2 m l ls d)
  show ?case
  proof (cases "d < l")
    case True
    with 2(2,3) show ?thesis by (intro exI [of _ 0]) auto
  next
    case False
    with 2 obtain k where "m' = m + 1 + int k" "k < length ls" "sum_list (take k ls) + d' - 1 = d - l" "1 \<le> d'" "d' \<le> ls ! k"
      by auto
    then show ?thesis by (intro exI [of _ "Suc k"]) auto
  qed
qed simp

lemma month_lengths_sum: "sum_list (month_lengths y) = (if leap y then 366 else 365)"
  by (simp add: month_lengths_def)

lemma length_month_lengths [simp]: "length (month_lengths y) = 12"
  by (simp add: month_lengths_def)

lemma civil_day:
  assumes "civil day = (y, m, d)"
  shows "date_day y m d = day" "1 \<le> m" "m \<le> 12" "1 \<le> d" "d \<le> month_lengths y ! nat (m - 1)"
proof -
  obtain e where e: "year_yday day = (y, e)" "month_day 1 (month_lengths y) e = (m, d)"
    using assms by (auto simp: civil_def split: prod.splits)
  note b = year_yday_bounds [OF e(1)]
  then have "e < sum_list (month_lengths y)" by (simp add: month_lengths_sum)
  from month_day_sum [OF e(2) b(2) this] obtain k where k: "m = 1 + int k" "k < 12"
    "sum_list (take k (month_lengths y)) + d - 1 = e" "1 \<le> d" "d \<le> month_lengths y ! k" by auto
  show "date_day y m d = day" using k b(1) by (simp add: date_day_def)
  show "1 \<le> m" "m \<le> 12" "1 \<le> d" "d \<le> month_lengths y ! nat (m - 1)" using k by simp_all
qed

lemma month_length_le: "1 \<le> m \<Longrightarrow> m \<le> 12 \<Longrightarrow> month_lengths y ! nat (m - 1) \<le> 31"
proof -
  assume "1 \<le> m" "m \<le> 12"
  then have "month_lengths y ! nat (m - 1) \<in> set (month_lengths y)" by (intro nth_mem) simp
  then show ?thesis by (auto simp: month_lengths_def split: if_splits)
qed

subsection \<open>Numbers with leading zeros\<close>

lemma nat_of_digits_zeros: "nat_of_digits (replicate k CHR ''0'' @ ds) = nat_of_digits ds"
  by (induction k) (simp_all add: nat_of_digits_def digit_val_def)

lemma zero_pad_value [simp]: "nat_of_digits (zero_pad w (digits n)) = n"
  by (simp add: zero_pad_def nat_of_digits_zeros nat_of_digits)

lemma zero_pad_digits: "list_all is_digit (zero_pad w (digits n))" "zero_pad w (digits n) \<noteq> []"
  using digits_are_digits [of n] by (auto simp: zero_pad_def list_all_iff is_digit_def)

lemma length_digits: "0 < k \<Longrightarrow> n < 10 ^ k \<Longrightarrow> length (digits n) \<le> k"
proof (induction n arbitrary: k rule: digits.induct)
  case (1 n)
  show ?case
  proof (cases "n < 10")
    case True
    with 1(2) show ?thesis by (subst digits.simps) simp
  next
    case False
    then obtain j where j: "k = Suc j" "0 < j" using 1(2,3) by (cases k; cases "k - 1") auto
    then have "n div 10 < 10 ^ j" using 1(3) by (simp add: less_mult_imp_div_less mult.commute)
    from 1(1) [OF False j(2) this] False j show ?thesis by (subst digits.simps) simp
  qed
qed

lemma length_zero_pad: "0 < w \<Longrightarrow> n < 10 ^ w \<Longrightarrow> length (zero_pad w (digits n)) = w"
  using length_digits [of w n] by (simp add: zero_pad_def)

lemma pad_int_digits: "0 \<le> i \<Longrightarrow> c \<in> set (pad_int w i) \<Longrightarrow> is_digit c"
  using zero_pad_digits [of w "nat i"] by (auto simp: pad_int_def list_all_iff)

lemma pad_int_inject: "0 \<le> i \<Longrightarrow> 0 \<le> j \<Longrightarrow> pad_int w i = pad_int w j \<longleftrightarrow> i = j"
  by (metis pad_int_def zero_pad_value nat_eq_iff2 not_less)

lemma two_digits:
  assumes "0 \<le> i" "i < 100"
  obtains a b where "pad_int 2 i = [a, b]" "is_digit a" "is_digit b" "int (digit_val a) * 10 + int (digit_val b) = i"
proof -
  have "length (pad_int 2 i) = 2" using assms length_zero_pad [of 2 "nat i"] by (simp add: pad_int_def)
  then obtain a b where ab: "pad_int 2 i = [a, b]" by (auto simp: numeral_2_eq_2 length_Suc_conv)
  have "nat_of_digits (pad_int 2 i) = nat i" using assms by (simp add: pad_int_def)
  then have "int (digit_val a) * 10 + int (digit_val b) = i"
    using assms by (simp add: ab nat_of_digits_def)
  with ab show ?thesis using that pad_int_digits [OF assms(1), of _ 2] by simp
qed

lemma getnum_two_digits: "0 \<le> i \<Longrightarrow> i < 100 \<Longrightarrow> getnum fixed (pad_int 2 i @ s) = Some (i, s)"
  by (rule two_digits) (auto simp: getnum_def)

lemma split_at_char:
  "c \<notin> set a \<Longrightarrow> c \<notin> set a' \<Longrightarrow> a @ (c :: char) # b = a' @ c # b' \<longleftrightarrow> a = a' \<and> b = b'"
proof
  assume n: "c \<notin> set a" "c \<notin> set a'" and e: "a @ c # b = a' @ c # b'"
  have "cut c (a @ c # b) = (a, b, True)" by (rule cut_append [OF n(1)])
  moreover have "cut c (a @ c # b) = (a', b', True)" unfolding e by (rule cut_append [OF n(2)])
  ultimately show "a = a' \<and> b = b'" by simp
qed simp

lemma pad_int_no: "0 \<le> i \<Longrightarrow> \<not> is_digit c \<Longrightarrow> c \<notin> set (pad_int w i)"
  using pad_int_digits by blast

lemma not_digits: "\<not> is_digit CHR ''-''" "\<not> is_digit CHR '' ''" "\<not> is_digit CHR '':''" "\<not> is_digit CHR ''T''"
  "\<not> is_digit CHR ''W''" "\<not> is_digit CHR ''Z''" "\<not> is_digit CHR ''.''" "\<not> is_digit CHR '',''"
  by (simp_all add: is_digit_def)

subsection \<open>Labels are unique\<close>

definition year_of :: "int \<Rightarrow> int" where
  "year_of t = fst (year_yday (day_of t))"

lemma civil_year: "civil (day_of t) = (y, m, d) \<Longrightarrow> y = year_of t"
  by (auto simp: civil_def year_of_def split: prod.splits)

lemma format_date_inject:
  assumes "0 \<le> year_of t" "0 \<le> year_of u"
  shows "format_date t = format_date u \<longleftrightarrow> day_of t = day_of u"
proof -
  obtain y m d y' m' d' where c: "civil (day_of t) = (y, m, d)" "civil (day_of u) = (y', m', d')"
    by (metis prod_cases3)
  note a = civil_day [OF c(1)] and b = civil_day [OF c(2)]
  have y: "0 \<le> y" "0 \<le> y'" using assms civil_year c by simp_all
  have "format_date t = format_date u \<longleftrightarrow> y = y' \<and> m = m' \<and> d = d'"
    using y a(2,4) b(2,4) by (simp add: format_date_def c split_at_char pad_int_no not_digits pad_int_inject)
  also have "\<dots> \<longleftrightarrow> day_of t = day_of u" using a(1) b(1) c by auto
  finally show ?thesis .
qed

text \<open>The Monday of a day's week, and weeks by their number.\<close>

definition week_start :: "int \<Rightarrow> int" where
  "week_start day = day - (day + 3) mod 7"

lemma iso_week_thursday: "iso_week day = (case year_yday (week_start day + 3) of (y, d) \<Rightarrow> (y, d div 7 + 1))"
  by (simp add: iso_week_def weekday_def week_start_def algebra_simps)

lemma same_residue: "(a :: int) div 7 = b div 7 \<Longrightarrow> a mod 7 = b mod 7 \<Longrightarrow> a = b"
  by (metis div_mult_mod_eq)

lemma iso_week_inject: "iso_week day = iso_week day' \<longleftrightarrow> week_start day = week_start day'"
proof
  assume eq: "iso_week day = iso_week day'"
  obtain y a y' b where y: "year_yday (week_start day + 3) = (y, a)" "year_yday (week_start day' + 3) = (y', b)"
    by (metis prod.exhaust)
  with eq have e: "y' = y" "a div 7 = b div 7" by (simp_all add: iso_week_thursday)
  have "(week_start n + 3) mod 7 = 0" for n
    unfolding week_start_def by presburger
  then have "(new_year y + a) mod 7 = (new_year y + b) mod 7"
    using year_yday_bounds(1) [OF y(1)] year_yday_bounds(1) [OF y(2)] e(1) by metis
  then have "(new_year y + a - new_year y) mod 7 = (new_year y + b - new_year y) mod 7"
    by (rule mod_diff_cong) simp
  then have "a mod 7 = b mod 7" by simp
  with e(2) have "a = b" by (rule same_residue)
  with e(1) have "week_start day + 3 = week_start day' + 3"
    using year_yday_bounds(1) [OF y(1)] year_yday_bounds(1) [OF y(2)] by simp
  then show "week_start day = week_start day'" by simp
qed (simp add: iso_week_thursday)

lemma iso_week_bounds:
  assumes "iso_week day = (y, w)" shows "1 \<le> w" "w \<le> 53"
proof -
  obtain d where d: "year_yday (week_start day + 3) = (y, d)" "w = d div 7 + 1"
    using assms by (auto simp: iso_week_thursday split: prod.splits)
  from year_yday_bounds(2,3) [OF d(1)] have "0 \<le> d" "d < 366" by (auto split: if_splits)
  then show "1 \<le> w" "w \<le> 53" unfolding d(2) by simp_all
qed

subsection \<open>What is formatted is parsed back\<close>

lemma clock_bounds: "0 \<le> hour_of t" "hour_of t < 24"
  "0 \<le> t mod hour_ns div (60 * second_ns)" "t mod hour_ns div (60 * second_ns) < 60"
  "0 \<le> t mod (60 * second_ns) div second_ns" "t mod (60 * second_ns) div second_ns < 60"
  by (auto simp: hour_of_def day_ns_def hour_ns_def second_ns_def intro!: pos_imp_zdiv_nonneg_iff [THEN iffD2])

lemma mod_split: "0 < (a :: int) \<Longrightarrow> 0 < b \<Longrightarrow> t mod (a * b) = (t mod (a * b)) div b * b + t mod b"
  by (metis div_mult_mod_eq mod_mod_cancel dvd_triv_right)

lemma clock_sum: "day_of t * day_ns + hour_of t * hour_ns + t mod hour_ns div (60 * second_ns) * (60 * second_ns) +
    t mod (60 * second_ns) div second_ns * second_ns + t mod second_ns = t"
proof -
  have "t mod day_ns = hour_of t * hour_ns + t mod hour_ns"
    using mod_split [of 24 hour_ns t] by (simp add: hour_of_def day_ns_def hour_ns_def second_ns_def)
  moreover have "t mod hour_ns = t mod hour_ns div (60 * second_ns) * (60 * second_ns) + t mod (60 * second_ns)"
    using mod_split [of 60 "60 * second_ns" t] by (simp add: hour_ns_def second_ns_def)
  moreover have "t mod (60 * second_ns) = t mod (60 * second_ns) div second_ns * second_ns + t mod second_ns"
    using mod_split [of 60 second_ns t] by (simp add: second_ns_def)
  moreover have "day_of t * day_ns + t mod day_ns = t" by (simp add: day_of_def)
  ultimately show ?thesis by linarith
qed

lemma parse_year: "0 \<le> y \<Longrightarrow> y < 10000 \<Longrightarrow>
    parse_layout (LYear # ls) (pad_int 4 y @ s) p = parse_layout ls s (p\<lparr>p_year := y\<rparr>)"
proof -
  assume y: "0 \<le> y" "y < 10000"
  have l: "length (pad_int 4 y) = 4" using y length_zero_pad [of 4 "nat y"] by (simp add: pad_int_def)
  moreover have "list_all is_digit (pad_int 4 y)" "nat_of_digits (pad_int 4 y) = nat y"
    using y zero_pad_digits by (simp_all add: pad_int_def)
  ultimately show ?thesis using y by simp
qed

lemma parse_format_rfc3339:
  assumes "0 \<le> year_of t" "year_of t \<le> 9999" "t mod second_ns = 0"
  shows "time_parse layout_rfc3339 (format_rfc3339 t) = Some (t, Some 0)"
    and "time_parse layout_rfc3339_nano (format_rfc3339 t) = Some (t, Some 0)"
proof -
  obtain y m d where c: "civil (day_of t) = (y, m, d)" by (metis prod_cases3)
  note cd = civil_day [OF c]
  have y: "0 \<le> y" "y < 10000" using assms civil_year [OF c] by simp_all
  have m: "0 \<le> m" "m < 100" "0 \<le> d" "d < 100" using cd(2-5) month_length_le [OF cd(2,3), of y] by simp_all
  have g: "getnum True (pad_int 2 i @ s) = Some (i, s)" "getnum False (pad_int 2 i @ s) = Some (i, s)"
    if "0 \<le> i" "i < 60" for i s
    using that by (simp_all add: getnum_two_digits)
  have f: "\<not> fraction_next [LZone]" "fraction_next [LFraction, LZone]" "take_fraction ''Z'' = (0, ''Z'')" "parse_zone ''Z'' = Some (0, [])"
    by (simp_all add: fraction_next_def take_fraction_def parse_zone_def)
  show "time_parse layout_rfc3339 (format_rfc3339 t) = Some (t, Some 0)"
    "time_parse layout_rfc3339_nano (format_rfc3339 t) = Some (t, Some 0)"
    using cd clock_bounds [of t] clock_sum [of t] assms(3)
    by (simp_all add: time_parse_def layout_rfc3339_def layout_rfc3339_nano_def layout_seconds_def layout_clock_def layout_date_def
        format_rfc3339_def format_minute_def format_date_def c parse_year y getnum_two_digits m g f ranged_def
        del: parse_layout.simps(3))
qed

end
