(* ===== verification/AdminAuth.thy ===== *)
theory AdminAuth
  imports Auth Usage Files
begin

text \<open>
  \<^verbatim>\<open>admin_auth.go\<close> and the login and logout handlers of \<^verbatim>\<open>admin.go\<close>: the signed session cookie of the
  dashboard and the gate in front of its pages. \<open>sha\<close> and \<open>hmac\<close> are the digest functions; times are
  seconds since 1970. What \<^verbatim>\<open>net/http\<close> does with cookies, redirects and plain errors is written out
  for the values the program uses.
\<close>

subsection \<open>What the handlers use of \<^verbatim>\<open>net/http\<close>\<close>

text \<open>
  The request of a dashboard page: its method and its parsed form, \<open>None\<close> when \<^verbatim>\<open>ParseForm\<close> fails.
\<close>

record admin_request = http_request +
  req_method :: string
  req_form :: "string gomap option"

definition header_add :: "string \<Rightarrow> string \<Rightarrow> header \<Rightarrow> header" where
  "header_add k v h = mset_key (canonical_key k) (header_values h k @ [v]) h"

definition trim_string :: "string \<Rightarrow> string" where
  "trim_string s = rev (dropWhile json_ws (rev (dropWhile json_ws s)))"

definition cookie_byte :: "char \<Rightarrow> bool" where
  "cookie_byte c = (0x20 \<le> byte_of c \<and> byte_of c < 0x7F \<and> c \<noteq> CHR 0x22 \<and> c \<noteq> CHR '';'' \<and> c \<noteq> CHR 0x5C)"

definition parse_cookie_value :: "string \<Rightarrow> string option" where
  "parse_cookie_value raw =
    (let v = (if 1 < length raw \<and> hd raw = CHR 0x22 \<and> last raw = CHR 0x22 then butlast (tl raw) else raw) in
     if list_all cookie_byte v then Some v else None)"

text \<open>The name and value of one part of a \<^verbatim>\<open>Cookie\<close> line, \<open>None\<close> when it is skipped.\<close>

definition cookie_part :: "string \<Rightarrow> (string \<times> string) option" where
  "cookie_part part0 =
    (let part = trim_string part0 in
     if part = [] then None
     else (case cut (CHR ''='') part of
             (name0, val, _) \<Rightarrow>
               let name = trim_string name0 in
               if name = [] \<or> \<not> list_all header_byte name then None
               else map_option (Pair name) (parse_cookie_value val)))"

definition request_cookies :: "header \<Rightarrow> (string \<times> string) list" where
  "request_cookies h =
    concat (map (\<lambda>line. List.map_filter cookie_part (split_on (CHR '';'') (trim_string line)))
      (header_values h ''Cookie''))"

definition request_cookie :: "header \<Rightarrow> string \<Rightarrow> string option" where
  "request_cookie h name = map_option snd (find (\<lambda>c. fst c = name) (request_cookies h))"

text \<open>\<^verbatim>\<open>http.Redirect\<close> to a clean absolute path with status 302, and \<^verbatim>\<open>http.Error\<close>.\<close>

definition redirect_found :: "string \<Rightarrow> string \<Rightarrow> 'a rw_scheme \<Rightarrow> 'a rw_scheme" where
  "redirect_found meth url w0 =
    (let had = header_values (rw_header w0) ''Content-Type'' \<noteq> [];
         w = set_header ''Location'' url w0;
         w = (if \<not> had \<and> meth \<in> {''GET'', ''HEAD''} then set_header ''Content-Type'' ''text/html; charset=utf-8'' w else w);
         w = write_header 302 w in
     if \<not> had \<and> meth = ''GET''
     then write_ignoring (''<a href='' @ [CHR 0x22] @ url @ [CHR 0x22] @ ''>Found</a>.'' @ [CHR 0x0A, CHR 0x0A]) w
     else w)"

definition http_error :: "string \<Rightarrow> int \<Rightarrow> 'a rw_scheme \<Rightarrow> 'a rw_scheme" where
  "http_error msg code w =
    write_ignoring (msg @ [CHR 0x0A])
      (write_header code
        (set_header ''X-Content-Type-Options'' ''nosniff''
          (set_header ''Content-Type'' ''text/plain; charset=utf-8''
            (w\<lparr>rw_header := header_del ''Content-Length'' (rw_header w)\<rparr>))))"

text \<open>\<^verbatim>\<open>strconv.ParseInt(s, 10, 64)\<close> and \<^verbatim>\<open>hex.DecodeString\<close>.\<close>

definition parse_int :: "string \<Rightarrow> int option" where
  "parse_int s =
    (let neg = (s \<noteq> [] \<and> hd s = CHR ''-'');
         ds = (if s \<noteq> [] \<and> hd s \<in> {CHR ''+'', CHR ''-''} then tl s else s);
         v = (if neg then - int (nat_of_digits ds) else int (nat_of_digits ds)) in
     if ds \<noteq> [] \<and> list_all is_digit ds \<and> - (2 ^ 63) \<le> v \<and> v < 2 ^ 63 then Some v else None)"

fun hex_decode :: "string \<Rightarrow> bytes option" where
  "hex_decode [] = Some []"
| "hex_decode (a # b # s) =
    do { x \<leftarrow> hex_val a; y \<leftarrow> hex_val b; r \<leftarrow> hex_decode s; Some (char_of (x * 16 + y) # r) }"
| "hex_decode [a] = None"

subsection \<open>The cookie\<close>

definition admin_cookie_name :: string where
  "admin_cookie_name = ''nanollm_admin''"

definition admin_cookie_ttl :: int where
  "admin_cookie_ttl = 12 * 3600"

definition admin_cookie_key :: "(bytes \<Rightarrow> bytes) \<Rightarrow> string \<Rightarrow> string \<Rightarrow> bytes" where
  "admin_cookie_key sha username password =
    sha (''nanollm-admin'' @ [CHR 0x0A] @ username @ [CHR 0x0A] @ password)"

definition const_eq_sha256 :: "(bytes \<Rightarrow> bytes) \<Rightarrow> string \<Rightarrow> string \<Rightarrow> bool" where
  "const_eq_sha256 sha a b = (sha a = sha b)"

definition sign_admin_cookie :: "(bytes \<Rightarrow> bytes \<Rightarrow> bytes) \<Rightarrow> bytes \<Rightarrow> string \<Rightarrow> int \<Rightarrow> string" where
  "sign_admin_cookie hmac key username expiry =
    (let exp_str = int_text expiry in
     exp_str @ ''|'' @ hex_bytes (hmac key (username @ ''|'' @ exp_str)))"

definition verify_admin_cookie :: "(bytes \<Rightarrow> bytes \<Rightarrow> bytes) \<Rightarrow> bytes \<Rightarrow> string \<Rightarrow> string \<Rightarrow> int \<Rightarrow> bool" where
  "verify_admin_cookie hmac key username value now =
    (case cut (CHR ''|'') value of
       (exp_str, mac_hex, ok) \<Rightarrow>
         if \<not> ok \<or> exp_str = [] \<or> mac_hex = [] then False
         else
           (case parse_int exp_str of
              None \<Rightarrow> False
            | Some expiry \<Rightarrow>
                if expiry \<le> now then False
                else
                  (case hex_decode mac_hex of
                     None \<Rightarrow> False
                   | Some got \<Rightarrow> got = hmac key (username @ ''|'' @ exp_str))))"

definition cookie_secure :: "admin_request \<Rightarrow> bool" where
  "cookie_secure r =
    (if req_tls r then True else equal_fold (header_get (req_header r) ''X-Forwarded-Proto'') ''https'')"

text \<open>\<^verbatim>\<open>http.SetCookie\<close> for the program's two cookies; a negative max age deletes.\<close>

definition cookie_text :: "string \<Rightarrow> int \<Rightarrow> bool \<Rightarrow> string" where
  "cookie_text value max_age secure =
    admin_cookie_name @ ''='' @ value @ ''; Path=/; Max-Age='' @ (if 0 < max_age then int_text max_age else ''0'') @
    ''; HttpOnly'' @ (if secure then ''; Secure'' else []) @ ''; SameSite=Lax''"

definition set_cookie :: "string \<Rightarrow> 'a rw_scheme \<Rightarrow> 'a rw_scheme" where
  "set_cookie text w = w\<lparr>rw_header := header_add ''Set-Cookie'' text (rw_header w)\<rparr>"

subsection \<open>The server's session\<close>

text \<open>The configuration and the cookie key of a server; \<open>None\<close> for a nil configuration.\<close>

record admin_server =
  srv_config :: "config option"
  srv_admin_key :: bytes

definition new_server :: "(bytes \<Rightarrow> bytes) \<Rightarrow> config option \<Rightarrow> admin_server" where
  "new_server sha c =
    \<lparr>srv_config = c, srv_admin_key = (case c of None \<Rightarrow> []
       | Some c \<Rightarrow> admin_cookie_key sha (Username (Admin c)) (Password (Admin c)))\<rparr>"

abbreviation admin_user :: "admin_server \<Rightarrow> string" where
  "admin_user s \<equiv> (case srv_config s of None \<Rightarrow> [] | Some c \<Rightarrow> Username (Admin c))"

definition set_admin_cookie ::
  "(bytes \<Rightarrow> bytes \<Rightarrow> bytes) \<Rightarrow> admin_server \<Rightarrow> int \<Rightarrow> admin_request \<Rightarrow> 'a rw_scheme \<Rightarrow> 'a rw_scheme" where
  "set_admin_cookie hmac s now r w =
    set_cookie (cookie_text (sign_admin_cookie hmac (srv_admin_key s) (admin_user s) (now + admin_cookie_ttl))
      admin_cookie_ttl (cookie_secure r)) w"

definition clear_admin_cookie :: "admin_request \<Rightarrow> 'a rw_scheme \<Rightarrow> 'a rw_scheme" where
  "clear_admin_cookie r w = set_cookie (cookie_text [] (- 1) (cookie_secure r)) w"

definition admin_cookie_valid ::
  "(bytes \<Rightarrow> bytes \<Rightarrow> bytes) \<Rightarrow> admin_server \<Rightarrow> int \<Rightarrow> admin_request \<Rightarrow> bool" where
  "admin_cookie_valid hmac s now r =
    (case request_cookie (req_header r) admin_cookie_name of
       None \<Rightarrow> False
     | Some v \<Rightarrow>
         if v = [] \<or> srv_config s = None then False
         else verify_admin_cookie hmac (srv_admin_key s) (admin_user s) v now)"

definition require_admin ::
  "(bytes \<Rightarrow> bytes \<Rightarrow> bytes) \<Rightarrow> admin_server \<Rightarrow> int \<Rightarrow> (admin_request \<Rightarrow> 'a rw_scheme \<Rightarrow> 'a rw_scheme) \<Rightarrow>
    admin_request \<Rightarrow> 'a rw_scheme \<Rightarrow> 'a rw_scheme" where
  "require_admin hmac s now next_handler r w =
    (if \<not> admin_cookie_valid hmac s now r then redirect_found (req_method r) ''/login'' w
     else next_handler r w)"

definition check_admin_login :: "(bytes \<Rightarrow> bytes) \<Rightarrow> admin_server \<Rightarrow> string \<Rightarrow> string \<Rightarrow> bool" where
  "check_admin_login sha s user pass =
    (case srv_config s of
       None \<Rightarrow> False
     | Some c \<Rightarrow>
         const_eq_sha256 sha user (Username (Admin c)) \<and> const_eq_sha256 sha pass (Password (Admin c)))"

text \<open>
  \<^verbatim>\<open>renderAdmin\<close>: the template's output is the parameter \<open>page\<close> (a template that fails has written
  what it did before failing).
\<close>

definition render_admin :: "bytes \<Rightarrow> 'a rw_scheme \<Rightarrow> 'a rw_scheme" where
  "render_admin page w =
    (let w = set_header ''Content-Type'' ''text/html; charset=utf-8'' w in
     if page = [] then w else write_ignoring page w)"

definition handle_admin_login ::
  "(bytes \<Rightarrow> bytes) \<Rightarrow> (bytes \<Rightarrow> bytes \<Rightarrow> bytes) \<Rightarrow> (string \<Rightarrow> bytes) \<Rightarrow> admin_server \<Rightarrow> int \<Rightarrow>
    admin_request \<Rightarrow> 'a rw_scheme \<Rightarrow> 'a rw_scheme" where
  "handle_admin_login sha hmac login_page s now r w =
    (if req_method r = ''GET'' then
       (if admin_cookie_valid hmac s now r then redirect_found (req_method r) ''/usage'' w
        else render_admin (login_page []) w)
     else if req_method r = ''POST'' then
       (case req_form r of
          None \<Rightarrow> http_error ''bad form'' 400 w
        | Some form \<Rightarrow>
            if \<not> check_admin_login sha s (mget form ''username'') (mget form ''password'') then
              render_admin (login_page ''invalid username or password'')
                (write_header 401 (set_header ''Content-Type'' ''text/html; charset=utf-8'' w))
            else redirect_found (req_method r) ''/usage'' (set_admin_cookie hmac s now r w))
     else http_error ''method not allowed'' 405 w)"

definition handle_admin_logout :: "admin_request \<Rightarrow> 'a rw_scheme \<Rightarrow> 'a rw_scheme" where
  "handle_admin_logout r w = redirect_found (req_method r) ''/login'' (clear_admin_cookie r w)"

subsection \<open>Round trips\<close>

lemma parse_int_of_text: "- (2 ^ 63) \<le> i \<Longrightarrow> i < 2 ^ 63 \<Longrightarrow> parse_int (int_text i) = Some i"
proof -
  assume i: "- (2 ^ 63) \<le> i" "i < 2 ^ 63"
  have d: "list_all is_digit (digits n)" "digits n \<noteq> []" for n using digits_are_digits by auto
  have hd: "is_digit (hd (digits n))" for n using d [of n] by (cases "digits n") auto
  have that_char: "\<not> is_digit CHR ''+''" "\<not> is_digit CHR ''-''" by (simp_all add: is_digit_def)
  from hd have h: "hd (digits n) \<notin> {CHR ''+'', CHR ''-''}" for n
    using that_char by (metis insertE empty_iff)
  show ?thesis
    using i d h by (auto simp: parse_int_def int_text_def Let_def nat_of_digits)
qed

lemma hex_decode_bytes: "hex_decode (hex_bytes b) = Some b"
proof (induction b)
  case (Cons c b)
  have "byte_of c div 16 < 16" using byte_of_less [of c] by (simp add: less_mult_imp_div_less)
  then have "hex_val (hex_digit (byte_of c div 16)) = Some (byte_of c div 16)"
    "hex_val (hex_digit (byte_of c mod 16)) = Some (byte_of c mod 16)" by (simp_all add: hex_val_digit)
  moreover have "char_of (byte_of c div 16 * 16 + byte_of c mod 16) = c" by simp
  ultimately show ?case using Cons by (simp add: hex_bytes_def)
qed (simp add: hex_bytes_def)

lemma hex_bytes_Nil [simp]: "hex_bytes b = [] \<longleftrightarrow> b = []"
  by (cases b) (auto simp: hex_bytes_def)

text \<open>The characters of a signed cookie.\<close>

definition token_char :: "char \<Rightarrow> bool" where
  "token_char c = (is_alnum c \<or> c \<in> {CHR ''-'', CHR ''|''})"

lemma token_char_cookie:
  "token_char c \<Longrightarrow> cookie_byte c \<and> c \<noteq> CHR '';'' \<and> \<not> json_ws c \<and> c \<noteq> CHR 0x22"
  by (auto simp: token_char_def is_alnum_def cookie_byte_def json_ws_def Let_def)

lemma digits_token: "\<forall>c \<in> set (digits n). is_alnum c \<and> c \<noteq> CHR ''|''"
  using digits_are_digits [of n] by (auto simp: list_all_iff is_digit_def is_alnum_def Let_def)

lemma int_text_token: "\<forall>c \<in> set (int_text i). token_char c \<and> c \<noteq> CHR ''|''"
  using digits_token by (auto simp: int_text_def token_char_def)

lemma hex_digit_token: "n < 16 \<Longrightarrow> is_alnum (hex_digit n)"
  by (auto simp: hex_digit_def is_alnum_def Let_def of_char_of)

lemma hex_bytes_token: "\<forall>c \<in> set (hex_bytes b). token_char c"
  using hex_digit_token byte_of_less
  by (auto simp: hex_bytes_def token_char_def less_mult_imp_div_less)

lemma sign_token: "\<forall>c \<in> set (sign_admin_cookie hmac key u e). token_char c"
  using int_text_token hex_bytes_token by (auto simp: sign_admin_cookie_def Let_def token_char_def)

lemma sign_nonempty: "sign_admin_cookie hmac key u e \<noteq> []"
  by (simp add: sign_admin_cookie_def Let_def)

lemma verify_sign:
  assumes "- (2 ^ 63) \<le> e" "e < 2 ^ 63" "hmac key (u @ ''|'' @ int_text e) \<noteq> []"
  shows "verify_admin_cookie hmac key u (sign_admin_cookie hmac key u e) now \<longleftrightarrow> now < e"
proof -
  have "CHR ''|'' \<notin> set (int_text e)" using int_text_token by blast
  then have "cut (CHR ''|'') (sign_admin_cookie hmac key u e) =
      (int_text e, hex_bytes (hmac key (u @ ''|'' @ int_text e)), True)"
    by (simp add: sign_admin_cookie_def Let_def cut_append)
  moreover have "int_text e \<noteq> []" using digits_are_digits by (auto simp: int_text_def)
  ultimately show ?thesis using assms by (simp add: verify_admin_cookie_def parse_int_of_text hex_decode_bytes)
qed

text \<open>The cookie comes back from the browser as it was sent.\<close>

lemma trim_string_id: "s \<noteq> [] \<Longrightarrow> \<not> json_ws (hd s) \<Longrightarrow> \<not> json_ws (last s) \<Longrightarrow> trim_string s = s"
proof -
  assume s: "s \<noteq> []" "\<not> json_ws (hd s)" "\<not> json_ws (last s)"
  then have "dropWhile json_ws s = s" "dropWhile json_ws (rev s) = rev s"
    by (simp_all add: dropWhile_eq_self_iff hd_rev)
  then show ?thesis by (simp add: trim_string_def)
qed

lemma request_cookie_single:
  assumes "\<forall>c \<in> set v. token_char c" "v \<noteq> []" "header_values h ''Cookie'' = [admin_cookie_name @ ''='' @ v]"
  shows "request_cookie h admin_cookie_name = Some v"
proof -
  let ?p = "admin_cookie_name @ ''='' @ v"
  have t: "trim_string ?p = ?p"
    using assms(1,2) token_char_cookie [of "last v"]
    by (intro trim_string_id) (auto simp: admin_cookie_name_def json_ws_def)
  have "CHR '';'' \<notin> set ?p" using assms(1) token_char_cookie by (auto simp: admin_cookie_name_def)
  then have s: "split_on (CHR '';'') ?p = [?p]" by (rule split_on_single)
  have c: "cut (CHR ''='') ?p = (admin_cookie_name, v, True)"
    using cut_append [of "CHR ''=''" admin_cookie_name v] by (simp add: admin_cookie_name_def)
  have n: "trim_string admin_cookie_name = admin_cookie_name" by (simp add: admin_cookie_name_def trim_string_def json_ws_def)
  have h: "list_all header_byte admin_cookie_name" by (simp add: admin_cookie_name_def header_byte_def is_alnum_def)
  have ne: "admin_cookie_name \<noteq> []" by (simp add: admin_cookie_name_def)
  have "parse_cookie_value v = Some v"
    using assms(1,2) token_char_cookie by (cases v) (auto simp: parse_cookie_value_def list_all_iff)
  then have "cookie_part ?p = Some (admin_cookie_name, v)"
    using h ne by (simp only: cookie_part_def t c n Let_def prod.case append_is_Nil_conv if_False simp_thms option.map)
  then have "request_cookies h = [(admin_cookie_name, v)]"
    by (simp only: request_cookies_def assms(3) t s map_filter_simps list.map concat.simps append_Nil2 option.case)
  then show ?thesis by (simp add: request_cookie_def)
qed

subsection \<open>What the handlers send\<close>

lemma rw_header_fields [simp]:
  "rw_header (set_header k v w) = header_set k v (rw_header w)"
  "rw_sent (set_header k v w) = rw_sent w"
  "rw_header (set_cookie t w) = header_add ''Set-Cookie'' t (rw_header w)"
  "rw_sent (set_cookie t w) = rw_sent w"
  by (simp_all add: set_header_def set_cookie_def)

lemma write_keeps_sent: "rw_sent w = Some x \<Longrightarrow> rw_sent (write_ignoring p w) = Some x"
  by (auto simp: rw_write_def Let_def write_header_def split: option.splits)

lemma rw_values_set:
  "header_values (header_set k v h) k' = (if canonical_key k' = canonical_key k then [v] else header_values h k')"
  by (simp add: header_values_def header_set_def)

lemma header_values_add:
  "header_values (header_add k v h) k' =
    (if canonical_key k' = canonical_key k then header_values h k @ [v] else header_values h k')"
  by (simp add: header_values_def header_add_def)

lemma redirect_keys:
  "canonical_key ''Location'' \<noteq> canonical_key ''Set-Cookie''"
  "canonical_key ''Content-Type'' \<noteq> canonical_key ''Set-Cookie''"
  "canonical_key ''Location'' \<noteq> canonical_key ''Content-Type''"
  by code_simp+

lemma redirect_found_sends:
  assumes "rw_sent w = None"
  obtains hdr where "rw_sent (redirect_found meth url w) = Some (302, hdr)"
    "header_get hdr ''Location'' = url" "header_values hdr ''Set-Cookie'' = header_values (rw_header w) ''Set-Cookie''"
proof -
  let ?a = "set_header ''Location'' url w"
  let ?b = "(if header_values (rw_header w) ''Content-Type'' = [] \<and> meth \<in> {''GET'', ''HEAD''}
    then set_header ''Content-Type'' ''text/html; charset=utf-8'' ?a else ?a)"
  have s: "rw_sent (write_header 302 ?b) = Some (302, rw_header ?b)"
    using assms by (simp add: write_header_def)
  then have "rw_sent (redirect_found meth url w) = Some (302, rw_header ?b)"
  proof -
    let ?p = "''<a href='' @ [CHR 0x22] @ url @ [CHR 0x22] @ ''>Found</a>.'' @ [CHR 0x0A, CHR 0x0A]"
    have "redirect_found meth url w = write_ignoring ?p (write_header 302 ?b) \<or>
        redirect_found meth url w = write_header 302 ?b"
      by (simp add: redirect_found_def Let_def)
    with s write_keeps_sent [OF s] show ?thesis by metis
  qed
  moreover have "header_get (rw_header ?b) ''Location'' = url"
    using redirect_keys by (simp add: header_get_set)
  moreover have "header_values (rw_header ?b) ''Set-Cookie'' = header_values (rw_header w) ''Set-Cookie''"
    using redirect_keys by (simp add: rw_values_set)
  ultimately show ?thesis by (rule that)
qed

text \<open>The two parts of the cookie line: what the browser sends back, and the attributes.\<close>

lemma cookie_text_parts:
  "cookie_text v m b = (admin_cookie_name @ ''='' @ v) @ '';'' @ drop (length (admin_cookie_name @ ''='' @ v) + 1) (cookie_text v m b)"
  by (simp add: cookie_text_def)

lemma session_cookie_accepted:
  assumes "\<forall>m. hmac (srv_admin_key s) m \<noteq> []" "- (2 ^ 63) \<le> e" "e < 2 ^ 63" "srv_config s \<noteq> None"
    and "header_values (req_header r) ''Cookie'' =
      [admin_cookie_name @ ''='' @ sign_admin_cookie hmac (srv_admin_key s) (admin_user s) e]"
  shows "admin_cookie_valid hmac s now r \<longleftrightarrow> now < e"
  using request_cookie_single [OF sign_token sign_nonempty assms(5)] assms(1-4) sign_nonempty
  by (auto simp: admin_cookie_valid_def verify_sign)

lemma parse_int_chars: "parse_int t = Some e \<Longrightarrow> t \<noteq> [] \<and> CHR ''|'' \<notin> set t"
  by (cases t) (auto simp: parse_int_def Let_def list_all_iff is_digit_def split: if_splits)

lemma verify_admin_cookie_iff:
  "verify_admin_cookie hmac key u v now \<longleftrightarrow>
    (\<exists>t mac e. v = t @ ''|'' @ mac \<and> mac \<noteq> [] \<and> parse_int t = Some e \<and> now < e \<and>
      hex_decode mac = Some (hmac key (u @ ''|'' @ t)))"
proof
  assume a: "verify_admin_cookie hmac key u v now"
  obtain t mac ok where c: "cut (CHR ''|'') v = (t, mac, ok)" by (cases "cut (CHR ''|'') v")
  with a have "ok" by (simp add: verify_admin_cookie_def split: if_splits)
  with c have "v = t @ ''|'' @ mac" using cut_found by fastforce
  with a c show "\<exists>t mac e. v = t @ ''|'' @ mac \<and> mac \<noteq> [] \<and> parse_int t = Some e \<and> now < e \<and>
      hex_decode mac = Some (hmac key (u @ ''|'' @ t))"
    by (fastforce simp: verify_admin_cookie_def split: if_splits option.splits)
next
  assume "\<exists>t mac e. v = t @ ''|'' @ mac \<and> mac \<noteq> [] \<and> parse_int t = Some e \<and> now < e \<and>
      hex_decode mac = Some (hmac key (u @ ''|'' @ t))"
  then obtain t mac e where v: "v = t @ ''|'' @ mac" and m: "mac \<noteq> []" "parse_int t = Some e" "now < e"
    "hex_decode mac = Some (hmac key (u @ ''|'' @ t))" by blast
  have "cut (CHR ''|'') v = (t, mac, True)" using parse_int_chars [OF m(2)] by (simp add: v cut_append)
  with m parse_int_chars [OF m(2)] show "verify_admin_cookie hmac key u v now"
    by (simp add: verify_admin_cookie_def)
qed

subsection \<open>Properties\<close>

text \<open>\<open>sha\<close> does not confuse a presented value with the configured one.\<close>

definition same_digest :: "(bytes \<Rightarrow> bytes) \<Rightarrow> string \<Rightarrow> string \<Rightarrow> bool" where
  "same_digest sha a b \<longleftrightarrow> sha a = sha b \<and> a \<noteq> b"

text \<open>
  C13: signing in. When a login form is posted and SHA-256 confuses neither field with the configured
  credential, the right credentials are answered with 302 to \<^verbatim>\<open>/usage\<close> and exactly one cookie; a browser
  that sends the name and value of that cookie back, and nothing else, gets through the gate of every page
  for twelve hours to the second and is sent to \<^verbatim>\<open>/login\<close> after that. Any other credentials are answered
  401 with no cookie.
\<close>

theorem login_opens_session:
  fixes w :: "'a rw_scheme"
  assumes "s = new_server sha (Some c)" "req_method r = ''POST''" "req_form r = Some form"
    and "\<not> same_digest sha (mget form ''username'') (Username (Admin c))"
      "\<not> same_digest sha (mget form ''password'') (Password (Admin c))"
    and "\<forall>key m. hmac key m \<noteq> []" "- (2 ^ 63) \<le> now + 12 * 3600" "now + 12 * 3600 < 2 ^ 63"
    and "rw_sent w = None" "header_values (rw_header w) ''Set-Cookie'' = []"
  shows "if mget form ''username'' = Username (Admin c) \<and> mget form ''password'' = Password (Admin c)
    then \<exists>hdr pair attrs.
      rw_sent (handle_admin_login sha hmac page s now r w) = Some (302, hdr) \<and>
      header_get hdr ''Location'' = ''/usage'' \<and>
      header_values hdr ''Set-Cookie'' = [pair @ '';'' @ attrs] \<and> CHR '';'' \<notin> set pair \<and>
      (\<forall>h now2 r2 w2. header_values (req_header r2) ''Cookie'' = [pair] \<longrightarrow>
        require_admin hmac s now2 h r2 (w2 :: 'b rw_scheme) =
          (if now2 < now + 12 * 3600 then h r2 w2 else redirect_found (req_method r2) ''/login'' w2))
    else \<exists>hdr. rw_sent (handle_admin_login sha hmac page s now r w) = Some (401, hdr) \<and>
      header_values hdr ''Set-Cookie'' = []"
proof -
  have srv: "srv_config s = Some c" by (simp add: assms(1) new_server_def)
  have creds: "check_admin_login sha s (mget form ''username'') (mget form ''password'') \<longleftrightarrow>
      mget form ''username'' = Username (Admin c) \<and> mget form ''password'' = Password (Admin c)"
    using assms(4,5) by (auto simp: check_admin_login_def srv const_eq_sha256_def same_digest_def)
  show ?thesis
  proof (cases "mget form ''username'' = Username (Admin c) \<and> mget form ''password'' = Password (Admin c)")
    case True
    let ?v = "sign_admin_cookie hmac (srv_admin_key s) (admin_user s) (now + admin_cookie_ttl)"
    let ?p = "admin_cookie_name @ ''='' @ ?v"
    let ?w = "set_admin_cookie hmac s now r w"
    have ans: "handle_admin_login sha hmac page s now r w = redirect_found ''POST'' ''/usage'' ?w"
      using True creds assms(2,3) by (simp add: handle_admin_login_def)
    obtain hdr where hdr: "rw_sent (redirect_found ''POST'' ''/usage'' ?w) = Some (302, hdr)"
      "header_get hdr ''Location'' = ''/usage''"
      "header_values hdr ''Set-Cookie'' = header_values (rw_header ?w) ''Set-Cookie''"
      using redirect_found_sends [of ?w] assms(9) by (metis rw_header_fields(4) set_admin_cookie_def)
    obtain attrs where t: "cookie_text ?v admin_cookie_ttl (cookie_secure r) = ?p @ '';'' @ attrs"
      using cookie_text_parts by blast
    have c: "header_values hdr ''Set-Cookie'' = [?p @ '';'' @ attrs]"
      using hdr(3) assms(10) t [symmetric] by (simp add: set_admin_cookie_def header_values_add)
    have n: "CHR '';'' \<notin> set ?p"
      using sign_token [of hmac "srv_admin_key s" "admin_user s"] token_char_cookie
      by (auto simp: admin_cookie_name_def)
    have g: "require_admin hmac s now2 h r2 (w2 :: 'b rw_scheme) =
        (if now2 < now + 12 * 3600 then h r2 w2 else redirect_found (req_method r2) ''/login'' w2)"
      if "header_values (req_header r2) ''Cookie'' = [?p]" for h now2 r2 w2
      using session_cookie_accepted [of hmac s "now + admin_cookie_ttl" r2 now2] that assms(6-8) srv
      by (simp add: require_admin_def admin_cookie_ttl_def)
    show ?thesis
      unfolding if_P [OF True] ans
      by (intro exI [of _ hdr] exI [of _ ?p] exI [of _ attrs] conjI allI impI)
        (rule hdr(1), rule hdr(2), rule c, rule n, erule g)
  next
    case False
    let ?w = "write_header 401 (set_header ''Content-Type'' ''text/html; charset=utf-8'' w)"
    have "handle_admin_login sha hmac page s now r w = render_admin (page ''invalid username or password'') ?w"
      using False creds assms(2,3) by (auto simp: handle_admin_login_def)
    moreover have "rw_sent ?w = Some (401, rw_header (set_header ''Content-Type'' ''text/html; charset=utf-8'' w))"
      using assms(9) by (simp add: write_header_def)
    then have "rw_sent (render_admin p ?w) = Some (401, rw_header (set_header ''Content-Type'' ''text/html; charset=utf-8'' w))" for p
      by (simp add: render_admin_def Let_def write_keeps_sent)
    moreover have "header_values (rw_header (set_header ''Content-Type'' ''text/html; charset=utf-8'' w)) ''Set-Cookie'' = []"
      using assms(10) redirect_keys by (simp add: rw_values_set)
    ultimately show ?thesis using False by auto
  qed
qed

text \<open>
  C14: the gate in front of the dashboard. Whatever the handler behind it, it runs exactly when the
  request's \<^verbatim>\<open>nanollm_admin\<close> cookie is \<open>expiry|mac\<close> with an expiry in the future and the MAC of
  \<open>username|expiry\<close> under the server's key; every other request is answered 302 to \<^verbatim>\<open>/login\<close>, sets no
  cookie, and the handler has no part in the answer. A server without a configuration lets nobody in.
\<close>

theorem require_admin_gate:
  fixes w :: "'a rw_scheme"
  assumes "rw_sent w = None" "header_values (rw_header w) ''Set-Cookie'' = []"
  shows "if (\<exists>c t mac e. srv_config s = Some c \<and>
      request_cookie (req_header r) ''nanollm_admin'' = Some (t @ ''|'' @ mac) \<and> mac \<noteq> [] \<and>
      parse_int t = Some e \<and> now < e \<and>
      hex_decode mac = Some (hmac (srv_admin_key s) (Username (Admin c) @ ''|'' @ t)))
    then require_admin hmac s now h r w = h r w
    else \<exists>hdr. rw_sent (require_admin hmac s now h r w) = Some (302, hdr) \<and>
      header_get hdr ''Location'' = ''/login'' \<and> header_values hdr ''Set-Cookie'' = [] \<and>
      (\<forall>h'. require_admin hmac s now h' r w = require_admin hmac s now h r w)"
proof -
  have parts: "verify_admin_cookie hmac key u v now \<longleftrightarrow>
      (\<exists>t mac e. v = t @ ''|'' @ mac \<and> mac \<noteq> [] \<and> parse_int t = Some e \<and> now < e \<and>
        hex_decode mac = Some (hmac key (u @ ''|'' @ t)))" for key u v
    by (rule verify_admin_cookie_iff)
  have "admin_cookie_valid hmac s now r \<longleftrightarrow>
      (\<exists>c t mac e. srv_config s = Some c \<and>
        request_cookie (req_header r) ''nanollm_admin'' = Some (t @ ''|'' @ mac) \<and> mac \<noteq> [] \<and>
        parse_int t = Some e \<and> now < e \<and>
        hex_decode mac = Some (hmac (srv_admin_key s) (Username (Admin c) @ ''|'' @ t)))"
    by (auto simp: admin_cookie_valid_def admin_cookie_name_def parts split: option.splits)
  then show ?thesis
    using redirect_found_sends [OF assms(1), of "req_method r" "''/login''"] assms(2)
    by (simp only: require_admin_def if_True if_False simp_thms split: if_splits) metis
qed

definition sample_admin_request :: "string \<Rightarrow> header \<Rightarrow> admin_request" where
  "sample_admin_request meth h =
    \<lparr>req_path = ''/login'', req_header = h, req_body = [], req_read_fails = False, req_tls = False,
     req_key_name = None, req_method = meth,
     req_form = Some [(''username'', ''u''), (''password'', ''w'')]\<rparr>"

definition sample_server :: admin_server where
  "sample_server = new_server (\<lambda>x. x) (Some sample_config)"

theorem login_opens_session_witness:
  "\<exists>hdr pair attrs.
    rw_sent (handle_admin_login (\<lambda>x. x) (\<lambda>k m. ''mac'') (\<lambda>_. []) sample_server 1000
      (sample_admin_request ''POST'' []) fresh_rw) = Some (302, hdr) \<and>
    header_values hdr ''Set-Cookie'' = [pair @ '';'' @ attrs] \<and>
    require_admin (\<lambda>k m. ''mac'') sample_server 44199 (\<lambda>r w. w\<lparr>rw_body := ''x''\<rparr>)
      (sample_admin_request ''GET'' [(''Cookie'', [pair])]) fresh_rw = fresh_rw\<lparr>rw_body := ''x''\<rparr> \<and>
    rw_body (require_admin (\<lambda>k m. ''mac'') sample_server 44200 (\<lambda>r w. w\<lparr>rw_body := ''x''\<rparr>)
      (sample_admin_request ''GET'' [(''Cookie'', [pair])]) fresh_rw) \<noteq> ''x''"
proof -
  have c: "Username (Admin sample_config) = ''u''" "Password (Admin sample_config) = ''w''"
    by (simp_all add: sample_config_def)
  have f: "mget [(''username'', ''u''), (''password'', ''w'')] ''username'' = ''u''"
    "mget [(''username'', ''u''), (''password'', ''w'')] ''password'' = ''w''" by code_simp+
  obtain hdr pair attrs where h: "rw_sent (handle_admin_login (\<lambda>x. x) (\<lambda>k m. ''mac'') (\<lambda>_. []) sample_server 1000
      (sample_admin_request ''POST'' []) fresh_rw) = Some (302, hdr)"
    "header_values hdr ''Set-Cookie'' = [pair @ '';'' @ attrs]" and
    g: "\<forall>h now2 r2 w2. header_values (req_header r2) ''Cookie'' = [pair] \<longrightarrow>
        require_admin (\<lambda>k m. ''mac'') sample_server now2 h r2 (w2 :: rw) =
          (if now2 < 1000 + 12 * 3600 then h r2 w2 else redirect_found (req_method r2) ''/login'' w2)"
    using login_opens_session [where 'b = unit, OF sample_server_def, of "sample_admin_request ''POST'' []"
        "[(''username'', ''u''), (''password'', ''w'')]" "\<lambda>k m. ''mac''" 1000 fresh_rw "\<lambda>_. []"]
    by (auto simp: c f sample_admin_request_def same_digest_def fresh_rw_def header_values_def)
  have "header_values (req_header (sample_admin_request ''GET'' [(''Cookie'', [pair])])) ''Cookie'' = [pair]"
    by (simp add: sample_admin_request_def header_values_def canonical_key_def header_byte_def is_alnum_def
        upper_char_def lower_char_def)
  with g have r: "require_admin (\<lambda>k m. ''mac'') sample_server now2 h (sample_admin_request ''GET'' [(''Cookie'', [pair])]) fresh_rw =
      (if now2 < 1000 + 12 * 3600 then h (sample_admin_request ''GET'' [(''Cookie'', [pair])]) fresh_rw
       else redirect_found ''GET'' ''/login'' fresh_rw)" for now2 h
    by (simp add: sample_admin_request_def)
  have b: "rw_body (redirect_found ''GET'' ''/login'' fresh_rw) \<noteq> ''x''" by code_simp
  show ?thesis
    by (intro exI conjI, rule h(1), rule h(2)) (simp_all only: r, simp_all add: b)
qed

theorem require_admin_gate_witness:
  "require_admin (\<lambda>k m. m) sample_server 41 (\<lambda>r w. w\<lparr>rw_body := ''x''\<rparr>)
    (sample_admin_request ''GET'' [(''Cookie'', [''nanollm_admin=42|757c3432''])]) fresh_rw =
    fresh_rw\<lparr>rw_body := ''x''\<rparr>"
proof -
  have c: "request_cookie [(''Cookie'', [''nanollm_admin=42|757c3432''])] ''nanollm_admin'' = Some (''42'' @ ''|'' @ ''757c3432'')"
    "parse_int ''42'' = Some 42" "hex_decode ''757c3432'' = Some (''u'' @ ''|'' @ ''42'')" by code_simp+
  have "Username (Admin sample_config) = ''u''" "srv_config sample_server = Some sample_config"
    by (simp_all add: sample_config_def sample_server_def new_server_def)
  then have e: "\<exists>c t mac e. srv_config sample_server = Some c \<and>
      request_cookie (req_header (sample_admin_request ''GET'' [(''Cookie'', [''nanollm_admin=42|757c3432''])])) ''nanollm_admin'' =
        Some (t @ ''|'' @ mac) \<and> mac \<noteq> [] \<and> parse_int t = Some e \<and> 41 < e \<and>
      hex_decode mac = Some ((\<lambda>k m. m) (srv_admin_key sample_server) (Username (Admin c) @ ''|'' @ t))"
    using c by (intro exI [of _ sample_config] exI [of _ "''42''"] exI [of _ "''757c3432''"] exI [of _ 42])
      (simp add: sample_admin_request_def)
  have "rw_sent fresh_rw = None" "header_values (rw_header fresh_rw) ''Set-Cookie'' = []"
    by (simp_all add: fresh_rw_def header_values_def)
  from require_admin_gate [OF this, of sample_server
      "sample_admin_request ''GET'' [(''Cookie'', [''nanollm_admin=42|757c3432''])]" 41 "\<lambda>k m. m"
      "\<lambda>r w. w\<lparr>rw_body := ''x''\<rparr>"]
  show ?thesis unfolding if_P [OF e] .
qed

end
