(* ===== verification/AdminFilter.thy ===== *)
theory AdminFilter
  imports Clock AdminAuth
begin

text \<open>
  \<^verbatim>\<open>admin_filter.go\<close>: the filter of the dashboard pages, read from the query of a request, and the
  links that carry it on. A query is the map \<^verbatim>\<open>url.Values\<close>. \<open>tzdb\<close> stands for the system's time zone
  database: the locations \<^verbatim>\<open>time.LoadLocation\<close> finds there, each with the instant of a local date and
  clock (\<^verbatim>\<open>time.Date\<close> in it) and the local date and clock of an instant.
\<close>

subsection \<open>Queries\<close>

type_synonym query = "string list gomap"

definition query_get :: "query \<Rightarrow> string \<Rightarrow> string" where
  "query_get q k = (case map_of q k of Some (v # _) \<Rightarrow> v | _ \<Rightarrow> [])"

definition query_set :: "string \<Rightarrow> string \<Rightarrow> query \<Rightarrow> query" where
  "query_set k v q = mset_key k [v] q"

text \<open>\<^verbatim>\<open>url.QueryEscape\<close> and \<^verbatim>\<open>url.QueryUnescape\<close>.\<close>

definition unreserved :: "char \<Rightarrow> bool" where
  "unreserved c = (is_alnum c \<or> c \<in> {CHR ''-'', CHR ''_'', CHR ''.'', CHR ''~''})"

definition upper_hex :: "nat \<Rightarrow> char" where
  "upper_hex n = upper_char (hex_digit n)"

definition escape_byte :: "char \<Rightarrow> string" where
  "escape_byte c =
    (if unreserved c then [c] else if c = CHR '' '' then ''+''
     else [CHR 0x25, upper_hex (byte_of c div 16), upper_hex (byte_of c mod 16)])"

definition query_escape :: "string \<Rightarrow> string" where
  "query_escape s = concat (map escape_byte s)"

fun query_unescape :: "string \<Rightarrow> string option" where
  "query_unescape [] = Some []"
| "query_unescape (c # s) =
    (if c = CHR 0x25 then
       (case s of
          a # b # s' \<Rightarrow> do { x \<leftarrow> hex_val a; y \<leftarrow> hex_val b; r \<leftarrow> query_unescape s'; Some (char_of (x * 16 + y) # r) }
        | _ \<Rightarrow> None)
     else map_option ((#) (if c = CHR ''+'' then CHR '' '' else c)) (query_unescape s))"

text \<open>\<^verbatim>\<open>Values.Encode\<close>: in the order of the keys.\<close>

definition encode_query :: "query \<Rightarrow> string" where
  "encode_query q =
    join ''&'' (concat (map (\<lambda>(k, vs). map (\<lambda>v. query_escape k @ ''='' @ query_escape v) vs) (sort_key fst q)))"

text \<open>\<^verbatim>\<open>URL.Query\<close>: pairs it cannot read are left out.\<close>

definition query_pair :: "string \<Rightarrow> (string \<times> string) option" where
  "query_pair p =
    (if p = [] \<or> CHR '';'' \<in> set p then None
     else
       (case cut (CHR ''='') p of
          (k, v, _) \<Rightarrow> do { k \<leftarrow> query_unescape k; v \<leftarrow> query_unescape v; Some (k, v) }))"

definition add_value :: "query \<Rightarrow> string \<times> string \<Rightarrow> query" where
  "add_value q kv = mset_key (fst kv) (the_or [] (map_of q (fst kv)) @ [snd kv]) q"

definition parse_query :: "string \<Rightarrow> query" where
  "parse_query s = foldl add_value [] (List.map_filter query_pair (split_on (CHR ''&'') s))"

subsection \<open>Time zones\<close>

record zone =
  zone_name :: string
  zone_date :: "int \<Rightarrow> int"
  zone_local :: "int \<Rightarrow> int"

type_synonym tzdb = "string \<Rightarrow> ((int \<Rightarrow> int) \<times> (int \<Rightarrow> int)) option"

definition utc :: zone where
  "utc = \<lparr>zone_name = ''UTC'', zone_date = (\<lambda>t. t), zone_local = (\<lambda>t. t)\<rparr>"

definition load_location :: "tzdb \<Rightarrow> string \<Rightarrow> zone option" where
  "load_location tzdb name =
    (if name = [] \<or> name = ''UTC'' then Some utc
     else map_option (\<lambda>(date, loc). \<lparr>zone_name = name, zone_date = date, zone_local = loc\<rparr>) (tzdb name))"

subsection \<open>The filter\<close>

definition max_admin_usage_range :: int where
  "max_admin_usage_range = 366 * 24 * hour_ns"

record admin_window =
  w_range :: string
  w_bucket :: string
  w_from :: int
  w_to :: int

record admin_filter =
  f_range :: string
  f_bucket :: string
  f_from :: int
  f_to :: int
  f_bounded :: bool
  f_tz :: string
  f_model :: string
  f_provider :: string
  f_api_key :: string
  f_outcome :: string

definition parse_outcome :: "string \<Rightarrow> string" where
  "parse_outcome s = (if trim_space s \<in> {''ok'', ''error'', ''canceled'', ''no_response''} then s else [])"

definition tz_loc :: "tzdb \<Rightarrow> admin_filter \<Rightarrow> zone" where
  "tz_loc tzdb f = (if f_tz f \<noteq> [] then the_or utc (load_location tzdb (f_tz f)) else utc)"

definition derive_admin_bucket :: "int \<Rightarrow> int \<Rightarrow> string" where
  "derive_admin_bucket from to =
    (let span = time_sub to from in
     if span \<le> 48 * hour_ns then ''hour'' else if span \<le> 62 * 24 * hour_ns then ''day'' else ''week'')"

definition preset_window :: "string \<Rightarrow> int \<Rightarrow> int \<times> int" where
  "preset_window rng now =
    (let dur = (if rng = ''24h'' then 24 * hour_ns else if rng = ''30d'' then 30 * 24 * hour_ns
       else if rng = ''90d'' then 90 * 24 * hour_ns else 7 * 24 * hour_ns) in
     (now - dur, now))"

text \<open>The result of the first layout that reads \<open>s\<close>.\<close>

fun first_layout :: "zone \<Rightarrow> layout_element list list \<Rightarrow> string \<Rightarrow> int option" where
  "first_layout z [] s = None"
| "first_layout z (l # ls) s =
    (case time_parse l s of Some (t, _) \<Rightarrow> Some (zone_date z t) | None \<Rightarrow> first_layout z ls s)"

definition at_offset :: "int \<times> int option \<Rightarrow> int" where
  "at_offset r = fst r - the_or 0 (snd r) * second_ns"

definition parse_admin_time :: "string \<Rightarrow> zone \<Rightarrow> int option" where
  "parse_admin_time s0 z =
    (let s = trim_space s0 in
     if s = [] then None
     else
       (case time_parse layout_rfc3339_nano s of
          Some r \<Rightarrow> Some (at_offset r)
        | None \<Rightarrow>
            (case time_parse layout_rfc3339 s of
               Some r \<Rightarrow> Some (at_offset r)
             | None \<Rightarrow>
                 first_layout z [layout_seconds CHR ''T'', layout_clock CHR ''T'', layout_seconds CHR '' '', layout_date] s)))"

definition filter_range :: "string \<Rightarrow> string \<Rightarrow> string" where
  "filter_range kind rng =
    (if kind = ''calls'' then
       (if rng \<in> {''24h'', ''7d'', ''30d'', ''90d'', ''custom'', ''all''} then rng else ''all'')
     else (if rng \<in> {''24h'', ''7d'', ''30d'', ''90d'', ''custom''} then rng else ''7d''))"

definition bound_filter :: "string \<Rightarrow> string \<Rightarrow> int \<Rightarrow> (int \<times> int) option \<Rightarrow> admin_filter \<Rightarrow> admin_filter" where
  "bound_filter kind rng now custom f =
    (if rng = ''all'' then f
     else if rng = ''custom'' then
       (case custom of
          Some (from, to) \<Rightarrow> f\<lparr>f_bounded := True, f_from := from, f_to := to\<rparr>
        | None \<Rightarrow>
            if kind = ''calls'' then f\<lparr>f_range := ''all''\<rparr>
            else
              (case preset_window ''7d'' now of
                 (from, to) \<Rightarrow> f\<lparr>f_range := ''7d'', f_bounded := True, f_from := from, f_to := to\<rparr>))
     else (case preset_window rng now of (from, to) \<Rightarrow> f\<lparr>f_bounded := True, f_from := from, f_to := to\<rparr>))"

text \<open>The two ends of a custom range when they are accepted.\<close>

definition custom_window :: "query \<Rightarrow> zone \<Rightarrow> string \<Rightarrow> (int \<times> int) option" where
  "custom_window q z kind =
    (case (parse_admin_time (query_get q ''from'') z, parse_admin_time (query_get q ''to'') z) of
       (Some from, Some to) \<Rightarrow>
         if \<not> from < to \<or> (kind = ''usage'' \<and> max_admin_usage_range < time_sub to from) then None
         else Some (from, to)
     | _ \<Rightarrow> None)"

definition parse_admin_filter :: "tzdb \<Rightarrow> query \<Rightarrow> int \<Rightarrow> string \<Rightarrow> admin_filter" where
  "parse_admin_filter tzdb q now kind =
    (let tz = trim_space (query_get q ''tz'');
         f = \<lparr>f_range = [], f_bucket = [], f_from = zero_time, f_to = zero_time, f_bounded = False,
           f_tz = (if tz \<noteq> [] then (case load_location tzdb tz of Some z \<Rightarrow> zone_name z | None \<Rightarrow> []) else []),
           f_model = trim_space (query_get q ''model''), f_provider = trim_space (query_get q ''provider''),
           f_api_key = trim_space (query_get q ''api_key''), f_outcome = parse_outcome (query_get q ''outcome'')\<rparr>;
         rng = filter_range kind (query_get q ''range'');
         f = bound_filter kind rng now (custom_window q (tz_loc tzdb f) kind) (f\<lparr>f_range := rng\<rparr>)
     in if f_bounded f then f\<lparr>f_bucket := derive_admin_bucket (f_from f) (f_to f)\<rparr> else f)"

subsection \<open>Links\<close>

definition filter_window :: "admin_filter \<Rightarrow> admin_window" where
  "filter_window f = \<lparr>w_range = f_range f, w_bucket = f_bucket f, w_from = f_from f, w_to = f_to f\<rparr>"

definition set_if :: "bool \<Rightarrow> string \<Rightarrow> string \<Rightarrow> query \<Rightarrow> query" where
  "set_if c k v q = (if c then query_set k v q else q)"

definition filter_values :: "string \<Rightarrow> admin_filter \<Rightarrow> query" where
  "filter_values kind f =
    (let v = [];
         v = (if f_range f = [] then v
              else if kind = ''calls'' \<and> f_range f = ''all'' then v
              else if kind = ''usage'' \<and> f_range f = ''7d'' then v
              else query_set ''range'' (f_range f) v);
         v = (if f_range f = ''custom'' \<and> f_bounded f then
                set_if (f_to f \<noteq> zero_time) ''to'' (format_rfc3339 (f_to f))
                  (set_if (f_from f \<noteq> zero_time) ''from'' (format_rfc3339 (f_from f)) v)
              else v);
         v = set_if (f_tz f \<noteq> [] \<and> f_tz f \<noteq> ''UTC'') ''tz'' (f_tz f) v;
         v = set_if (f_model f \<noteq> []) ''model'' (f_model f) v;
         v = set_if (f_provider f \<noteq> []) ''provider'' (f_provider f) v;
         v = set_if (f_api_key f \<noteq> []) ''api_key'' (f_api_key f) v
     in set_if (f_outcome f \<noteq> []) ''outcome'' (f_outcome f) v)"

definition filter_path :: "string \<Rightarrow> string \<Rightarrow> admin_filter \<Rightarrow> string" where
  "filter_path kind base f =
    (let enc = encode_query (filter_values kind f) in if enc = [] then base else base @ ''?'' @ enc)"

definition for_usage :: "admin_filter \<Rightarrow> admin_filter" where
  "for_usage f =
    (if f_range f = ''all'' \<or> f_range f = [] then
       f\<lparr>f_range := ''7d'', f_bounded := True, f_from := zero_time, f_to := zero_time\<rparr>
     else f)"

definition pager_url :: "admin_filter \<Rightarrow> int \<Rightarrow> string" where
  "pager_url f page =
    (let v = set_if (1 < page) ''page'' (int_text page) (filter_values ''calls'' f); enc = encode_query v in
     if enc = [] then ''/calls'' else ''/calls?'' @ enc)"

subsection \<open>A query comes back from its encoding\<close>

lemma upper_hex_val: "n < 16 \<Longrightarrow> hex_val (upper_hex n) = Some n"
  by (auto simp: upper_hex_def upper_char_def hex_digit_def hex_val_def of_char_of)

lemma upper_hex_alnum: "n < 16 \<Longrightarrow> is_alnum (upper_hex n)"
  by (auto simp: upper_hex_def upper_char_def hex_digit_def is_alnum_def Let_def of_char_of)

lemma unescape_byte: "query_unescape (escape_byte c @ s) = map_option ((#) c) (query_unescape s)"
proof -
  have "byte_of c div 16 < 16" "byte_of c mod 16 < 16" using byte_of_less [of c] by (auto simp: less_mult_imp_div_less)
  note h = this [THEN upper_hex_val]
  have "unreserved c \<Longrightarrow> c \<noteq> CHR 0x25 \<and> c \<noteq> CHR ''+''" by (auto simp: unreserved_def is_alnum_def Let_def)
  then show ?thesis using h
    by (cases "unreserved c"; cases "c = CHR '' ''"; cases "query_unescape s") (simp_all add: escape_byte_def)
qed

lemma unescape_escape: "query_unescape (query_escape s) = Some s"
  by (induction s) (simp_all add: query_escape_def unescape_byte)

lemma escape_chars: "c \<in> set (query_escape s) \<Longrightarrow> c \<notin> {CHR ''&'', CHR ''='', CHR '';''}"
proof -
  assume "c \<in> set (query_escape s)"
  then obtain x where c: "c \<in> set (escape_byte x)" by (auto simp: query_escape_def)
  have u: "is_alnum y \<Longrightarrow> y \<notin> {CHR ''&'', CHR ''='', CHR '';''}"
    "unreserved y \<Longrightarrow> y \<notin> {CHR ''&'', CHR ''='', CHR '';''}" for y
    by (auto simp: unreserved_def is_alnum_def Let_def)
  have "byte_of x div 16 < 16" "byte_of x mod 16 < 16" using byte_of_less [of x] by (auto simp: less_mult_imp_div_less)
  note h = this [THEN upper_hex_alnum, THEN u(1)]
  show ?thesis using c h u(2) [of x] by (auto simp: escape_byte_def split: if_splits)
qed

lemma split_on_join:
  "ps \<noteq> [] \<Longrightarrow> \<forall>p \<in> set ps. c \<notin> set p \<Longrightarrow> split_on c (join [c] ps) = ps"
proof (induction ps)
  case (Cons p ps)
  then show ?case by (cases ps) (simp_all add: split_on_single split_on_append)
qed simp

abbreviation escaped_pair :: "string \<times> string \<Rightarrow> string" where
  "escaped_pair kv \<equiv> query_escape (fst kv) @ ''='' @ query_escape (snd kv)"

lemma query_pair_escaped: "query_pair (escaped_pair kv) = Some kv"
proof -
  have n: "CHR '';'' \<notin> set (escaped_pair kv)" "CHR ''='' \<notin> set (query_escape (fst kv))"
    using escape_chars by fastforce+
  then have "cut (CHR ''='') (escaped_pair kv) = (query_escape (fst kv), query_escape (snd kv), True)"
    by (simp add: cut_append)
  with n show ?thesis by (simp add: query_pair_def unescape_escape)
qed

text \<open>The queries \<^verbatim>\<open>Set\<close> builds: each key once, with one value.\<close>

definition single_query :: "query \<Rightarrow> bool" where
  "single_query q \<longleftrightarrow> distinct_keys q \<and> (\<forall>(k, vs) \<in> set q. \<exists>v. vs = [v])"

lemma add_values_new:
  "distinct_keys (q @ map (\<lambda>kv. (fst kv, [snd kv])) kvs) \<Longrightarrow>
    foldl add_value q kvs = q @ map (\<lambda>kv. (fst kv, [snd kv])) kvs"
proof (induction kvs arbitrary: q)
  case (Cons kv kvs)
  then have "fst kv \<notin> fst ` set q" by auto
  then have "add_value q kv = q @ [(fst kv, [snd kv])]"
    by (simp add: add_value_def update_new map_of_eq_None_iff [symmetric, THEN iffD2] split: option.split)
      (metis map_of_eq_None_iff option.distinct(1))
  with Cons show ?case by simp
qed simp

lemma parse_encode_query:
  assumes "single_query q"
  shows "parse_query (encode_query q) = sort_key fst q"
proof -
  define kvs where "kvs = map (\<lambda>(k, vs). (k, hd vs)) (sort_key fst q)"
  have s: "\<forall>(k, vs) \<in> set (sort_key fst q). vs = [hd vs]" using assms by (fastforce simp: single_query_def)
  then have q: "map (\<lambda>kv. (fst kv, [snd kv])) kvs = sort_key fst q"
    unfolding kvs_def map_map by (intro map_idI) auto
  have "map (\<lambda>(k, vs). map (\<lambda>v. query_escape k @ ''='' @ query_escape v) vs) (sort_key fst q) =
      map (\<lambda>kv. [escaped_pair kv]) kvs"
    unfolding kvs_def map_map
  proof (rule map_cong)
    fix p assume "p \<in> set (sort_key fst q)"
    then obtain k v where "p = (k, [v])" using assms by (fastforce simp: single_query_def)
    then show "(case p of (k, vs) \<Rightarrow> map (\<lambda>v. query_escape k @ ''='' @ query_escape v) vs) =
        ((\<lambda>kv. [escaped_pair kv]) \<circ> (\<lambda>(k, vs). (k, hd vs))) p" by simp
  qed simp
  then have e: "encode_query q = join ''&'' (map escaped_pair kvs)"
    by (simp add: encode_query_def concat_map_singleton)
  have d: "distinct_keys (sort_key fst q)" using assms by (simp add: single_query_def distinct_keys_sort_key)
  show ?thesis
  proof (cases "kvs = []")
    case True
    then have "sort_key fst q = []" by (simp add: kvs_def)
    with True e show ?thesis by (simp add: parse_query_def query_pair_def map_filter_simps)
  next
    case False
    have "split_on CHR ''&'' (encode_query q) = map escaped_pair kvs"
      unfolding e using False escape_chars by (intro split_on_join) fastforce+
    moreover have "List.map_filter query_pair (map escaped_pair kvs) = kvs"
      by (induction kvs) (simp_all only: list.map map_filter_simps query_pair_escaped option.case)
    ultimately have "parse_query (encode_query q) = foldl add_value [] kvs" by (simp add: parse_query_def)
    also have "\<dots> = sort_key fst q" using add_values_new [of "[]" kvs] d unfolding q by simp
    finally show ?thesis .
  qed
qed

lemma query_get_sorted: "distinct_keys q \<Longrightarrow> query_get (sort_key fst q) k = query_get q k"
  by (simp add: query_get_def map_of_sort_key)

subsection \<open>The values of a filter\<close>

lemma query_get_set_if: "query_get (set_if c k v q) k' = (if c \<and> k' = k then v else query_get q k')"
  by (simp add: query_get_def set_if_def query_set_def)

lemma update_member: "p \<in> set (AList.update k v q) \<Longrightarrow> p = (k, v) \<or> p \<in> set q"
  by (induction q) (auto split: if_splits)

lemma single_query_set [wf_intros]: "single_query q \<Longrightarrow> single_query (query_set k v q)"
  by (auto simp: single_query_def query_set_def dest!: update_member)

lemma single_query_set_if [wf_intros]: "single_query q \<Longrightarrow> single_query (set_if c k v q)"
  by (simp add: set_if_def single_query_set)

lemma single_query_Nil [wf_intros]: "single_query []"
  by (simp add: single_query_def)

lemma set_if_range:
  "(if a then q else if b then q else if c then q else query_set k v q) = set_if (\<not> a \<and> \<not> b \<and> \<not> c) k v q"
  by (simp add: set_if_def)

lemma set_if_both:
  "(if c then set_if a k v (set_if b k' v' q) else q) = set_if (c \<and> a) k v (set_if (c \<and> b) k' v' q)"
  by (simp add: set_if_def)

lemma filter_values_set_if:
  "filter_values kind f =
    (let r = set_if (f_range f \<noteq> [] \<and> \<not> (kind = ''calls'' \<and> f_range f = ''all'') \<and> \<not> (kind = ''usage'' \<and> f_range f = ''7d''))
           ''range'' (f_range f) [];
         c = f_range f = ''custom'' \<and> f_bounded f;
         r = set_if (c \<and> f_from f \<noteq> zero_time) ''from'' (format_rfc3339 (f_from f)) r;
         r = set_if (c \<and> f_to f \<noteq> zero_time) ''to'' (format_rfc3339 (f_to f)) r;
         r = set_if (f_tz f \<noteq> [] \<and> f_tz f \<noteq> ''UTC'') ''tz'' (f_tz f) r;
         r = set_if (f_model f \<noteq> []) ''model'' (f_model f) r;
         r = set_if (f_provider f \<noteq> []) ''provider'' (f_provider f) r;
         r = set_if (f_api_key f \<noteq> []) ''api_key'' (f_api_key f) r
     in set_if (f_outcome f \<noteq> []) ''outcome'' (f_outcome f) r)"
  unfolding filter_values_def Let_def set_if_range set_if_both ..

lemma single_filter_values: "single_query (filter_values kind f)"
  by (simp add: filter_values_set_if Let_def single_query_set_if single_query_Nil)

lemma query_get_Nil [simp]: "query_get [] k = []"
  by (simp add: query_get_def)

lemma filter_values_get:
  "query_get (filter_values kind f) ''range'' =
    (if (kind = ''calls'' \<and> f_range f = ''all'') \<or> (kind = ''usage'' \<and> f_range f = ''7d'') then [] else f_range f)"
  "query_get (filter_values kind f) ''from'' =
    (if f_range f = ''custom'' \<and> f_bounded f \<and> f_from f \<noteq> zero_time then format_rfc3339 (f_from f) else [])"
  "query_get (filter_values kind f) ''to'' =
    (if f_range f = ''custom'' \<and> f_bounded f \<and> f_to f \<noteq> zero_time then format_rfc3339 (f_to f) else [])"
  "query_get (filter_values kind f) ''tz'' = (if f_tz f = ''UTC'' then [] else f_tz f)"
  "query_get (filter_values kind f) ''model'' = f_model f"
  "query_get (filter_values kind f) ''provider'' = f_provider f"
  "query_get (filter_values kind f) ''api_key'' = f_api_key f"
  "query_get (filter_values kind f) ''outcome'' = f_outcome f"
  unfolding filter_values_set_if Let_def query_get_set_if by simp_all

text \<open>The query of the page a link leads to.\<close>

definition link_query :: "string \<Rightarrow> query" where
  "link_query path = (case cut (CHR ''?'') path of (_, q, _) \<Rightarrow> parse_query q)"

lemma cut_none: "c \<notin> set s \<Longrightarrow> cut c s = (s, [], False)"
  by (induction s) auto

lemma link_query_get:
  assumes "single_query q" "CHR ''?'' \<notin> set base"
  shows "query_get (link_query (if encode_query q = [] then base else base @ ''?'' @ encode_query q)) k = query_get q k"
proof (cases "encode_query q = []")
  case True
  then have "query_get (parse_query []) k = query_get q k"
    using parse_encode_query [OF assms(1)] query_get_sorted [of q k] assms(1) by (simp add: single_query_def)
  moreover have "cut (CHR ''?'') base = (base, [], False)"
    using assms(2) by (rule cut_none)
  ultimately show ?thesis using True by (simp add: link_query_def)
next
  case False
  have "cut (CHR ''?'') (base @ ''?'' @ encode_query q) = (base, encode_query q, True)"
    using assms(2) by (simp add: cut_append)
  then show ?thesis
    using False parse_encode_query [OF assms(1)] query_get_sorted [of q k] assms(1)
    by (simp add: link_query_def single_query_def)
qed

subsection \<open>Trimming twice\<close>

lemma lead_len_prefix:
  assumes "prefix p s" "lead_len ws s = 0" "[] \<notin> set ws"
  shows "lead_len ws p = 0"
  using assms(2,3)
proof (induction ws)
  case (Cons w ws)
  then have "\<not> prefix w s" by (auto split: if_splits)
  then have "\<not> prefix w p" using assms(1) prefix_order.trans by blast
  with Cons show ?case by (auto split: if_splits)
qed simp

lemma trim_lead_done: "[] \<notin> set ws \<Longrightarrow> trim_lead ws s \<noteq> [] \<Longrightarrow> lead_len ws (trim_lead ws s) = 0"
proof (induction ws s rule: trim_lead.induct)
  case (1 ws s)
  then show ?case by (cases "s = [] \<or> lead_len ws s = 0") (auto simp: trim_lead.simps [of ws s])
qed

lemma trim_space_idem: "trim_space (trim_space s) = trim_space s"
proof (cases "trim_space s = []")
  case False
  let ?l = "trim_left_space s"
  have ne: "[] \<notin> set space_seqs" "[] \<notin> set (map rev space_seqs)" by (simp_all add: space_seqs_def)
  have p: "prefix (trim_space s) ?l"
    using trim_lead_suffix [of "map rev space_seqs" "rev ?l"]
    by (simp add: trim_space_def trim_right_space_def suffix_to_prefix)
  have "?l \<noteq> []" using False p by auto
  then have "lead_len space_seqs ?l = 0" unfolding trim_left_space_def by (rule trim_lead_done [OF ne(1)])
  from lead_len_prefix [OF p this ne(1)] have "trim_left_space (trim_space s) = trim_space s"
    unfolding trim_left_space_def by (rule trim_lead_id)
  then show ?thesis
    unfolding trim_space_def [of "trim_space s"]
    by (simp add: trim_space_def trim_right_space_def trim_lead_fix)
qed simp

subsection \<open>Filters are well formed\<close>

definition kind_ranges :: "string \<Rightarrow> string set" where
  "kind_ranges kind = {''24h'', ''7d'', ''30d'', ''90d'', ''custom''} \<union> (if kind = ''calls'' then {''all''} else {})"

text \<open>
  What the pages rely on: the range is one of the page's; it is bounded unless it is \<^verbatim>\<open>all\<close>, and a
  bounded one is a nonempty interval, the preset one or a custom one (at most 366 days on the usage page),
  with the bucket of its length; the texts are trimmed and the zone can be loaded.
\<close>

definition filter_ok :: "tzdb \<Rightarrow> int \<Rightarrow> string \<Rightarrow> admin_filter \<Rightarrow> bool" where
  "filter_ok tzdb now kind f \<longleftrightarrow>
    f_range f \<in> kind_ranges kind \<and> (f_bounded f \<longleftrightarrow> f_range f \<noteq> ''all'') \<and>
    (f_bounded f \<longrightarrow> f_from f < f_to f \<and> f_bucket f = derive_admin_bucket (f_from f) (f_to f)) \<and>
    (\<not> f_bounded f \<longrightarrow> f_from f = zero_time \<and> f_to f = zero_time \<and> f_bucket f = []) \<and>
    (f_bounded f \<and> f_range f \<noteq> ''custom'' \<longrightarrow> (f_from f, f_to f) = preset_window (f_range f) now) \<and>
    (kind = ''usage'' \<longrightarrow> f_to f - f_from f \<le> 366 * 24 * hour_ns) \<and>
    (f_tz f \<noteq> [] \<longrightarrow> trim_space (f_tz f) = f_tz f \<and> (\<exists>z. load_location tzdb (f_tz f) = Some z \<and> zone_name z = f_tz f)) \<and>
    trim_space (f_model f) = f_model f \<and> trim_space (f_provider f) = f_provider f \<and>
    trim_space (f_api_key f) = f_api_key f \<and> parse_outcome (f_outcome f) = f_outcome f"

lemma parse_outcome_idem: "parse_outcome (parse_outcome s) = parse_outcome s"
  by (simp add: parse_outcome_def)

lemma load_location_name: "name \<noteq> [] \<Longrightarrow> load_location tzdb name = Some z \<Longrightarrow> zone_name z = name"
  by (auto simp: load_location_def utc_def split: if_splits)

lemma preset_window_order: "preset_window rng now = (from, to) \<Longrightarrow> from < to \<and> to - from \<le> 90 * 24 * hour_ns"
  by (auto simp: preset_window_def Let_def hour_ns_def second_ns_def split: if_splits)

lemma custom_window_order:
  assumes "custom_window q z kind = Some (from, to)"
  shows "from < to" "kind = ''usage'' \<Longrightarrow> to - from \<le> 366 * 24 * hour_ns"
proof -
  have c: "from < to" "\<not> (kind = ''usage'' \<and> max_admin_usage_range < time_sub to from)"
    using assms by (auto simp: custom_window_def split: option.splits if_splits)
  show "from < to" by (rule c(1))
  show "to - from \<le> 366 * 24 * hour_ns" if "kind = ''usage''"
    using c that by (auto simp: max_admin_usage_range_def time_sub_def hour_ns_def second_ns_def split: if_splits)
qed

lemma filter_range_kind: "filter_range kind rng \<in> kind_ranges kind"
  by (simp add: filter_range_def kind_ranges_def)

text \<open>The interval and range a filter ends up with.\<close>

lemma bound_filter_cases:
  assumes "rng \<in> kind_ranges kind" "f_range f = rng" "\<not> f_bounded f" "f_from f = zero_time" "f_to f = zero_time"
    "custom = custom_window q z kind"
  obtains "bound_filter kind rng now custom f = f\<lparr>f_range := ''all''\<rparr>" "kind = ''calls''"
  | r a b where "bound_filter kind rng now custom f = f\<lparr>f_range := r, f_bounded := True, f_from := a, f_to := b\<rparr>"
      "r \<in> kind_ranges kind" "r \<noteq> ''all''" "a < b" "kind = ''usage'' \<longrightarrow> b - a \<le> 366 * 24 * hour_ns"
      "r \<noteq> ''custom'' \<longrightarrow> preset_window r now = (a, b)"
proof (cases "rng = ''all''")
  case True
  then show ?thesis using assms that(1) by (auto simp: bound_filter_def kind_ranges_def split: if_splits)
next
  case False
  show ?thesis
  proof (cases "rng = ''custom''")
    case custom: True
    show ?thesis
    proof (cases custom)
      case None
      have p: "preset_window ''7d'' now = (now - 7 * 24 * hour_ns, now)" by (simp add: preset_window_def)
      show ?thesis
      proof (cases "kind = ''calls''")
        case True
        then show ?thesis using that(1) custom None by (simp add: bound_filter_def)
      next
        case False
        then show ?thesis using that(2) [where r = "''7d''" and a = "now - 7 * 24 * hour_ns" and b = now] custom None p preset_window_order [OF p]
          by (simp add: bound_filter_def kind_ranges_def hour_ns_def second_ns_def)
      qed
    next
      case (Some w)
      obtain a b where w: "w = (a, b)" by (cases w)
      with Some assms(6) have "custom_window q z kind = Some (a, b)" by simp
      note o = custom_window_order [OF this]
      have "f\<lparr>f_bounded := True, f_from := a, f_to := b\<rparr> =
          f\<lparr>f_range := rng, f_bounded := True, f_from := a, f_to := b\<rparr>" using assms(2) by (cases f) simp
      moreover have "bound_filter kind rng now custom f = f\<lparr>f_bounded := True, f_from := a, f_to := b\<rparr>"
        using custom Some w by (simp add: bound_filter_def)
      ultimately show ?thesis using o assms(1) False custom by (intro that(2) [where r = rng and a = a and b = b]) simp_all
    qed
  next
    case preset: False
    obtain a b where p: "preset_window rng now = (a, b)" by (cases "preset_window rng now")
    have "f\<lparr>f_bounded := True, f_from := a, f_to := b\<rparr> =
        f\<lparr>f_range := rng, f_bounded := True, f_from := a, f_to := b\<rparr>" using assms(2) by (cases f) simp
    then show ?thesis using that(2) [where r = rng and a = a and b = b] False preset p preset_window_order [OF p] assms(1)
      by (simp add: bound_filter_def hour_ns_def second_ns_def)
  qed
qed

lemma parse_admin_filter_ok: "filter_ok tzdb now kind (parse_admin_filter tzdb q now kind)"
proof -
  define tz where "tz = trim_space (query_get q ''tz'')"
  define t where "t = (if tz \<noteq> [] then (case load_location tzdb tz of Some z \<Rightarrow> zone_name z | None \<Rightarrow> []) else [])"
  define f where "f = \<lparr>f_range = [], f_bucket = [], f_from = zero_time, f_to = zero_time, f_bounded = False,
     f_tz = t, f_model = trim_space (query_get q ''model''), f_provider = trim_space (query_get q ''provider''),
     f_api_key = trim_space (query_get q ''api_key''), f_outcome = parse_outcome (query_get q ''outcome'')\<rparr>"
  define rng where "rng = filter_range kind (query_get q ''range'')"
  define h where "h = f\<lparr>f_range := rng\<rparr>"
  define g where "g = bound_filter kind rng now (custom_window q (tz_loc tzdb f) kind) h"
  have p: "parse_admin_filter tzdb q now kind =
      (if f_bounded g then g\<lparr>f_bucket := derive_admin_bucket (f_from g) (f_to g)\<rparr> else g)"
    unfolding parse_admin_filter_def Let_def g_def h_def f_def t_def tz_def rng_def by simp
  have t: "t \<noteq> [] \<longrightarrow> trim_space t = t \<and> (\<exists>z. load_location tzdb t = Some z \<and> zone_name z = t)"
  proof (cases "tz = [] \<or> load_location tzdb tz = None")
    case False
    then obtain z where z: "tz \<noteq> []" "load_location tzdb tz = Some z" by auto
    from load_location_name [OF this] z have "t = tz" by (simp add: t_def)
    with z load_location_name [OF z] show ?thesis by (simp add: tz_def trim_space_idem)
  qed (auto simp: t_def)
  have r: "rng \<in> kind_ranges kind" unfolding rng_def by (rule filter_range_kind)
  have ff: "f_range h = rng" "\<not> f_bounded h" "f_from h = zero_time" "f_to h = zero_time" "f_bucket h = []" "f_tz h = t"
    "trim_space (f_model h) = f_model h" "trim_space (f_provider h) = f_provider h"
    "trim_space (f_api_key h) = f_api_key h" "parse_outcome (f_outcome h) = f_outcome h"
    by (simp_all add: h_def f_def trim_space_idem parse_outcome_idem)
  have all: "''all'' \<in> kind_ranges ''calls''" "''calls'' \<noteq> ''usage''" by (simp_all add: kind_ranges_def)
  consider "g = h\<lparr>f_range := ''all''\<rparr>" "kind = ''calls''"
    | x a b where "g = h\<lparr>f_range := x, f_bounded := True, f_from := a, f_to := b\<rparr>"
      "x \<in> kind_ranges kind" "x \<noteq> ''all''" "a < b" "kind = ''usage'' \<longrightarrow> b - a \<le> 366 * 24 * hour_ns"
      "x \<noteq> ''custom'' \<longrightarrow> preset_window x now = (a, b)"
    unfolding g_def using bound_filter_cases [OF r ff(1-4) refl, of now q "tz_loc tzdb f" thesis] by blast
  then show ?thesis
  proof cases
    case 1
    then show ?thesis unfolding p using t all by (simp add: filter_ok_def ff)
  next
    case 2
    then show ?thesis unfolding p using t by (simp add: filter_ok_def ff)
  qed
qed

subsection \<open>Links carry the filter\<close>

lemma format_rfc3339_trim: "0 \<le> year_of t \<Longrightarrow> trim_space (format_rfc3339 t) = format_rfc3339 t \<and> format_rfc3339 t \<noteq> []"
proof -
  assume y: "0 \<le> year_of t"
  obtain a m d where c: "civil (day_of t) = (a, m, d)" by (metis prod_cases3)
  have a: "0 \<le> a" using y civil_year [OF c] by simp
  obtain x xs where p: "pad_int 4 a = x # xs" "is_digit x"
    using zero_pad_digits [of 4 "nat a"] a by (cases "zero_pad 4 (digits (nat a))") (auto simp: pad_int_def)
  have "plain_ascii x" using p(2) by (simp add: plain_ascii_def is_digit_def)
  with p(1) show ?thesis
    by (auto simp: format_rfc3339_def format_minute_def format_date_def c plain_ascii_def intro!: trim_space_id)
qed

lemma parse_admin_time_rfc3339:
  "0 \<le> year_of t \<Longrightarrow> year_of t \<le> 9999 \<Longrightarrow> t mod second_ns = 0 \<Longrightarrow> parse_admin_time (format_rfc3339 t) z = Some t"
  using format_rfc3339_trim [of t] parse_format_rfc3339(2) [of t]
  by (simp add: parse_admin_time_def at_offset_def)

lemma filter_ok_tz:
  assumes "filter_ok tzdb now kind f" "t = (if f_tz f = ''UTC'' then [] else f_tz f)"
  shows "trim_space t = t"
    "(if t \<noteq> [] then (case load_location tzdb t of Some z \<Rightarrow> zone_name z | None \<Rightarrow> []) else []) = t"
proof -
  have *: "f_tz f \<noteq> [] \<longrightarrow> trim_space (f_tz f) = f_tz f \<and> (\<exists>z. load_location tzdb (f_tz f) = Some z \<and> zone_name z = f_tz f)"
    using assms(1) by (simp add: filter_ok_def)
  show "trim_space t = t" using * assms(2) by (cases "f_tz f = []") auto
  show "(if t \<noteq> [] then (case load_location tzdb t of Some z \<Rightarrow> zone_name z | None \<Rightarrow> []) else []) = t"
    using * assms(2) by (cases "f_tz f = []") auto
qed

text \<open>A filter is read back from a query with its values.\<close>

definition carries :: "query \<Rightarrow> string \<Rightarrow> admin_filter \<Rightarrow> bool" where
  "carries q kind f \<longleftrightarrow> (\<forall>k. query_get q k = query_get (filter_values kind f) k)"

lemma carried_window:
  assumes "carries q kind f" "filter_ok tzdb now kind0 f" "f_range f = ''custom''"
    "\<forall>t \<in> {f_from f, f_to f}. t mod second_ns = 0 \<and> 0 \<le> year_of t \<and> year_of t \<le> 9999 \<and> t \<noteq> zero_time"
    "kind = ''usage'' \<longrightarrow> f_to f - f_from f \<le> 366 * 24 * hour_ns"
  shows "custom_window q z kind = Some (f_from f, f_to f)"
proof -
  have b: "f_bounded f" "f_from f < f_to f" using assms(2,3) by (auto simp: filter_ok_def)
  have "query_get q ''from'' = format_rfc3339 (f_from f)" "query_get q ''to'' = format_rfc3339 (f_to f)"
    using assms(1,3,4) b(1) by (simp_all add: carries_def filter_values_get)
  then have "parse_admin_time (query_get q ''from'') z = Some (f_from f)" "parse_admin_time (query_get q ''to'') z = Some (f_to f)"
    using assms(4) by (simp_all add: parse_admin_time_rfc3339)
  moreover have "\<not> (kind = ''usage'' \<and> max_admin_usage_range < time_sub (f_to f) (f_from f))"
    using assms(5) b(2) by (auto simp: max_admin_usage_range_def time_sub_def hour_ns_def second_ns_def)
  ultimately show ?thesis using b(2) unfolding custom_window_def by simp
qed

lemma carried_range:
  assumes "carries q kind f" "f_range f \<in> kind_ranges kind" "kind \<in> {''usage'', ''calls''}"
  shows "filter_range kind (query_get q ''range'') = f_range f"
proof -
  have "query_get q ''range'' =
      (if (kind = ''calls'' \<and> f_range f = ''all'') \<or> (kind = ''usage'' \<and> f_range f = ''7d'') then [] else f_range f)"
    using assms(1) by (simp add: carries_def filter_values_get)
  then show ?thesis using assms(2,3) by (auto simp: filter_range_def kind_ranges_def)
qed

lemma carried_bounds:
  assumes "filter_ok tzdb now kind0 f" "f_range g = f_range f" "\<not> f_bounded g" "f_from g = zero_time" "f_to g = zero_time"
    and "f_range f = ''custom'' \<longrightarrow> custom = Some (f_from f, f_to f)"
  shows "bound_filter kind (f_range f) now custom g = g\<lparr>f_bounded := f_bounded f, f_from := f_from f, f_to := f_to f\<rparr>"
proof -
  consider "f_range f = ''all''" | "f_range f = ''custom''" | "f_range f \<noteq> ''all''" "f_range f \<noteq> ''custom''" by blast
  then show ?thesis
  proof cases
    case 1
    then have "\<not> f_bounded f" "f_from f = zero_time" "f_to f = zero_time" using assms(1) by (auto simp: filter_ok_def)
    then show ?thesis using 1 assms(3-5) by (simp add: bound_filter_def)
  next
    case 2
    then have "f_bounded f" using assms(1) by (auto simp: filter_ok_def)
    then show ?thesis using 2 assms(6) by (simp add: bound_filter_def)
  next
    case 3
    then have "f_bounded f" "preset_window (f_range f) now = (f_from f, f_to f)" using assms(1) by (auto simp: filter_ok_def)
    then show ?thesis using 3 by (simp add: bound_filter_def)
  qed
qed

lemma carried_filter:
  assumes "carries q kind f" "filter_ok tzdb now kind0 f" "f_range f \<in> kind_ranges kind" "kind \<in> {''usage'', ''calls''}"
    "f_range f = ''custom'' \<longrightarrow>
      (\<forall>t \<in> {f_from f, f_to f}. t mod second_ns = 0 \<and> 0 \<le> year_of t \<and> year_of t \<le> 9999 \<and> t \<noteq> zero_time)"
    "kind = ''usage'' \<longrightarrow> f_to f - f_from f \<le> 366 * 24 * hour_ns"
  shows "parse_admin_filter tzdb q now kind = f\<lparr>f_tz := if f_tz f = ''UTC'' then [] else f_tz f\<rparr>"
proof -
  define t where "t = (if f_tz f = ''UTC'' then [] else f_tz f)"
  define g where "g = f\<lparr>f_bucket := [], f_from := zero_time, f_to := zero_time, f_bounded := False, f_tz := t\<rparr>"
  have ok: "trim_space (f_model f) = f_model f" "trim_space (f_provider f) = f_provider f"
    "trim_space (f_api_key f) = f_api_key f" "parse_outcome (f_outcome f) = f_outcome f"
    "f_bounded f \<longrightarrow> f_bucket f = derive_admin_bucket (f_from f) (f_to f)" "\<not> f_bounded f \<longrightarrow> f_bucket f = []"
    using assms(2) by (auto simp: filter_ok_def)
  have q: "query_get q ''tz'' = t" "query_get q ''model'' = f_model f" "query_get q ''provider'' = f_provider f"
    "query_get q ''api_key'' = f_api_key f" "query_get q ''outcome'' = f_outcome f"
    using assms(1) by (simp_all add: carries_def filter_values_get t_def)
  note r = carried_range [OF assms(1,3,4)]
  note tz = filter_ok_tz [OF assms(2) t_def]
  have start: "\<lparr>f_range = f_range f, f_bucket = [], f_from = zero_time, f_to = zero_time, f_bounded = False, f_tz = t,
      f_model = f_model f, f_provider = f_provider f, f_api_key = f_api_key f, f_outcome = f_outcome f\<rparr> = g"
    by (cases f) (simp add: g_def)
  have "f_range f = ''custom'' \<longrightarrow> custom_window q z kind = Some (f_from f, f_to f)" for z
    using carried_window [OF assms(1,2)] assms(5,6) by blast
  then have b: "bound_filter kind (f_range f) now (custom_window q z kind) g =
      g\<lparr>f_bounded := f_bounded f, f_from := f_from f, f_to := f_to f\<rparr>" for z
    by (intro carried_bounds [OF assms(2)]) (simp_all add: g_def)
  have "parse_admin_filter tzdb q now kind =
      (let f' = g\<lparr>f_bounded := f_bounded f, f_from := f_from f, f_to := f_to f\<rparr> in
       if f_bounded f' then f'\<lparr>f_bucket := derive_admin_bucket (f_from f') (f_to f')\<rparr> else f')"
    unfolding parse_admin_filter_def Let_def q ok(1-4) tz r by (simp add: start b)
  also have "\<dots> = f\<lparr>f_tz := t\<rparr>"
    using ok(5,6) by (cases f) (auto simp: g_def Let_def)
  finally show ?thesis by (simp add: t_def)
qed


definition sample_query :: query where
  "sample_query = [(''range'', [''custom'']), (''from'', [''2026-03-01'']), (''to'', [''2026-03-31T12:30:00+02:00'']),
    (''model'', ['' a&b '']), (''tz'', [''UTC''])]"

definition sample_filter :: admin_filter where
  "sample_filter = \<lparr>f_range = ''custom'', f_bucket = ''day'', f_from = 1772323200 * 1000000000,
    f_to = 1774953000 * 1000000000, f_bounded = True, f_tz = ''UTC'', f_model = ''a&b'', f_provider = [],
    f_api_key = [], f_outcome = []\<rparr>"

lemma sample_filter_parsed: "parse_admin_filter (\<lambda>_. None) sample_query 0 ''calls'' = sample_filter"
  by code_simp


end
