(* ===== verification/AdminQuery.thy ===== *)
theory AdminQuery
  imports AdminFilter
begin

text \<open>
  \<^verbatim>\<open>admin_query.go\<close>: the filter as SQL, the list of calls, the filter options, the usage series and the
  chart's buckets. A condition's SQL text is what the code builds; what it selects is the meaning of the
  condition tree with that text, with SQL's three truth values. \<open>coll\<close> is the collation of the database:
  the key by which it compares and orders texts. A query may fail with an error (\<open>err\<close>).
\<close>

subsection \<open>SQL conditions\<close>

datatype sql_value = SqlInt int | SqlText string | SqlTime int

definition outcome_sql :: "string \<Rightarrow> string \<times> sql_value list" where
  "outcome_sql outcome =
    (if outcome = ''ok'' then
       (''http_status >= ? AND http_status < ? AND (error = '' @ [CHR 0x27, CHR 0x27] @ '' OR error IS NULL)'',
        [SqlInt 200, SqlInt 300])
     else if outcome = ''canceled'' then (''error = ?'', [SqlText ''canceled''])
     else if outcome = ''no_response'' then
       (''http_status = ? AND (error IS NULL OR error != ?)'', [SqlInt 0, SqlText ''canceled''])
     else if outcome = ''error'' then
       (''http_status != ? AND ((http_status < ? OR http_status >= ?) OR (error != '' @ [CHR 0x27, CHR 0x27] @
          '' AND error IS NOT NULL AND error != ?))'',
        [SqlInt 0, SqlInt 200, SqlInt 300, SqlText ''canceled''])
     else ([], []))"

definition admin_filter_sql :: "admin_filter \<Rightarrow> string \<Rightarrow> string \<times> sql_value list" where
  "admin_filter_sql f skip =
    (let b = []; args = [];
         (b, args) = (if f_bounded f then
             (b @ '' AND created_at >= ? AND created_at < ?'', args @ [SqlTime (f_from f), SqlTime (f_to f)]) else (b, args));
         (b, args) = (if f_model f \<noteq> [] \<and> skip \<noteq> ''model'' then
             (b @ '' AND model = ?'', args @ [SqlText (f_model f)]) else (b, args));
         (b, args) = (if f_provider f \<noteq> [] \<and> skip \<noteq> ''provider'' then
             (b @ '' AND provider = ?'', args @ [SqlText (f_provider f)]) else (b, args));
         (b, args) = (if f_api_key f \<noteq> [] \<and> skip \<noteq> ''api_key_name'' then
             (b @ '' AND api_key_name = ?'', args @ [SqlText (f_api_key f)]) else (b, args));
         (clause, cargs) = outcome_sql (f_outcome f)
     in if clause \<noteq> [] then (b @ '' AND ('' @ clause @ '')'', args @ cargs) else (b, args))"

text \<open>\<^verbatim>\<open>applyAdminFilter\<close>: the text of the \<^verbatim>\<open>WHERE\<close> clause it adds, \<open>None\<close> for none.\<close>

definition apply_admin_filter :: "admin_filter \<Rightarrow> string \<Rightarrow> (string \<times> sql_value list) option" where
  "apply_admin_filter f skip =
    (let (sql, args) = admin_filter_sql f skip in
     if sql = [] then None
     else Some (if prefix '' AND '' sql then drop (length '' AND '') sql else sql, args))"

text \<open>Condition trees: a comparison with a parameter, with the empty text, and the tests for NULL.\<close>

datatype sql_op = OpEq | OpNe | OpLt | OpGe

datatype sql_cond =
    SqlParam string sql_op
  | SqlEmpty string sql_op
  | SqlNull string bool
  | SqlAnd "sql_cond list"
  | SqlOr "sql_cond list"
  | SqlParen sql_cond

fun op_text :: "sql_op \<Rightarrow> string" where
  "op_text OpEq = ''=''"
| "op_text OpNe = ''!=''"
| "op_text OpLt = ''<''"
| "op_text OpGe = ''>=''"

fun sql_text :: "sql_cond \<Rightarrow> string" where
  "sql_text (SqlParam c oper) = c @ '' '' @ op_text oper @ '' ?''"
| "sql_text (SqlEmpty c oper) = c @ '' '' @ op_text oper @ '' '' @ [CHR 0x27, CHR 0x27]"
| "sql_text (SqlNull c yes) = c @ '' IS '' @ (if yes then [] else ''NOT '') @ ''NULL''"
| "sql_text (SqlAnd cs) = join '' AND '' (map sql_text cs)"
| "sql_text (SqlOr cs) = join '' OR '' (map sql_text cs)"
| "sql_text (SqlParen c) = ''('' @ sql_text c @ '')''"

text \<open>A tree is read off its text: \<^verbatim>\<open>AND\<close> binds tighter, so no bare \<^verbatim>\<open>OR\<close> stands below it.\<close>

fun sql_readable :: "sql_cond \<Rightarrow> bool" where
  "sql_readable (SqlAnd cs) = list_all (\<lambda>c. sql_readable c \<and> (case c of SqlAnd _ \<Rightarrow> False | SqlOr _ \<Rightarrow> False | _ \<Rightarrow> True)) cs"
| "sql_readable (SqlOr cs) = list_all (\<lambda>c. sql_readable c \<and> (case c of SqlOr _ \<Rightarrow> False | _ \<Rightarrow> True)) cs"
| "sql_readable (SqlParen c) = sql_readable c"
| "sql_readable _ = True"

fun op_holds :: "sql_op \<Rightarrow> ('a :: linorder) \<Rightarrow> 'a \<Rightarrow> bool" where
  "op_holds OpEq a b = (a = b)"
| "op_holds OpNe a b = (a \<noteq> b)"
| "op_holds OpLt a b = (a < b)"
| "op_holds OpGe a b = (b \<le> a)"

fun sql_compare :: "(string \<Rightarrow> string) \<Rightarrow> sql_op \<Rightarrow> sql_value option \<Rightarrow> sql_value \<Rightarrow> bool option" where
  "sql_compare coll oper (Some (SqlInt a)) (SqlInt b) = Some (op_holds oper a b)"
| "sql_compare coll oper (Some (SqlTime a)) (SqlTime b) = Some (op_holds oper a b)"
| "sql_compare coll oper (Some (SqlText a)) (SqlText b) = Some (op_holds oper (coll a) (coll b))"
| "sql_compare coll oper _ _ = None"

definition and3 :: "bool option \<Rightarrow> bool option \<Rightarrow> bool option" where
  "and3 a b = (if a = Some False \<or> b = Some False then Some False else if a = Some True then b else if b = Some True then a else None)"

definition or3 :: "bool option \<Rightarrow> bool option \<Rightarrow> bool option" where
  "or3 a b = (if a = Some True \<or> b = Some True then Some True else if a = Some False then b else if b = Some False then a else None)"

text \<open>The value of a condition on a row, and the parameters left.\<close>

fun sql_eval :: "(string \<Rightarrow> string) \<Rightarrow> (string \<Rightarrow> sql_value option) \<Rightarrow> sql_cond \<Rightarrow> sql_value list \<Rightarrow> bool option \<times> sql_value list"
  and sql_eval_all :: "(string \<Rightarrow> string) \<Rightarrow> (string \<Rightarrow> sql_value option) \<Rightarrow> bool \<Rightarrow> sql_cond list \<Rightarrow> sql_value list \<Rightarrow> bool option \<times> sql_value list" where
  "sql_eval coll row (SqlParam c oper) args =
    (case args of a # as \<Rightarrow> (sql_compare coll oper (row c) a, as) | [] \<Rightarrow> (None, []))"
| "sql_eval coll row (SqlEmpty c oper) args = (sql_compare coll oper (row c) (SqlText []), args)"
| "sql_eval coll row (SqlNull c yes) args = (Some ((row c = None) = yes), args)"
| "sql_eval coll row (SqlAnd cs) args = sql_eval_all coll row True cs args"
| "sql_eval coll row (SqlOr cs) args = sql_eval_all coll row False cs args"
| "sql_eval coll row (SqlParen c) args = sql_eval coll row c args"
| "sql_eval_all coll row al [] args = (Some al, args)"
| "sql_eval_all coll row al (c # cs) args =
    (let (a, args) = sql_eval coll row c args; (b, args) = sql_eval_all coll row al cs args in
     (if al then and3 a b else or3 a b, args))"

text \<open>The columns of \<^verbatim>\<open>llm_calls\<close> the conditions use.\<close>

definition call_column :: "llm_call \<Rightarrow> string \<Rightarrow> sql_value option" where
  "call_column c name =
    (if name = ''created_at'' then Some (SqlTime (call_created_at c))
     else if name = ''model'' then Some (SqlText (call_model c))
     else if name = ''provider'' then Some (SqlText (call_provider c))
     else if name = ''api_key_name'' then Some (SqlText (call_api_key_name c))
     else if name = ''http_status'' then Some (SqlInt (call_http_status c))
     else if name = ''error'' then Some (SqlText (call_error c))
     else None)"

text \<open>The trees of the conditions the code builds.\<close>

definition outcome_cond :: "string \<Rightarrow> sql_cond option" where
  "outcome_cond outcome =
    (let st = ''http_status''; er = ''error'' in
     if outcome = ''ok'' then
       Some (SqlAnd [SqlParam st OpGe, SqlParam st OpLt, SqlParen (SqlOr [SqlEmpty er OpEq, SqlNull er True])])
     else if outcome = ''canceled'' then Some (SqlParam er OpEq)
     else if outcome = ''no_response'' then
       Some (SqlAnd [SqlParam st OpEq, SqlParen (SqlOr [SqlNull er True, SqlParam er OpNe])])
     else if outcome = ''error'' then
       Some (SqlAnd [SqlParam st OpNe, SqlParen (SqlOr [SqlParen (SqlOr [SqlParam st OpLt, SqlParam st OpGe]),
         SqlParen (SqlAnd [SqlEmpty er OpNe, SqlNull er False, SqlParam er OpNe])])])
     else None)"

definition filter_conds :: "admin_filter \<Rightarrow> string \<Rightarrow> sql_cond list" where
  "filter_conds f skip =
    (if f_bounded f then [SqlParam ''created_at'' OpGe, SqlParam ''created_at'' OpLt] else []) @
    (if f_model f \<noteq> [] \<and> skip \<noteq> ''model'' then [SqlParam ''model'' OpEq] else []) @
    (if f_provider f \<noteq> [] \<and> skip \<noteq> ''provider'' then [SqlParam ''provider'' OpEq] else []) @
    (if f_api_key f \<noteq> [] \<and> skip \<noteq> ''api_key_name'' then [SqlParam ''api_key_name'' OpEq] else []) @
    (case outcome_cond (f_outcome f) of None \<Rightarrow> [] | Some c \<Rightarrow> [SqlParen c])"

definition selected :: "(string \<Rightarrow> string) \<Rightarrow> admin_filter \<Rightarrow> string \<Rightarrow> llm_call \<Rightarrow> bool" where
  "selected coll f skip c =
    (fst (sql_eval coll (call_column c) (SqlAnd (filter_conds f skip)) (snd (admin_filter_sql f skip))) = Some True)"

subsection \<open>What the filter means\<close>

text \<open>The meaning of the filter, stated on a call.\<close>

definition outcome_matches :: "(string \<Rightarrow> string) \<Rightarrow> string \<Rightarrow> llm_call \<Rightarrow> bool" where
  "outcome_matches coll outcome c =
    (let st = call_http_status c; er = (\<lambda>e. coll (call_error c) = coll e) in
     if outcome = ''ok'' then 200 \<le> st \<and> st < 300 \<and> er []
     else if outcome = ''canceled'' then er ''canceled''
     else if outcome = ''no_response'' then st = 0 \<and> \<not> er ''canceled''
     else if outcome = ''error'' then st \<noteq> 0 \<and> (st < 200 \<or> 300 \<le> st \<or> \<not> er [] \<and> \<not> er ''canceled'')
     else True)"

definition filter_matches :: "(string \<Rightarrow> string) \<Rightarrow> admin_filter \<Rightarrow> string \<Rightarrow> llm_call \<Rightarrow> bool" where
  "filter_matches coll f skip c \<longleftrightarrow>
    (f_bounded f \<longrightarrow> f_from f \<le> call_created_at c \<and> call_created_at c < f_to f) \<and>
    (f_model f \<noteq> [] \<and> skip \<noteq> ''model'' \<longrightarrow> coll (call_model c) = coll (f_model f)) \<and>
    (f_provider f \<noteq> [] \<and> skip \<noteq> ''provider'' \<longrightarrow> coll (call_provider c) = coll (f_provider f)) \<and>
    (f_api_key f \<noteq> [] \<and> skip \<noteq> ''api_key_name'' \<longrightarrow> coll (call_api_key_name c) = coll (f_api_key f)) \<and>
    outcome_matches coll (f_outcome f) c"

lemma outcome_cases:
  obtains "outcome = ''ok''" | "outcome = ''canceled''" | "outcome = ''no_response''" | "outcome = ''error''"
  | "outcome \<notin> {''ok'', ''canceled'', ''no_response'', ''error''}"
  by blast

lemma outcome_sql_text:
  "outcome_sql outcome = (case outcome_cond outcome of None \<Rightarrow> ([], []) | Some c \<Rightarrow> (sql_text c, snd (outcome_sql outcome)))"
proof (cases outcome rule: outcome_cases)
  case 5
  then show ?thesis by (simp only: outcome_sql_def outcome_cond_def Let_def insert_iff empty_iff de_Morgan_disj if_False option.case)
qed (hypsubst, code_simp)+

lemma outcome_cond_readable: "outcome_cond outcome = Some c \<Longrightarrow> sql_readable c \<and> sql_text c \<noteq> []"
  by (auto simp: outcome_cond_def Let_def split: if_splits)

abbreviation filter_args :: "admin_filter \<Rightarrow> string \<Rightarrow> sql_value list" where
  "filter_args f skip \<equiv>
    (if f_bounded f then [SqlTime (f_from f), SqlTime (f_to f)] else []) @
    (if f_model f \<noteq> [] \<and> skip \<noteq> ''model'' then [SqlText (f_model f)] else []) @
    (if f_provider f \<noteq> [] \<and> skip \<noteq> ''provider'' then [SqlText (f_provider f)] else []) @
    (if f_api_key f \<noteq> [] \<and> skip \<noteq> ''api_key_name'' then [SqlText (f_api_key f)] else []) @
    snd (outcome_sql (f_outcome f))"

lemma admin_filter_sql_text:
  "admin_filter_sql f skip = (concat (map (\<lambda>c. '' AND '' @ sql_text c) (filter_conds f skip)), filter_args f skip)"
proof -
  have o: "outcome_cond (f_outcome f) = None \<Longrightarrow> outcome_sql (f_outcome f) = ([], [])"
    "outcome_cond (f_outcome f) = Some c \<Longrightarrow> outcome_sql (f_outcome f) = (sql_text c, snd (outcome_sql (f_outcome f))) \<and> sql_text c \<noteq> []" for c
    using outcome_sql_text [of "f_outcome f"] outcome_cond_readable [of "f_outcome f" c] by auto
  let ?s = "\<lambda>c. '' AND '' @ sql_text c"
  let ?b = "(if f_bounded f then '' AND created_at >= ? AND created_at < ?'' else []) @
    (if f_model f \<noteq> [] \<and> skip \<noteq> ''model'' then '' AND model = ?'' else []) @
    (if f_provider f \<noteq> [] \<and> skip \<noteq> ''provider'' then '' AND provider = ?'' else []) @
    (if f_api_key f \<noteq> [] \<and> skip \<noteq> ''api_key_name'' then '' AND api_key_name = ?'' else [])"
  let ?a = "(if f_bounded f then [SqlTime (f_from f), SqlTime (f_to f)] else []) @
    (if f_model f \<noteq> [] \<and> skip \<noteq> ''model'' then [SqlText (f_model f)] else []) @
    (if f_provider f \<noteq> [] \<and> skip \<noteq> ''provider'' then [SqlText (f_provider f)] else []) @
    (if f_api_key f \<noteq> [] \<and> skip \<noteq> ''api_key_name'' then [SqlText (f_api_key f)] else [])"
  have part: "(if c then (b @ t, args @ as) else (b, args)) = (b @ (if c then t else []), args @ (if c then as else []))"
    for c and b t :: string and args as :: "sql_value list" by simp
  have e: "admin_filter_sql f skip = (case outcome_sql (f_outcome f) of (clause, cargs) \<Rightarrow>
      (?b @ (if clause \<noteq> [] then '' AND ('' @ clause @ '')'' else []), ?a @ (if clause \<noteq> [] then cargs else [])))"
    unfolding admin_filter_sql_def Let_def part prod.case append_Nil append_assoc ..
  have texts: "'' AND '' @ sql_text (SqlParam ''created_at'' OpGe) @ '' AND '' @ sql_text (SqlParam ''created_at'' OpLt) =
      '' AND created_at >= ? AND created_at < ?''"
    "?s (SqlParam ''model'' OpEq) = '' AND model = ?''" "?s (SqlParam ''provider'' OpEq) = '' AND provider = ?''"
    "?s (SqlParam ''api_key_name'' OpEq) = '' AND api_key_name = ?''" by simp_all
  have ifs: "concat (map g (if c then [x] else [])) = (if c then g x else [])"
    "concat (map g (if c then [x, y] else [])) = (if c then g x @ g y else [])" for c and x y :: sql_cond and g :: "sql_cond \<Rightarrow> string"
    by simp_all
  have b: "concat (map ?s (filter_conds f skip)) =
      ?b @ concat (map ?s (case outcome_cond (f_outcome f) of None \<Rightarrow> [] | Some c \<Rightarrow> [SqlParen c]))"
    unfolding filter_conds_def map_append concat_append ifs append_assoc texts ..
  show ?thesis
  proof (cases "outcome_cond (f_outcome f)")
    case None
    show ?thesis unfolding e b None o(1) [OF None] by simp
  next
    case (Some c)
    then show ?thesis unfolding e b using o(2) [OF Some] by (cases "outcome_sql (f_outcome f)") auto
  qed
qed

subsection \<open>The conditions select what the filter means\<close>

lemma and3_simps [simp]: "and3 (Some True) b = b" "and3 b (Some True) = b" "and3 (Some False) b = Some False"
  "and3 b (Some False) = Some False"
  by (auto simp: and3_def)

lemma or3_simps [simp]: "or3 (Some False) b = b" "or3 b (Some False) = b" "or3 (Some True) b = Some True"
  "or3 b (Some True) = Some True"
  by (auto simp: or3_def)

lemma and3_assoc: "and3 (and3 a b) c = and3 a (and3 b c)"
  by (auto simp: and3_def)

lemma and3_Some: "and3 (Some p) (Some q) = Some (p \<and> q)"
  by (simp add: and3_def)

lemma or3_Some: "or3 (Some p) (Some q) = Some (p \<or> q)"
  by (simp add: or3_def)

text \<open>A list of conditions whose value is \<open>p\<close> when it is given the parameters \<open>as\<close>, which it uses up.\<close>

definition decides :: "(string \<Rightarrow> string) \<Rightarrow> llm_call \<Rightarrow> sql_cond list \<Rightarrow> sql_value list \<Rightarrow> bool \<Rightarrow> bool" where
  "decides coll c cs as p \<longleftrightarrow> (\<forall>rest. sql_eval_all coll (call_column c) True cs (as @ rest) = (Some p, rest))"

lemma eval_all_append:
  "sql_eval_all coll row True (cs @ ds) args =
    (case sql_eval_all coll row True cs args of (a, args') \<Rightarrow>
      case sql_eval_all coll row True ds args' of (b, args'') \<Rightarrow> (and3 a b, args''))"
  by (induction cs arbitrary: args) (auto simp: and3_assoc split: prod.splits)

lemma decides_append: "decides coll c cs as p \<Longrightarrow> decides coll c ds bs q \<Longrightarrow> decides coll c (cs @ ds) (as @ bs) (p \<and> q)"
  by (simp add: decides_def eval_all_append and3_Some)

lemma decides_if: "(cond \<Longrightarrow> decides coll c cs as p) \<Longrightarrow> decides coll c (if cond then cs else []) (if cond then as else []) (cond \<longrightarrow> p)"
  by (simp add: decides_def)

lemma decides_text:
  "call_column c name = Some (SqlText v) \<Longrightarrow> decides coll c [SqlParam name OpEq] [SqlText w] (coll v = coll w)"
  by (simp add: decides_def and3_Some)

lemma decides_outcome:
  "decides coll c (case outcome_cond outcome of None \<Rightarrow> [] | Some d \<Rightarrow> [SqlParen d]) (snd (outcome_sql outcome))
    (outcome_matches coll outcome c)"
  by (cases outcome rule: outcome_cases)
    (auto simp: decides_def outcome_cond_def outcome_sql_def outcome_matches_def call_column_def Let_def and3_Some or3_Some)

lemma filter_decided: "decides coll c (filter_conds f skip) (filter_args f skip) (filter_matches coll f skip c)"
proof -
  have "decides coll c (filter_conds f skip) (filter_args f skip)
      ((f_bounded f \<longrightarrow> f_from f \<le> call_created_at c \<and> call_created_at c < f_to f) \<and>
       (f_model f \<noteq> [] \<and> skip \<noteq> ''model'' \<longrightarrow> coll (call_model c) = coll (f_model f)) \<and>
       (f_provider f \<noteq> [] \<and> skip \<noteq> ''provider'' \<longrightarrow> coll (call_provider c) = coll (f_provider f)) \<and>
       (f_api_key f \<noteq> [] \<and> skip \<noteq> ''api_key_name'' \<longrightarrow> coll (call_api_key_name c) = coll (f_api_key f)) \<and>
       outcome_matches coll (f_outcome f) c)"
    unfolding filter_conds_def
    by (intro decides_append decides_if decides_outcome decides_text)
      (simp_all add: decides_def call_column_def and3_Some)
  then show ?thesis unfolding filter_matches_def .
qed

lemma selected_iff: "selected coll f skip c \<longleftrightarrow> filter_matches coll f skip c"
  using filter_decided [of coll c f skip, unfolded decides_def, rule_format, of "[]"]
  by (simp add: selected_def admin_filter_sql_text)

subsection \<open>The queries\<close>

datatype admin_query = QCount | QList | QSeries | QDistinct string | QCall | QCallFiles | QFile

type_synonym query_errors = "admin_query \<Rightarrow> string option"

record call_list_row =
  row_id :: nat
  row_created_at :: int
  row_model :: string
  row_provider :: string
  row_api_key_name :: string
  row_input_tokens :: int64
  row_output_tokens :: int64
  row_cache_tokens :: int64
  row_first_token_ms :: int
  row_output_speed :: "(int64 \<times> int) option"
  row_http_status :: int
  row_error :: string
  row_has_detail :: bool

definition list_row :: "nat \<times> llm_call \<Rightarrow> call_list_row" where
  "list_row = (\<lambda>(cid, c).
    \<lparr>row_id = cid, row_created_at = call_created_at c, row_model = call_model c, row_provider = call_provider c,
     row_api_key_name = call_api_key_name c, row_input_tokens = call_input_tokens c,
     row_output_tokens = call_output_tokens c, row_cache_tokens = call_cache_tokens c,
     row_first_token_ms = call_first_token_ms c, row_output_speed = call_output_speed c,
     row_http_status = call_http_status c, row_error = call_error c,
     row_has_detail = (call_request_json c \<noteq> None \<or> call_response_json c \<noteq> None)\<rparr>)"

text \<open>The rows of \<^verbatim>\<open>llm_calls\<close> the filter selects, and \<^verbatim>\<open>ORDER BY id DESC\<close>.\<close>

definition selected_calls :: "(string \<Rightarrow> string) \<Rightarrow> admin_filter \<Rightarrow> string \<Rightarrow> tables \<Rightarrow> (nat \<times> llm_call) list" where
  "selected_calls coll f skip t = filter (\<lambda>(cid, c). selected coll f skip c) (llm_calls t)"

definition newest_first :: "(nat \<times> llm_call) list \<Rightarrow> (nat \<times> llm_call) list" where
  "newest_first cs = rev (sort_key fst cs)"

definition list_calls ::
  "(string \<Rightarrow> string) \<Rightarrow> query_errors \<Rightarrow> tables \<Rightarrow> admin_filter \<Rightarrow> nat \<Rightarrow> nat \<Rightarrow> string + (call_list_row list \<times> nat)" where
  "list_calls coll err t f offset limit =
    (case err QCount of
       Some e \<Rightarrow> Inl e
     | None \<Rightarrow>
         let cs = selected_calls coll f [] t in
         (case err QList of
            Some e \<Rightarrow> Inl e
          | None \<Rightarrow> Inr (map list_row (take limit (drop offset (newest_first cs))), length cs)))"

definition admin_distinct_limit :: nat where
  "admin_distinct_limit = 200"

text \<open>\<^verbatim>\<open>SELECT DISTINCT col ... ORDER BY col\<close>: one text for each key of the collation.\<close>

fun distinct_by :: "('a \<Rightarrow> 'b) \<Rightarrow> 'b list \<Rightarrow> 'a list \<Rightarrow> 'a list" where
  "distinct_by g seen [] = []"
| "distinct_by g seen (x # xs) =
    (if g x \<in> set seen then distinct_by g seen xs else x # distinct_by g (g x # seen) xs)"

definition column_text :: "llm_call \<Rightarrow> string \<Rightarrow> string" where
  "column_text c col = (case call_column c col of Some (SqlText s) \<Rightarrow> s | _ \<Rightarrow> [])"

definition query_distinct ::
  "(string \<Rightarrow> string) \<Rightarrow> query_errors \<Rightarrow> tables \<Rightarrow> admin_filter \<Rightarrow> string \<Rightarrow> string + string list" where
  "query_distinct coll err t f col =
    (if col \<notin> {''model'', ''provider'', ''api_key_name''} then Inr []
     else
       (case err (QDistinct col) of
          Some e \<Rightarrow> Inl e
        | None \<Rightarrow>
            Inr (take admin_distinct_limit
              (sort_key coll (distinct_by coll [] (map (\<lambda>(cid, c). column_text c col) (selected_calls coll f col t)))))))"

record filter_options =
  o_models :: "string list"
  o_providers :: "string list"
  o_keys :: "string list"

definition query_filter_options ::
  "(string \<Rightarrow> string) \<Rightarrow> query_errors \<Rightarrow> tables \<Rightarrow> admin_filter \<Rightarrow> string + filter_options" where
  "query_filter_options coll err t f =
    (case query_distinct coll err t f ''model'' of
       Inl e \<Rightarrow> Inl e
     | Inr ms \<Rightarrow>
         (case query_distinct coll err t f ''provider'' of
            Inl e \<Rightarrow> Inl e
          | Inr ps \<Rightarrow>
              (case query_distinct coll err t f ''api_key_name'' of
                 Inl e \<Rightarrow> Inl e
               | Inr ks \<Rightarrow> Inr \<lparr>o_models = ms, o_providers = ps, o_keys = ks\<rparr>)))"

subsection \<open>The usage series\<close>

text \<open>
  \<^verbatim>\<open>DATE_FORMAT\<close> in the time zone \<^verbatim>\<open>UTC\<close> of the connection, for the specifiers the code uses.
\<close>

fun date_format :: "string \<Rightarrow> int \<Rightarrow> string" where
  "date_format [] t = []"
| "date_format [c] t = [c]"
| "date_format (p # c # s) t =
    (if p \<noteq> CHR 0x25 then p # date_format (c # s) t
     else
       (case civil (day_of t) of (y, m, d) \<Rightarrow>
         case iso_week (day_of t) of (wy, w) \<Rightarrow>
           if c = CHR ''Y'' then pad_int 4 y
           else if c = CHR ''m'' then pad_int 2 m
           else if c = CHR ''d'' then pad_int 2 d
           else if c = CHR ''H'' then pad_int 2 (hour_of t)
           else if c = CHR ''x'' then pad_int 4 wy
           else if c = CHR ''v'' then pad_int 2 w
           else [c]) @ date_format s t)"

definition bucket_sql_format :: "string \<Rightarrow> string" where
  "bucket_sql_format bucket =
    (if bucket = ''hour'' then ''%Y-%m-%d %H:00'' else if bucket = ''week'' then ''%x-W%v'' else ''%Y-%m-%d'')"

text \<open>
  A row of the series. The two averages are kept as the list of the values they are taken over, which
  leaves out zeros; the empty list stands for 0.
\<close>

record usage_bucket =
  u_bucket :: string
  u_calls :: int
  u_input :: int
  u_output :: int
  u_cache :: int
  u_uncached :: int
  u_first_token_ms :: "int list"
  u_output_speed :: "(int64 \<times> int) list"

definition sum_of :: "(llm_call \<Rightarrow> int64) \<Rightarrow> llm_call list \<Rightarrow> int" where
  "sum_of g cs = sum_list (map (\<lambda>c. sint (g c)) cs)"

definition bucket_row :: "string \<Rightarrow> llm_call list \<Rightarrow> usage_bucket" where
  "bucket_row label cs =
    \<lparr>u_bucket = label, u_calls = int (length cs), u_input = sum_of call_input_tokens cs,
     u_output = sum_of call_output_tokens cs, u_cache = sum_of call_cache_tokens cs,
     u_uncached = sum_of call_uncached_tokens cs,
     u_first_token_ms = filter (\<lambda>v. v \<noteq> 0) (map call_first_token_ms cs),
     u_output_speed = List.map_filter call_output_speed cs\<rparr>"

definition query_usage_series ::
  "(string \<Rightarrow> string) \<Rightarrow> query_errors \<Rightarrow> tables \<Rightarrow> admin_filter \<Rightarrow> string + usage_bucket list" where
  "query_usage_series coll err t f =
    (case err QSeries of
       Some e \<Rightarrow> Inl e
     | None \<Rightarrow>
         let cs = map snd (selected_calls coll f [] t);
             label = (\<lambda>c. date_format (bucket_sql_format (f_bucket f)) (call_created_at c)) in
         Inr (map (\<lambda>l. bucket_row l (filter (\<lambda>c. label c = l) cs)) (sort (remdups (map label cs)))))"

subsection \<open>The chart's buckets\<close>

definition truncate_to_bucket :: "int \<Rightarrow> string \<Rightarrow> int" where
  "truncate_to_bucket t bucket =
    (case civil (day_of t) of (y, m, d) \<Rightarrow>
      if bucket = ''hour'' then date_day y m d * day_ns + hour_of t * hour_ns
      else if bucket = ''week'' then
        (let wd = weekday (day_of t); off = (if wd = 0 then 6 else wd - 1) in (date_day y m d - off) * day_ns)
      else date_day y m d * day_ns)"

text \<open>\<^verbatim>\<open>Add\<close> and \<^verbatim>\<open>AddDate\<close>: days of UTC have 24 hours.\<close>

definition next_bucket :: "int \<Rightarrow> string \<Rightarrow> int" where
  "next_bucket t bucket =
    (if bucket = ''hour'' then t + hour_ns else if bucket = ''week'' then t + 7 * day_ns else t + day_ns)"

text \<open>\<^verbatim>\<open>%04d\<close> counts the sign of a negative number in its width.\<close>

definition fmt_04d :: "int \<Rightarrow> string" where
  "fmt_04d i = (if i < 0 then pad_int 3 i else pad_int 4 i)"

definition bucket_label :: "int \<Rightarrow> string \<Rightarrow> string" where
  "bucket_label t bucket =
    (if bucket = ''hour'' then format_hour t
     else if bucket = ''week'' then
       (case iso_week (day_of t) of (y, w) \<Rightarrow> fmt_04d y @ ''-W'' @ pad_int 2 w)
     else format_date t)"

lemma next_bucket_later: "t < next_bucket t bucket"
  by (simp add: next_bucket_def day_ns_def hour_ns_def second_ns_def)

function bucket_starts :: "int \<Rightarrow> int \<Rightarrow> string \<Rightarrow> int list" where
  "bucket_starts t to bucket = (if t < to then t # bucket_starts (next_bucket t bucket) to bucket else [])"
  by pat_completeness auto
termination
  by (relation "measure (\<lambda>(t, to, bucket). nat (to - t))")
    (auto simp: next_bucket_later intro: diff_strict_left_mono)

declare bucket_starts.simps [simp del]

definition empty_bucket :: "string \<Rightarrow> usage_bucket" where
  "empty_bucket label = bucket_row label []"

definition fill_usage_buckets :: "admin_window \<Rightarrow> usage_bucket list \<Rightarrow> usage_bucket list" where
  "fill_usage_buckets win rows =
    (let by_label = map_from (map (\<lambda>r. (u_bucket r, r)) rows) in
     if w_from win = zero_time \<or> \<not> w_from win < w_to win then rows
     else
       map (\<lambda>t. let label = bucket_label t (w_bucket win) in the_or (empty_bucket label) (map_of by_label label))
         (bucket_starts (truncate_to_bucket (w_from win) (w_bucket win)) (w_to win) (w_bucket win)))"

subsection \<open>Buckets are a grid\<close>

definition bucket_length :: "string \<Rightarrow> int" where
  "bucket_length bucket = (if bucket = ''hour'' then hour_ns else if bucket = ''week'' then 7 * day_ns else day_ns)"

definition bucket_offset :: "string \<Rightarrow> int" where
  "bucket_offset bucket = (if bucket = ''week'' then 3 * day_ns else 0)"

lemma bucket_length_pos: "0 < bucket_length bucket"
  by (simp add: bucket_length_def day_ns_def hour_ns_def second_ns_def)

lemma next_bucket_length: "next_bucket t bucket = t + bucket_length bucket"
  by (simp add: next_bucket_def bucket_length_def)

lemma civil_date_day: "civil day = (y, m, d) \<Longrightarrow> date_day y m d = day"
  by (rule civil_day(1))

lemma hours_of_day: "day_of t * day_ns + hour_of t * hour_ns = t div hour_ns * hour_ns"
proof -
  have "t div hour_ns * hour_ns + t mod hour_ns = t" by simp
  moreover have "t mod day_ns = hour_of t * hour_ns + t mod hour_ns"
    using mod_split [of 24 hour_ns t] by (simp add: hour_of_def day_ns_def hour_ns_def second_ns_def)
  moreover have "day_of t * day_ns + t mod day_ns = t" by (simp add: day_of_def)
  ultimately show ?thesis by linarith
qed

lemma week_grid: "week_start (day_of t) * day_ns = (t + 3 * day_ns) div (7 * day_ns) * (7 * day_ns) - 3 * day_ns"
proof -
  have p: "0 < day_ns" by (simp add: day_ns_def hour_ns_def second_ns_def)
  have "(t + 3 * day_ns) div day_ns = day_of t + 3" using p by (simp add: day_of_def)
  moreover have "(t + 3 * day_ns) div (7 * day_ns) = (t + 3 * day_ns) div day_ns div 7"
    by (metis mult.commute p order.strict_implies_order zdiv_zmult2_eq zero_le_numeral)
  moreover have "week_start (day_of t) = (day_of t + 3) div 7 * 7 - 3"
    using div_mult_mod_eq [of "day_of t + 3" 7] unfolding week_start_def by linarith
  moreover have "(q * 7 - 3) * day_ns = q * (7 * day_ns) - 3 * day_ns" for q
    by (simp add: algebra_simps)
  ultimately show ?thesis by simp
qed

lemma weekday_offset: "day - (if weekday day = 0 then 6 else weekday day - 1) = week_start day"
proof -
  define a where "a = (day + 3) mod 7"
  have a: "0 \<le> a" "a < 7" by (simp_all add: a_def)
  have "weekday day = (a + 1) mod 7" unfolding weekday_def a_def mod_add_left_eq by (simp add: add.commute)
  moreover have "(a + 1) mod 7 = (if a = 6 then 0 else a + 1)" using a by auto
  ultimately show ?thesis using a by (auto simp: week_start_def a_def [symmetric])
qed

lemma truncate_grid:
  "truncate_to_bucket t bucket =
    (t + bucket_offset bucket) div bucket_length bucket * bucket_length bucket - bucket_offset bucket"
proof -
  obtain y m d where c: "civil (day_of t) = (y, m, d)" by (metis prod_cases3)
  note dd = civil_date_day [OF c]
  consider "bucket = ''hour''" | "bucket = ''week''" "bucket \<noteq> ''hour''" | "bucket \<noteq> ''hour''" "bucket \<noteq> ''week''" by blast
  then show ?thesis
  proof cases
    case 1
    then show ?thesis
      using hours_of_day [of t] by (simp add: truncate_to_bucket_def c dd bucket_length_def bucket_offset_def)
  next
    case 2
    then show ?thesis
      using week_grid [of t] weekday_offset [of "day_of t"]
      by (simp only: truncate_to_bucket_def c dd bucket_length_def bucket_offset_def Let_def prod.case if_True if_False simp_thms)
  next
    case 3
    then show ?thesis by (simp add: truncate_to_bucket_def c dd bucket_length_def bucket_offset_def) (simp add: day_of_def)
  qed
qed

lemma grid_mem: "0 < (l :: int) \<Longrightarrow> s \<le> x \<Longrightarrow> x < s + l \<Longrightarrow> (s + off) mod l = 0 \<Longrightarrow> (x + off) div l * l - off = s"
proof -
  assume a: "0 < l" "s \<le> x" "x < s + l" "(s + off) mod l = 0"
  define q where "q = (s + off) div l"
  have "s + off = l * q" using a(4) by (auto simp: q_def)
  moreover from this have "(x + off) div l = q"
    using a(2,3) by (intro int_div_pos_eq [where r = "x - s"]) auto
  ultimately show ?thesis by (simp add: algebra_simps)
qed

lemma truncate_bounds: "truncate_to_bucket t bucket \<le> t" "t < next_bucket (truncate_to_bucket t bucket) bucket"
proof -
  let ?l = "bucket_length bucket" and ?x = "t + bucket_offset bucket"
  have "?x div ?l * ?l + ?x mod ?l = ?x" by simp
  moreover have "0 \<le> ?x mod ?l" "?x mod ?l < ?l" using bucket_length_pos by simp_all
  ultimately show "truncate_to_bucket t bucket \<le> t" "t < next_bucket (truncate_to_bucket t bucket) bucket"
    unfolding truncate_grid next_bucket_length by linarith+
qed

text \<open>The start of a bucket.\<close>

definition bucket_start :: "string \<Rightarrow> int \<Rightarrow> bool" where
  "bucket_start bucket s \<longleftrightarrow> (s + bucket_offset bucket) mod bucket_length bucket = 0"

lemma truncate_start: "bucket_start bucket (truncate_to_bucket t bucket)"
  by (simp add: bucket_start_def truncate_grid)

lemma next_start: "bucket_start bucket s \<Longrightarrow> bucket_start bucket (next_bucket s bucket)"
  by (metis bucket_start_def next_bucket_length add.assoc add.commute mod_add_self2)

lemma truncate_iff:
  assumes "bucket_start bucket s"
  shows "truncate_to_bucket t bucket = s \<longleftrightarrow> s \<le> t \<and> t < next_bucket s bucket"
  using truncate_bounds [of t bucket] grid_mem [OF bucket_length_pos, of s t] assms
  by (auto simp: bucket_start_def truncate_grid next_bucket_length)

lemma truncate_self: "bucket_start bucket s \<Longrightarrow> truncate_to_bucket s bucket = s"
  by (simp add: truncate_iff next_bucket_later)

subsection \<open>Labels name buckets\<close>

lemma year_between: "new_year (year_of t) \<le> day_of t" "day_of t < new_year (year_of t + 1)"
proof -
  obtain d where d: "year_yday (day_of t) = (year_of t, d)" by (cases "year_yday (day_of t)") (simp add: year_of_def)
  from year_yday_bounds [OF d] new_year_step [of "year_of t"]
  show "new_year (year_of t) \<le> day_of t" "day_of t < new_year (year_of t + 1)" by linarith+
qed

lemma day_of_mono: "t \<le> u \<Longrightarrow> day_of t \<le> day_of u"
  by (simp add: day_of_def day_ns_def hour_ns_def second_ns_def zdiv_mono1)

text \<open>After the zero time the labels of days and weeks have no sign.\<close>

lemma zero_day: "day_of zero_time = new_year 1"
  by (simp add: day_of_def zero_time_def new_year_def day_ns_def hour_ns_def second_ns_def)

lemma positive_year: "new_year 1 \<le> day_of t \<Longrightarrow> 1 \<le> year_of t"
proof (rule ccontr)
  assume a: "new_year 1 \<le> day_of t" "\<not> 1 \<le> year_of t"
  then have "new_year (year_of t + 1) \<le> new_year 1" by (intro new_year_mono) simp
  with a(1) year_between(2) [of t] show False by linarith
qed

lemma positive_iso_year: "new_year 1 \<le> day \<Longrightarrow> 0 \<le> fst (iso_week day)"
proof -
  assume d: "new_year 1 \<le> day"
  obtain y e where y: "year_yday (week_start day + 3) = (y, e)" by (cases "year_yday (week_start day + 3)")
  note b = year_yday_bounds [OF y]
  have "day - 6 \<le> week_start day" by (simp add: week_start_def)
  then have "new_year 1 - 3 \<le> new_year y + e" using b(1) d by linarith
  moreover have "new_year 1 = new_year 0 + 366" using new_year_step [of 0] by (simp add: leap_def)
  moreover have "new_year y + e < new_year (y + 1)" using b(3) new_year_step [of y] by simp
  ultimately have "new_year 0 < new_year (y + 1)" by linarith
  then have "\<not> y + 1 \<le> 0" using new_year_mono [of "y + 1" 0] by linarith
  then show ?thesis by (simp add: iso_week_thursday y)
qed

lemma date_format_label:
  assumes "new_year 1 \<le> day_of t"
  shows "date_format (bucket_sql_format bucket) t = bucket_label t bucket"
proof -
  obtain y m d where c: "civil (day_of t) = (y, m, d)" by (metis prod_cases3)
  obtain wy w where w: "iso_week (day_of t) = (wy, w)" by (cases "iso_week (day_of t)")
  with positive_iso_year [OF assms] have "0 \<le> wy" by simp
  with c w show ?thesis
    by (simp add: bucket_sql_format_def bucket_label_def format_hour_def format_date_def fmt_04d_def)
qed

lemma hour_split: "t div hour_ns = u div hour_ns \<longleftrightarrow> day_of t = day_of u \<and> hour_of t = hour_of u"
proof
  assume e: "t div hour_ns = u div hour_ns"
  have pos: "0 < hour_ns" by (simp add: hour_ns_def second_ns_def)
  have dn: "day_ns = hour_ns * 24" by (simp add: day_ns_def)
  have "x div hour_ns div 24 = day_of x" for x
    unfolding day_of_def dn by (rule zdiv_zmult2_eq [symmetric]) simp
  moreover have "x div hour_ns mod 24 = hour_of x" for x
  proof -
    have "x mod day_ns = hour_ns * (x div hour_ns mod 24) + x mod hour_ns"
      unfolding dn by (rule zmod_zmult2_eq) simp
    then show ?thesis using pos
      unfolding hour_of_def by (intro int_div_pos_eq [symmetric, where r = "x mod hour_ns"]) simp_all
  qed
  ultimately show "day_of t = day_of u \<and> hour_of t = hour_of u" using e by metis
next
  assume "day_of t = day_of u \<and> hour_of t = hour_of u"
  then have "t div hour_ns * hour_ns = u div hour_ns * hour_ns" using hours_of_day by metis
  then show "t div hour_ns = u div hour_ns" by (simp add: hour_ns_def second_ns_def)
qed

lemma format_date_chars: "0 \<le> year_of t \<Longrightarrow> CHR '' '' \<notin> set (format_date t)"
proof -
  assume y: "0 \<le> year_of t"
  obtain a m d where c: "civil (day_of t) = (a, m, d)" by (metis prod_cases3)
  with civil_year [OF c] y civil_day(2,4) [OF c] show ?thesis
    by (simp add: format_date_def pad_int_no not_digits)
qed

lemma format_hour_inject:
  assumes "0 \<le> year_of t" "0 \<le> year_of u"
  shows "format_hour t = format_hour u \<longleftrightarrow> t div hour_ns = u div hour_ns"
proof -
  have "format_hour t = format_hour u \<longleftrightarrow>
      format_date t = format_date u \<and> pad_int 2 (hour_of t) @ '':00'' = pad_int 2 (hour_of u) @ '':00''"
    using split_at_char [OF format_date_chars [OF assms(1)] format_date_chars [OF assms(2)]]
    by (simp add: format_hour_def)
  also have "\<dots> \<longleftrightarrow> day_of t = day_of u \<and> hour_of t = hour_of u"
    using format_date_inject [OF assms] clock_bounds(1) [of t] clock_bounds(1) [of u] by (simp add: pad_int_inject)
  finally show ?thesis by (simp add: hour_split)
qed

lemma iso_label_inject:
  assumes "new_year 1 \<le> day" "new_year 1 \<le> day'"
    "iso_week day = (y, w)" "iso_week day' = (y', w')"
  shows "fmt_04d y @ ''-W'' @ pad_int 2 w = fmt_04d y' @ ''-W'' @ pad_int 2 w' \<longleftrightarrow> week_start day = week_start day'"
proof -
  have y: "0 \<le> y" "0 \<le> y'" using positive_iso_year assms by fastforce+
  have w: "0 \<le> w" "0 \<le> w'" using iso_week_bounds assms(3,4) by fastforce+
  have "fmt_04d y @ ''-W'' @ pad_int 2 w = fmt_04d y' @ ''-W'' @ pad_int 2 w' \<longleftrightarrow> y = y' \<and> w = w'"
    using y w by (simp add: fmt_04d_def split_at_char pad_int_no not_digits pad_int_inject)
  also have "\<dots> \<longleftrightarrow> week_start day = week_start day'"
    using iso_week_inject [of day day'] assms(3,4) by simp
  finally show ?thesis .
qed

lemma bucket_label_inject:
  assumes "new_year 1 \<le> day_of t" "new_year 1 \<le> day_of u"
  shows "bucket_label t bucket = bucket_label u bucket \<longleftrightarrow> truncate_to_bucket t bucket = truncate_to_bucket u bucket"
proof -
  have y: "0 \<le> year_of t" "0 \<le> year_of u" using positive_year [OF assms(1)] positive_year [OF assms(2)] by simp_all
  have pos: "hour_ns \<noteq> 0" "day_ns \<noteq> 0" by (simp_all add: day_ns_def hour_ns_def second_ns_def)
  consider "bucket = ''hour''" | "bucket = ''week''" "bucket \<noteq> ''hour''" | "bucket \<noteq> ''hour''" "bucket \<noteq> ''week''" by blast
  then show ?thesis
  proof cases
    case 1
    then show ?thesis
      using pos format_hour_inject [OF y] by (simp add: bucket_label_def truncate_grid bucket_length_def bucket_offset_def)
  next
    case 2
    obtain a w b v where i: "iso_week (day_of t) = (a, w)" "iso_week (day_of u) = (b, v)" by (metis prod.exhaust)
    have "truncate_to_bucket x bucket = week_start (day_of x) * day_ns" for x
      using 2 week_grid [of x] by (simp only: truncate_grid bucket_length_def bucket_offset_def if_True if_False simp_thms)
    with iso_label_inject [OF assms i] show ?thesis
      using 2 pos by (simp add: bucket_label_def i)
  next
    case 3
    then show ?thesis
      using pos format_date_inject [OF y]
      by (simp add: bucket_label_def truncate_grid bucket_length_def bucket_offset_def) (simp add: day_of_def)
  qed
qed

subsection \<open>The buckets of a window\<close>

lemma bucket_starts_props:
  assumes "bucket_start bucket t"
  shows "sorted_wrt (<) (bucket_starts t to bucket)"
    "set (bucket_starts t to bucket) = {s. bucket_start bucket s \<and> t \<le> s \<and> s < to}"
  using assms
proof (induction t to bucket rule: bucket_starts.induct)
  case (1 t to bucket)
  let ?n = "next_bucket t bucket"
  {
    case 1
    show ?case
    proof (cases "t < to")
      case True
      then show ?thesis using "1.IH"(1,2) [OF True next_start [OF 1]] next_bucket_later [of t bucket]
        by (subst bucket_starts.simps) auto
    qed (simp add: bucket_starts.simps)
  next
    case 2
    show ?case
    proof (cases "t < to")
      case True
      have "s = t" if "bucket_start bucket s" "t \<le> s" "\<not> ?n \<le> s" for s
        using that truncate_iff [OF 2, of s] truncate_self [of bucket s] by auto
      then show ?thesis using "1.IH"(2) [OF True next_start [OF 2]] next_bucket_later [of t bucket] True 2
        by (subst bucket_starts.simps) fastforce
    qed (auto simp: bucket_starts.simps)
  }
qed

lemma bucket_starts_length:
  "int (length (bucket_starts t to bucket)) \<le> max 0 ((to - t - 1) div bucket_length bucket + 1)"
proof (induction t to bucket rule: bucket_starts.induct)
  case (1 t to bucket)
  show ?case
  proof (cases "t < to")
    case True
    let ?l = "bucket_length bucket"
    have "(to - t - 1) div ?l = (to - next_bucket t bucket - 1) div ?l + 1"
      using bucket_length_pos [of bucket] div_add_self2 [of ?l "to - next_bucket t bucket - 1"]
      by (simp add: next_bucket_length algebra_simps)
    moreover have "0 \<le> (to - t - 1) div ?l" using True bucket_length_pos [of bucket] by (simp add: pos_imp_zdiv_nonneg_iff)
    ultimately show ?thesis using "1.IH" [OF True] True by (subst bucket_starts.simps) auto
  qed (simp add: bucket_starts.simps)
qed

text \<open>Sums over a partition.\<close>

lemma sum_partition:
  assumes "distinct ss" "\<forall>c \<in> set cs. \<exists>!s. s \<in> set ss \<and> P s c"
  shows "sum_list (map (\<lambda>s. sum_list (map g (filter (P s) cs))) ss) = (sum_list (map g cs) :: int)"
  using assms(2)
proof (induction cs)
  case (Cons c cs)
  then obtain s where s: "s \<in> set ss" "P s c" "\<forall>x \<in> set ss. P x c \<longleftrightarrow> x = s" by auto
  have "sum_list (map (\<lambda>x. if P x c then g c else 0) ss) = sum_list (map (\<lambda>x. if x = s then g c else 0) ss)"
    using s(3) by (intro arg_cong [of _ _ sum_list] map_cong) auto
  also have "\<dots> = g c" using s(1) assms(1) by (simp add: sum_list_distinct_conv_sum_set sum.delta)
  finally have one: "sum_list (map (\<lambda>x. if P x c then g c else 0) ss) = g c" .
  have "sum_list (map (\<lambda>x. sum_list (map g (filter (P x) (c # cs)))) ss) =
      sum_list (map (\<lambda>x. (if P x c then g c else 0) + sum_list (map g (filter (P x) cs))) ss)"
    by (intro arg_cong [of _ _ sum_list] map_cong) auto
  also have "\<dots> = g c + sum_list (map g cs)"
    using Cons one by (simp add: sum_list_addf)
  finally show ?case by simp
qed simp

lemma map_of_tagged: "distinct ls \<Longrightarrow> map_of (map (\<lambda>l. (l, h l)) ls) l = (if l \<in> set ls then Some (h l) else None)"
  by (induction ls) auto

text \<open>The row of a label, whether or not the series has it.\<close>

lemma series_lookup:
  fixes cs :: "llm_call list" and label :: "llm_call \<Rightarrow> string"
  defines "rows \<equiv> map (\<lambda>l. bucket_row l (filter (\<lambda>c. label c = l) cs)) (sort (remdups (map label cs)))"
  shows "the_or (empty_bucket l) (map_of (map_from (map (\<lambda>r. (u_bucket r, r)) rows)) l) =
    bucket_row l (filter (\<lambda>c. label c = l) cs)"
proof -
  let ?ls = "sort (remdups (map label cs))"
  have d: "distinct ?ls" by simp
  have "map (\<lambda>r. (u_bucket r, r)) rows = map (\<lambda>l. (l, bucket_row l (filter (\<lambda>c. label c = l) cs))) ?ls"
    by (simp add: rows_def bucket_row_def)
  then have "map_of (map_from (map (\<lambda>r. (u_bucket r, r)) rows)) l =
      (if l \<in> set ?ls then Some (bucket_row l (filter (\<lambda>c. label c = l) cs)) else None)"
    using d by (simp only: map_of_map_from) (subst map_of_rev_distinct; simp add: comp_def map_of_tagged)
  moreover have "l \<notin> set ?ls \<Longrightarrow> filter (\<lambda>c. label c = l) cs = []" by (auto simp: filter_empty_conv)
  ultimately show ?thesis by (auto simp: empty_bucket_def)
qed

definition bucket_calls :: "string \<Rightarrow> int \<Rightarrow> llm_call list \<Rightarrow> llm_call list" where
  "bucket_calls bucket s cs = filter (\<lambda>c. s \<le> call_created_at c \<and> call_created_at c < next_bucket s bucket) cs"

lemma zero_time_start: "bucket_start bucket zero_time"
  by (simp add: bucket_start_def bucket_offset_def bucket_length_def zero_time_def day_ns_def hour_ns_def second_ns_def)

lemma truncate_after_zero: "zero_time \<le> t \<Longrightarrow> zero_time \<le> truncate_to_bucket t bucket"
proof -
  assume "zero_time \<le> t"
  then have "truncate_to_bucket zero_time bucket \<le> truncate_to_bucket t bucket"
    using bucket_length_pos [of bucket] unfolding truncate_grid
    by (intro diff_right_mono mult_right_mono zdiv_mono1) simp_all
  then show ?thesis by (simp add: truncate_self zero_time_start)
qed

lemma labelled_after_zero: "zero_time \<le> t \<Longrightarrow> new_year 1 \<le> day_of t"
  using day_of_mono [of zero_time t] by (simp add: zero_day)

lemma selected_calls_matches:
  "selected_calls coll f skip t = filter (\<lambda>(cid, c). filter_matches coll f skip c) (llm_calls t)"
  by (simp add: selected_calls_def selected_iff)

lemma window_starts:
  assumes "zero_time \<le> from" "from \<le> u" "u < to"
  shows "\<exists>!s. s \<in> set (bucket_starts (truncate_to_bucket from bucket) to bucket) \<and> s \<le> u \<and> u < next_bucket s bucket"
proof -
  let ?s = "truncate_to_bucket u bucket"
  note m = bucket_starts_props(2) [OF truncate_start [of bucket "from"], of to]
  have "truncate_to_bucket from bucket \<le> ?s"
    using assms(2) bucket_length_pos [of bucket] unfolding truncate_grid
    by (intro diff_right_mono mult_right_mono zdiv_mono1) simp_all
  moreover have "?s < to" using truncate_bounds(1) [of u bucket] assms(3) by linarith
  ultimately have "?s \<in> set (bucket_starts (truncate_to_bucket from bucket) to bucket)"
    using truncate_start by (simp add: m)
  moreover have "?s \<le> u" "u < next_bucket ?s bucket" using truncate_bounds by simp_all
  moreover have "s = ?s" if "s \<in> set (bucket_starts (truncate_to_bucket from bucket) to bucket)" "s \<le> u" "u < next_bucket s bucket" for s
    using that truncate_iff [of bucket s u] by (simp add: m)
  ultimately show ?thesis by blast
qed

lemma filled_series:
  assumes "f_bounded f" "zero_time < f_from f" "f_from f < f_to f" "query_usage_series coll err t f = Inr rows"
  shows "fill_usage_buckets (filter_window f) rows =
    map (\<lambda>s. bucket_row (bucket_label s (f_bucket f)) (bucket_calls (f_bucket f) s (map snd (selected_calls coll f [] t))))
      (bucket_starts (truncate_to_bucket (f_from f) (f_bucket f)) (f_to f) (f_bucket f))"
proof -
  let ?b = "f_bucket f" and ?cs = "map snd (selected_calls coll f [] t)"
  let ?label = "\<lambda>c. date_format (bucket_sql_format ?b) (call_created_at c)"
  let ?starts = "bucket_starts (truncate_to_bucket (f_from f) ?b) (f_to f) ?b"
  have rows: "rows = map (\<lambda>l. bucket_row l (filter (\<lambda>c. ?label c = l) ?cs)) (sort (remdups (map ?label ?cs)))"
    using assms(4) by (simp add: query_usage_series_def Let_def split: option.splits)
  have created: "zero_time \<le> call_created_at c" if "c \<in> set ?cs" for c
    using that assms(1,2) by (auto simp: selected_calls_matches filter_matches_def)
  have "filter (\<lambda>c. ?label c = bucket_label s ?b) ?cs = bucket_calls ?b s ?cs" if "s \<in> set ?starts" for s
  proof -
    have s: "bucket_start ?b s" "zero_time \<le> s"
      using that truncate_after_zero [of "f_from f" ?b] assms(2)
      by (auto simp: bucket_starts_props(2) [OF truncate_start])
    have "?label c = bucket_label s ?b \<longleftrightarrow> s \<le> call_created_at c \<and> call_created_at c < next_bucket s ?b"
      if "c \<in> set ?cs" for c
    proof -
      note n = labelled_after_zero [OF created [OF that]]
      have "?label c = bucket_label s ?b \<longleftrightarrow> truncate_to_bucket (call_created_at c) ?b = s"
        using date_format_label [OF n] bucket_label_inject [OF n labelled_after_zero [OF s(2)]] truncate_self [OF s(1)] by simp
      then show ?thesis using truncate_iff [OF s(1)] by simp
    qed
    then show ?thesis unfolding bucket_calls_def by (intro filter_cong) simp_all
  qed
  then show ?thesis
    using assms(2,3) unfolding fill_usage_buckets_def Let_def rows series_lookup
    by (simp add: filter_window_def)
qed

lemma div_below: "0 < (l :: int) \<Longrightarrow> a < n * l \<Longrightarrow> a div l < n"
proof (rule ccontr)
  assume a: "0 < l" "a < n * l" "\<not> a div l < n"
  then have "n * l \<le> a div l * l" by (intro mult_right_mono) auto
  moreover have "a div l * l \<le> a" using a(1) div_mult_mod_eq [of a l] pos_mod_sign [of l a] by linarith
  ultimately show False using a(2) by linarith
qed

lemma usage_buckets_bound:
  assumes "filter_ok tzdb now ''usage'' f"
  shows "length (bucket_starts (truncate_to_bucket (f_from f) (f_bucket f)) (f_to f) (f_bucket f)) \<le> 63"
proof -
  let ?s = "truncate_to_bucket (f_from f) (f_bucket f)" and ?l = "bucket_length (f_bucket f)"
  have "f_range f \<noteq> ''all''" using assms by (auto simp: filter_ok_def kind_ranges_def)
  with assms have f: "f_bounded f" "f_from f < f_to f" "f_bucket f = derive_admin_bucket (f_from f) (f_to f)"
    "f_to f - f_from f \<le> 366 * 24 * hour_ns" by (auto simp: filter_ok_def)
  have "f_from f < ?s + ?l" using truncate_bounds(2) [of "f_from f" "f_bucket f"] by (simp add: next_bucket_length)
  then have span: "f_to f - ?s - 1 < (f_to f - f_from f) + ?l" by linarith
  have "f_to f - f_from f \<le> 62 * ?l"
    using f(2-4) by (auto simp: derive_admin_bucket_def bucket_length_def time_sub_def Let_def day_ns_def hour_ns_def second_ns_def
        min_def max_def split: if_splits)
  with span have "f_to f - ?s - 1 < 63 * ?l" by linarith
  then have "(f_to f - ?s - 1) div ?l < 63" by (rule div_below [OF bucket_length_pos])
  with bucket_starts_length [of ?s "f_to f" "f_bucket f"] show ?thesis by linarith
qed

lemma bucket_rows_sum:
  assumes "sorted_wrt (<) ss" "\<forall>c \<in> set cs. \<exists>!s. s \<in> set ss \<and> s \<le> call_created_at c \<and> call_created_at c < next_bucket s b"
  shows "sum_list (map (\<lambda>s. sum_list (map g (bucket_calls b s cs))) ss) = (sum_list (map g cs) :: int)"
  unfolding bucket_calls_def
  by (rule sum_partition) (use assms in \<open>auto simp: strict_sorted_iff\<close>)

subsection \<open>Properties\<close>


lemma newest_first_sorted: "distinct_keys cs \<Longrightarrow> sorted_wrt (\<lambda>a b. fst b < fst a) (newest_first cs)"
proof -
  assume "distinct_keys cs"
  then have "distinct (map fst (sort_key fst cs))" by (rule distinct_keys_sort_key)
  moreover have "sorted (map fst (sort_key fst cs))" by simp
  ultimately have "sorted_wrt (<) (map fst (sort_key fst cs))" by (simp add: strict_sorted_iff)
  then show ?thesis by (simp add: newest_first_def sorted_wrt_rev sorted_wrt_map)
qed

lemma pages_concat: "0 < sz \<Longrightarrow> length xs \<le> n * sz \<Longrightarrow> concat (map (\<lambda>i. take sz (drop (i * sz) xs)) [0..<n]) = xs"
proof (induction n arbitrary: xs)
  case (Suc n)
  have "concat (map (\<lambda>i. take sz (drop (i * sz) xs)) [0..<Suc n]) =
      take sz xs @ concat (map (\<lambda>i. take sz (drop (i * sz) (drop sz xs))) [0..<n])"
    by (subst upt_conv_Cons) (simp_all add: map_Suc_upt [symmetric] comp_def add.commute del: upt_Suc)
  also have "\<dots> = take sz xs @ drop sz xs" using Suc.IH [of "drop sz xs"] Suc.prems by simp
  finally show ?case by simp
qed simp

text \<open>
  C22: the pages of the list of calls. There is one order of the calls the filter means, the newest id
  first, such that every page is its stretch of that order with the total number of calls beside it; the
  pages up to the last one, the total divided by the page size and rounded up, together list every call
  once.
\<close>

theorem list_calls_pages:
  assumes "distinct_keys (llm_calls t)" "err QCount = None" "err QList = None" "0 < sz"
  shows "\<exists>cs. set cs = {(cid, c) \<in> set (llm_calls t). filter_matches coll f [] c} \<and>
    sorted_wrt (\<lambda>a b. fst b < fst a) cs \<and>
    (\<forall>n. list_calls coll err t f (n * sz) sz = Inr (map list_row (take sz (drop (n * sz) cs)), length cs)) \<and>
    concat (map (\<lambda>n. take sz (drop (n * sz) cs)) [0..<(length cs + sz - 1) div sz]) = cs"
proof -
  let ?cs = "selected_calls coll f [] t"
  have "distinct_keys ?cs" using assms(1) by (simp add: selected_calls_def distinct_map_filter)
  then have "sorted_wrt (\<lambda>a b. fst b < fst a) (newest_first ?cs)" by (rule newest_first_sorted)
  moreover have "set (newest_first ?cs) = {(cid, c) \<in> set (llm_calls t). filter_matches coll f [] c}"
    by (auto simp: newest_first_def selected_calls_matches)
  moreover have l: "length (newest_first ?cs) = length ?cs" by (simp add: newest_first_def)
  moreover have "length (newest_first ?cs) \<le> (length (newest_first ?cs) + sz - 1) div sz * sz"
    using assms(4) div_mult_mod_eq [of "length (newest_first ?cs) + sz - 1" sz]
      mod_less_divisor [of sz "length (newest_first ?cs) + sz - 1"] by linarith
  ultimately show ?thesis
    using assms(2-4) pages_concat [OF assms(4), of "newest_first ?cs"]
    by (intro exI [of _ "newest_first ?cs"]) (simp add: list_calls_def Let_def)
qed

text \<open>
  C21: the SQL of a filter. It is a conjunction of conditions a reader can parse, whose value on a call,
  with the parameters given beside the text, is true or false as the filter means and uses up exactly those
  parameters; and no value of a filter gets into the text, which only depends on which fields are set and on
  the outcome.
\<close>

theorem filter_sql_refines:
  "(\<exists>conds args.
      admin_filter_sql f skip = (concat (map (\<lambda>d. '' AND '' @ sql_text d) conds), args) \<and>
      sql_readable (SqlAnd conds) \<and>
      (\<forall>c. sql_eval coll (call_column c) (SqlAnd conds) args = (Some (filter_matches coll f skip c), []))) \<and>
   (\<forall>g. f_bounded g = f_bounded f \<and> (f_model g = [] \<longleftrightarrow> f_model f = []) \<and> (f_provider g = [] \<longleftrightarrow> f_provider f = []) \<and>
      (f_api_key g = [] \<longleftrightarrow> f_api_key f = []) \<and> f_outcome g = f_outcome f \<longrightarrow>
      fst (admin_filter_sql g skip) = fst (admin_filter_sql f skip))"
proof (intro conjI exI allI impI)
  show "admin_filter_sql f skip = (concat (map (\<lambda>d. '' AND '' @ sql_text d) (filter_conds f skip)), filter_args f skip)"
    by (rule admin_filter_sql_text)
  show "sql_readable (SqlAnd (filter_conds f skip))"
    using outcome_cond_readable [of "f_outcome f"] by (auto simp: filter_conds_def split: option.splits)
  show "sql_eval coll (call_column c) (SqlAnd (filter_conds f skip)) (filter_args f skip) =
      (Some (filter_matches coll f skip c), [])" for c
    using filter_decided [of coll c f skip, unfolded decides_def, rule_format, of "[]"] by simp
next
  fix g :: admin_filter
  assume "f_bounded g = f_bounded f \<and> (f_model g = [] \<longleftrightarrow> f_model f = []) \<and> (f_provider g = [] \<longleftrightarrow> f_provider f = []) \<and>
      (f_api_key g = [] \<longleftrightarrow> f_api_key f = []) \<and> f_outcome g = f_outcome f"
  then have "filter_conds g skip = filter_conds f skip" by (simp add: filter_conds_def)
  then show "fst (admin_filter_sql g skip) = fst (admin_filter_sql f skip)" by (simp add: admin_filter_sql_text)
qed


subsection \<open>The properties on a small log\<close>

definition sample_call :: "int \<Rightarrow> int64 \<Rightarrow> int \<Rightarrow> string \<Rightarrow> llm_call" where
  "sample_call at tokens st e =
    \<lparr>call_created_at = at, call_model = ''m'', call_provider = ''p'', call_provider_model = ''pm'',
     call_api_key_name = ''k'', call_input_tokens = tokens, call_output_tokens = 1, call_cache_tokens = 0,
     call_uncached_tokens = tokens, call_first_token_ms = 0, call_output_speed = None, call_http_status = st,
     call_error = e, call_request_json = None, call_response_json = None\<rparr>"

definition sample_log :: tables where
  "sample_log = \<lparr>llm_calls = [(1, sample_call (10 * day_ns) 5 200 []), (2, sample_call (12 * day_ns) 7 404 ''canceled''),
     (3, sample_call (100 * day_ns) 9 200 [])], llm_files = [], llm_call_files = [], next_call_id = 4\<rparr>"


theorem filter_sql_refines_witness:
  "fst (admin_filter_sql (sample_filter\<lparr>f_bounded := True, f_model := '' OR 1 = 1''\<rparr>) []) =
     fst (admin_filter_sql (sample_filter\<lparr>f_bounded := True, f_model := ''m''\<rparr>) []) \<and>
   (\<exists>conds args. admin_filter_sql (sample_filter\<lparr>f_model := ''m''\<rparr>) [] =
       (concat (map (\<lambda>d. '' AND '' @ sql_text d) conds), args) \<and> sql_readable (SqlAnd conds))"
  using filter_sql_refines [of "sample_filter\<lparr>f_bounded := True, f_model := ''m''\<rparr>" "[]" "\<lambda>x. x"]
    filter_sql_refines [of "sample_filter\<lparr>f_model := ''m''\<rparr>" "[]" "\<lambda>x. x"]
  by (elim conjE exE, intro conjI) (simp, blast)

theorem list_calls_pages_witness:
  "\<exists>cs. map fst cs = [2, 1] \<and>
    list_calls (\<lambda>x. x) (\<lambda>_. None) sample_log (parse_admin_filter (\<lambda>_. None) [] (13 * day_ns) ''usage'') 1 1 =
      Inr (map list_row (take 1 (drop 1 cs)), 2)"
proof -
  let ?f = "parse_admin_filter (\<lambda>_. None) [] (13 * day_ns) ''usage''"
  have k: "distinct_keys (llm_calls sample_log)" by (simp add: sample_log_def)
  obtain cs where c: "set cs = {(cid, c) \<in> set (llm_calls sample_log). filter_matches (\<lambda>x. x) ?f [] c}"
    "sorted_wrt (\<lambda>a b. fst b < fst a) cs"
    "\<forall>n. list_calls (\<lambda>x. x) (\<lambda>_. None) sample_log ?f (n * 1) 1 = Inr (map list_row (take 1 (drop (n * 1) cs)), length cs)"
    using list_calls_pages [OF k, of "\<lambda>_. None" 1 "\<lambda>x. x" ?f] by auto
  have "{(cid, c) \<in> set (llm_calls sample_log). filter_matches (\<lambda>x. x) ?f [] c} =
      set (filter (\<lambda>(cid, c). filter_matches (\<lambda>x. x) ?f [] c) (llm_calls sample_log))" by auto
  also have "filter (\<lambda>(cid, c). filter_matches (\<lambda>x. x) ?f [] c) (llm_calls sample_log) = take 2 (llm_calls sample_log)"
    by code_simp
  finally have "fst ` set cs = {1, 2}" using c(1) by (simp add: sample_log_def)
  moreover have "sorted_wrt (<) (rev (map fst cs))" using c(2) by (simp add: sorted_wrt_rev sorted_wrt_map)
  ultimately have "rev (map fst cs) = sorted_list_of_set {1, 2}"
    by (metis list.set_map set_rev sorted_list_of_set.idem_if_sorted_distinct strict_sorted_iff)
  then have "map fst cs = rev (sorted_list_of_set {1, 2})" by (metis rev_rev_ident)
  then have m: "map fst cs = [2, 1]" by simp
  then have "length cs = 2" by (metis length_map length_Cons list.size(3) numeral_2_eq_2 One_nat_def)
  with c(3) [rule_format, of 1] show ?thesis by (intro exI [of _ cs] conjI m) simp
qed


end
