(* ===== verification/AdminPages.thy ===== *)
theory AdminPages
  imports AdminQuery ProxyHeaders
begin

text \<open>
  \<^verbatim>\<open>admin.go\<close> and the views of \<^verbatim>\<open>admin_filter.go\<close>: the usage, calls, call and file pages of the dashboard.
  A page is the data given to its template; \<open>templ\<close> is what the templates make of it. \<open>indent\<close> stands for
  \<^verbatim>\<open>encoding/json\<close>'s reading and indenting of a value, \<open>None\<close> when it fails.
\<close>

subsection \<open>Views of a filter\<close>

record select_option =
  opt_value :: string
  opt_label :: string
  opt_on :: bool

definition merge_option :: "string list \<Rightarrow> string \<Rightarrow> string list" where
  "merge_option opts extra = (if extra = [] then opts else if extra \<in> set opts then opts else extra # opts)"

record filter_view =
  v_range_opts :: "select_option list"
  v_model_opts :: "string list"
  v_provider_opts :: "string list"
  v_key_opts :: "string list"
  v_tzone :: string
  v_tz_explicit :: bool
  v_range_param :: string
  v_from_local :: string
  v_to_local :: string
  v_from_rfc :: string
  v_to_rfc :: string

definition merge_filter_view :: "tzdb \<Rightarrow> admin_filter \<Rightarrow> string \<Rightarrow> filter_options \<Rightarrow> filter_view" where
  "merge_filter_view tzdb f kind opts =
    (let ranges = (if kind = ''calls'' then [''all''] else []) @ [''24h'', ''7d'', ''30d'', ''90d''] @ [''custom''];
         loc = tz_loc tzdb f in
     \<lparr>v_range_opts = map (\<lambda>r. \<lparr>opt_value = r, opt_label = r, opt_on = (f_range f = r)\<rparr>) ranges,
      v_model_opts = merge_option (o_models opts) (f_model f),
      v_provider_opts = merge_option (o_providers opts) (f_provider f),
      v_key_opts = merge_option (o_keys opts) (f_api_key f),
      v_tzone = (if f_tz f = [] then ''UTC'' else f_tz f), v_tz_explicit = (f_tz f \<noteq> []),
      v_range_param = (if f_range f = [] \<or> (kind = ''usage'' \<and> f_range f = ''7d'') \<or>
        (kind = ''calls'' \<and> f_range f = ''all'') then [] else f_range f),
      v_from_local = (if f_bounded f then format_minute (zone_local loc (f_from f)) else []),
      v_to_local = (if f_bounded f then format_minute (zone_local loc (f_to f)) else []),
      v_from_rfc = (if f_bounded f then format_rfc3339 (f_from f) else []),
      v_to_rfc = (if f_bounded f then format_rfc3339 (f_to f) else [])\<rparr>)"

datatype pager_item = PageGap | PageLink int string bool

definition pager_shows :: "int \<Rightarrow> int \<Rightarrow> int \<Rightarrow> bool" where
  "pager_shows page tot p =
    (p = 1 \<or> p = tot \<or> (page - 2 \<le> p \<and> p \<le> page + 2 \<and> 1 \<le> p \<and> p \<le> tot))"

fun pager_loop :: "admin_filter \<Rightarrow> int \<Rightarrow> int \<Rightarrow> int \<Rightarrow> int list \<Rightarrow> pager_item list" where
  "pager_loop f page tot prev [] = []"
| "pager_loop f page tot prev (p # ps) =
    (if \<not> pager_shows page tot p then pager_loop f page tot prev ps
     else (if 0 < prev \<and> 1 < p - prev then [PageGap] else []) @
       PageLink p (pager_url f p) (p = page) # pager_loop f page tot p ps)"

definition pager_items :: "admin_filter \<Rightarrow> int \<Rightarrow> int \<Rightarrow> pager_item list" where
  "pager_items f page tot = pager_loop f page tot 0 [1..tot]"

record nav_data =
  nav_name :: string
  nav_filter :: admin_filter
  nav_usage_url :: string
  nav_calls_url :: string

definition admin_nav_data :: "string \<Rightarrow> admin_filter \<Rightarrow> nav_data" where
  "admin_nav_data nav f =
    \<lparr>nav_name = nav, nav_filter = f, nav_usage_url = filter_path ''usage'' ''/usage'' (for_usage f),
     nav_calls_url = filter_path ''calls'' ''/calls'' f\<rparr>"

subsection \<open>Numbers and texts\<close>

definition admin_page_size :: int where
  "admin_page_size = 50"

definition max_admin_page :: int where
  "max_admin_page = 1000000"

text \<open>The value \<^verbatim>\<open>strconv.Atoi\<close> returns, error or not: 0 for no number, the nearest end of the range for one out of it.\<close>

definition atoi_value :: "string \<Rightarrow> int" where
  "atoi_value s =
    (let neg = (s \<noteq> [] \<and> hd s = CHR ''-'');
         ds = (if s \<noteq> [] \<and> hd s \<in> {CHR ''+'', CHR ''-''} then tl s else s);
         v = (if neg then - int (nat_of_digits ds) else int (nat_of_digits ds)) in
     if ds = [] \<or> \<not> list_all is_digit ds then 0 else max (- (2 ^ 63)) (min (2 ^ 63 - 1) v))"

definition clamp_admin_page :: "string \<Rightarrow> int" where
  "clamp_admin_page raw =
    (let page = atoi_value raw in if page < 1 then 1 else if max_admin_page < page then max_admin_page else page)"

definition token_bar_pct :: "int64 \<Rightarrow> int64 \<Rightarrow> int64" where
  "token_bar_pct part tot =
    (if tot \<le>s 0 then 0
     else
       let pct = word_of_int (go_div (sint (part * 100)) (sint tot)) in
       if pct <s 0 then 0 else if 100 <s pct then 100 else pct)"

fun comma_groups :: "string \<Rightarrow> string" where
  "comma_groups (a # b # c # s) = CHR '','' # a # b # c # comma_groups s"
| "comma_groups _ = []"

definition comma_digits :: "string \<Rightarrow> string" where
  "comma_digits s =
    (let n = length s in
     if n \<le> 3 then s
     else let rem = (if n mod 3 = 0 then 3 else n mod 3) in take rem s @ comma_groups (drop rem s))"

definition format_int64 :: "int64 \<Rightarrow> string" where
  "format_int64 v =
    (let s = int_text (sint v) in
     if hd s = CHR ''-'' then ''-'' @ comma_digits (tl s) else comma_digits s)"

datatype any_number = AnyInt int64 | AnyInt64 int64 | AnyUint64 "64 word" | AnyOther

definition format_num :: "any_number \<Rightarrow> string" where
  "format_num n =
    (case n of
       AnyInt i \<Rightarrow> format_int64 i
     | AnyInt64 i \<Rightarrow> format_int64 i
     | AnyUint64 u \<Rightarrow> comma_digits (digits (unat u))
     | AnyOther \<Rightarrow> [])"

definition input_bar :: "int64 \<Rightarrow> int64 \<Rightarrow> string" where
  "input_bar input cache =
    (let pct = int_text (sint (token_bar_pct cache input)); q = [CHR 0x22] in
     ''<div class='' @ q @ ''inbar'' @ q @ ''><i style='' @ q @ ''width:'' @ pct @ ''%'' @ q @ ''></i></div><div class='' @ q @
       ''sub'' @ q @ ''>'' @ format_int64 cache @ '' cached '' @ [CHR 0xC2, CHR 0xB7] @ '' '' @ pct @ ''%</div>'')"

definition status_class :: "int \<Rightarrow> string" where
  "status_class status =
    (if status = 0 then ''badge-muted'' else if 200 \<le> status \<and> status < 300 then ''badge-ok'' else ''badge-err'')"

definition call_error_class :: "int \<Rightarrow> string \<Rightarrow> string" where
  "call_error_class status err =
    (if err = [] then []
     else if err = ''canceled'' \<and> 200 \<le> status \<and> status < 300 then ''text-zinc-500''
     else ''text-red-400'')"

text \<open>\<open>seconds\<close>: \<^verbatim>\<open>FormatFloat(ms/1000, 'f', 2, 64)\<close>.\<close>

definition format_ms :: "(int \<Rightarrow> string) \<Rightarrow> int \<Rightarrow> string" where
  "format_ms seconds ms =
    (if ms \<le> 0 then [CHR 0xE2, CHR 0x80, CHR 0x94] else if ms < 1000 then int_text ms @ ''ms'' else seconds ms @ ''s'')"

definition trim_newline :: "string \<Rightarrow> string" where
  "trim_newline s = (if s \<noteq> [] \<and> last s = CHR 0x0A then butlast s else s)"

definition pretty_json :: "(bytes \<Rightarrow> string option) \<Rightarrow> bytes \<Rightarrow> string" where
  "pretty_json indent raw =
    (if raw = [] then []
     else if \<not> valid_json raw then raw
     else if is_json_string (json_trim raw) then the_or raw (raw_json_string raw)
     else (case indent raw of None \<Rightarrow> raw | Some s \<Rightarrow> trim_newline s))"

subsection \<open>The files of a call\<close>

record call_file_view =
  fv_sha :: string
  fv_mime :: string
  fv_size :: nat
  fv_kind :: string

definition call_file_views :: "(string \<times> llm_file) list \<Rightarrow> call_file_view list" where
  "call_file_views files =
    map (\<lambda>(sha, f). \<lparr>fv_sha = sha, fv_mime = file_mime f, fv_size = file_size f, fv_kind = file_kind (file_mime f)\<rparr>) files"

text \<open>The join of \<^verbatim>\<open>llm_files\<close> and \<^verbatim>\<open>llm_call_files\<close> for one call, in the order of \<^verbatim>\<open>seq\<close>; an error is logged.\<close>

definition list_call_files :: "query_errors \<Rightarrow> tables \<Rightarrow> nat \<Rightarrow> (string \<times> llm_file) list" where
  "list_call_files err t cid =
    (if err QCallFiles \<noteq> None then []
     else
       List.map_filter (\<lambda>j. map_option (Pair (cf_sha j)) (map_of (llm_files t) (cf_sha j)))
         (sort_key cf_seq (filter (\<lambda>j. cf_call j = cid) (llm_call_files t))))"

subsection \<open>The pages\<close>

record usage_totals =
  tot_calls :: int
  tot_input :: int
  tot_output :: int
  tot_cache :: int
  tot_uncached :: int

definition chart_totals :: "usage_bucket list \<Rightarrow> usage_totals" where
  "chart_totals chart =
    \<lparr>tot_calls = sum_list (map u_calls chart), tot_input = sum_list (map u_input chart),
     tot_output = sum_list (map u_output chart), tot_cache = sum_list (map u_cache chart),
     tot_uncached = sum_list (map u_uncached chart)\<rparr>"

record usage_page =
  up_nav :: nav_data
  up_totals :: usage_totals
  up_chart :: "usage_bucket list"
  up_view :: filter_view

record calls_page =
  cp_nav :: nav_data
  cp_rows :: "call_list_row list"
  cp_total :: nat
  cp_page :: int
  cp_total_pages :: int
  cp_pages :: "pager_item list"
  cp_prev :: string
  cp_next :: string
  cp_list_query :: string
  cp_view :: filter_view

record call_page =
  dp_nav :: nav_data
  dp_call :: "nat \<times> llm_call"
  dp_request :: string
  dp_response :: string
  dp_files :: "call_file_view list"
  dp_calls_url :: string

datatype admin_page = UsagePage usage_page | CallsPage calls_page | CallPage call_page

text \<open>
  What the handlers use: the database (\<open>None\<close> for a nil one), its collation and the errors of its
  queries, the time zones, the clock and the templates.
\<close>

record admin_env =
  ae_db :: "tables option"
  ae_coll :: "string \<Rightarrow> string"
  ae_err :: query_errors
  ae_tzdb :: tzdb
  ae_now :: int
  ae_templ :: "admin_page \<Rightarrow> bytes"
  ae_indent :: "bytes \<Rightarrow> string option"

definition require_db :: "admin_env \<Rightarrow> 'a rw_scheme \<Rightarrow> bool \<times> 'a rw_scheme" where
  "require_db env w =
    (if ae_db env \<noteq> None then (True, w) else (False, http_error ''database unavailable'' 503 w))"

abbreviation query_failed :: "'a rw_scheme \<Rightarrow> 'a rw_scheme" where
  "query_failed w \<equiv> http_error ''query failed'' 500 w"

abbreviation not_found :: "'a rw_scheme \<Rightarrow> 'a rw_scheme" where
  "not_found w \<equiv> http_error ''404 page not found'' 404 w"

text \<open>The chart's numbers are finite, so \<^verbatim>\<open>json.Marshal\<close> of it does not fail.\<close>

definition usage_data :: "admin_env \<Rightarrow> query \<Rightarrow> tables \<Rightarrow> string + usage_page" where
  "usage_data env q t =
    (let f = parse_admin_filter (ae_tzdb env) q (ae_now env) ''usage'' in
     case query_usage_series (ae_coll env) (ae_err env) t f of
       Inl e \<Rightarrow> Inl e
     | Inr series \<Rightarrow>
         (case query_filter_options (ae_coll env) (ae_err env) t f of
            Inl e \<Rightarrow> Inl e
          | Inr opts \<Rightarrow>
              let chart = (if f_bounded f then fill_usage_buckets (filter_window f) series else series) in
              Inr \<lparr>up_nav = admin_nav_data ''usage'' f, up_totals = chart_totals chart, up_chart = chart,
                up_view = merge_filter_view (ae_tzdb env) f ''usage'' opts\<rparr>))"

definition handle_admin_usage :: "admin_env \<Rightarrow> query \<Rightarrow> 'a rw_scheme \<Rightarrow> 'a rw_scheme" where
  "handle_admin_usage env q w =
    (let (ok, w) = require_db env w in
     case ae_db env of
       None \<Rightarrow> w
     | Some t \<Rightarrow>
         (case usage_data env q t of Inl e \<Rightarrow> query_failed w | Inr d \<Rightarrow> render_admin (ae_templ env (UsagePage d)) w))"

definition calls_data :: "admin_env \<Rightarrow> query \<Rightarrow> tables \<Rightarrow> string + calls_page" where
  "calls_data env q t =
    (let f = parse_admin_filter (ae_tzdb env) q (ae_now env) ''calls'';
         page = clamp_admin_page (query_get q ''page'');
         offset = (page - 1) * admin_page_size in
     case list_calls (ae_coll env) (ae_err env) t f (nat offset) (nat admin_page_size) of
       Inl e \<Rightarrow> Inl e
     | Inr (rows, tot) \<Rightarrow>
         (case query_filter_options (ae_coll env) (ae_err env) t f of
            Inl e \<Rightarrow> Inl e
          | Inr opts \<Rightarrow>
              let pages = (int tot + admin_page_size - 1) div admin_page_size;
                  pages = (if pages < 1 then 1 else pages) in
              Inr \<lparr>cp_nav = admin_nav_data ''calls'' f, cp_rows = rows, cp_total = tot, cp_page = page,
                cp_total_pages = pages, cp_pages = pager_items f page pages,
                cp_prev = (if 1 < page then pager_url f (page - 1) else []),
                cp_next = (if offset + int (length rows) < int tot then pager_url f (page + 1) else []),
                cp_list_query = encode_query (set_if (1 < page) ''page'' (int_text page) (filter_values ''calls'' f)),
                cp_view = merge_filter_view (ae_tzdb env) f ''calls'' opts\<rparr>))"

definition handle_admin_calls :: "admin_env \<Rightarrow> query \<Rightarrow> 'a rw_scheme \<Rightarrow> 'a rw_scheme" where
  "handle_admin_calls env q w =
    (let (ok, w) = require_db env w in
     case ae_db env of
       None \<Rightarrow> w
     | Some t \<Rightarrow>
         (case calls_data env q t of Inl e \<Rightarrow> query_failed w | Inr d \<Rightarrow> render_admin (ae_templ env (CallsPage d)) w))"

text \<open>\<^verbatim>\<open>strconv.ParseUint(s, 10, 64)\<close>.\<close>

definition parse_uint :: "string \<Rightarrow> nat option" where
  "parse_uint s =
    (if s \<noteq> [] \<and> list_all is_digit s \<and> nat_of_digits s < 2 ^ 64 then Some (nat_of_digits s) else None)"

definition call_data :: "admin_env \<Rightarrow> query \<Rightarrow> tables \<Rightarrow> nat \<times> llm_call \<Rightarrow> call_page" where
  "call_data env q t call =
    (let f = parse_admin_filter (ae_tzdb env) q (ae_now env) ''calls'';
         page = clamp_admin_page (query_get q ''page'') in
     \<lparr>dp_nav = admin_nav_data ''calls'' f, dp_call = call,
      dp_request = pretty_json (ae_indent env) (the_or [] (call_request_json (snd call))),
      dp_response = pretty_json (ae_indent env) (the_or [] (call_response_json (snd call))),
      dp_files = call_file_views (list_call_files (ae_err env) t (fst call)),
      dp_calls_url = pager_url f page\<rparr>)"

definition handle_admin_call :: "admin_env \<Rightarrow> string \<Rightarrow> query \<Rightarrow> 'a rw_scheme \<Rightarrow> 'a rw_scheme" where
  "handle_admin_call env idtext q w =
    (let (ok, w) = require_db env w in
     case ae_db env of
       None \<Rightarrow> w
     | Some t \<Rightarrow>
         (case parse_uint idtext of
            None \<Rightarrow> not_found w
          | Some cid \<Rightarrow>
              if cid = 0 then not_found w
              else if ae_err env QCall \<noteq> None then query_failed w
              else
                (case map_of (llm_calls t) cid of
                   None \<Rightarrow> not_found w
                 | Some c \<Rightarrow> render_admin (ae_templ env (CallPage (call_data env q t (cid, c)))) w)))"

text \<open>
  \<^verbatim>\<open>http.ServeContent\<close> of a file with a content type: for a plain request, the whole file; \<open>special\<close> is what it
  does for a request with ranges or conditions.
\<close>

definition http_date :: "int \<Rightarrow> string" where
  "http_date t =
    (case civil (day_of t) of (y, m, d) \<Rightarrow>
      [''Sun'', ''Mon'', ''Tue'', ''Wed'', ''Thu'', ''Fri'', ''Sat''] ! nat (weekday (day_of t)) @ '', '' @ pad_int 2 d @ '' '' @
      [''Jan'', ''Feb'', ''Mar'', ''Apr'', ''May'', ''Jun'', ''Jul'', ''Aug'', ''Sep'', ''Oct'', ''Nov'', ''Dec''] ! nat (m - 1) @
      '' '' @ pad_int 4 y @ '' '' @ pad_int 2 (hour_of t) @ '':'' @ pad_int 2 (t mod hour_ns div (60 * second_ns)) @
      '':'' @ pad_int 2 (t mod (60 * second_ns) div second_ns) @ '' GMT'')"

definition conditional_request :: "header \<Rightarrow> bool" where
  "conditional_request h =
    list_ex (\<lambda>k. header_values h k \<noteq> [])
      [''Range'', ''If-Range'', ''If-Match'', ''If-None-Match'', ''If-Modified-Since'', ''If-Unmodified-Since'']"

definition serve_content ::
  "(int \<Rightarrow> bytes \<Rightarrow> admin_request \<Rightarrow> 'a rw_scheme \<Rightarrow> 'a rw_scheme) \<Rightarrow> int \<Rightarrow> bytes \<Rightarrow> admin_request \<Rightarrow>
    'a rw_scheme \<Rightarrow> 'a rw_scheme" where
  "serve_content special modtime data r w =
    (if conditional_request (req_header r) then special modtime data r w
     else
       let w = (if modtime = zero_time \<or> modtime = 0 then w else set_header ''Last-Modified'' (http_date modtime) w);
           w = set_header ''Accept-Ranges'' ''bytes'' w;
           w = (if header_get (rw_header w) ''Content-Encoding'' = [] then
                  set_header ''Content-Length'' (int_text (int (length data))) w else w);
           w = write_header 200 w in
       if req_method r = ''HEAD'' \<or> data = [] then w else write_ignoring data w)"

definition handle_admin_file ::
  "(int \<Rightarrow> bytes \<Rightarrow> admin_request \<Rightarrow> 'a rw_scheme \<Rightarrow> 'a rw_scheme) \<Rightarrow> admin_env \<Rightarrow> string \<Rightarrow> admin_request \<Rightarrow>
    'a rw_scheme \<Rightarrow> 'a rw_scheme" where
  "handle_admin_file special env sha r w =
    (let (ok, w) = require_db env w in
     case ae_db env of
       None \<Rightarrow> w
     | Some t \<Rightarrow>
         if \<not> valid_file_sha256 sha then not_found w
         else if ae_err env QFile \<noteq> None then query_failed w
         else
           (case map_of (llm_files t) sha of
              None \<Rightarrow> not_found w
            | Some f \<Rightarrow>
                let w = (if inline_file_mime (file_mime f) then set_header ''Content-Type'' (file_mime f) w
                  else set_header ''Content-Disposition'' ''attachment''
                    (set_header ''Content-Type'' ''application/octet-stream'' w))
                in serve_content special (file_created_at f) (file_data f) r w))"

subsection \<open>Page links\<close>

lemma atoi_int_text: "- (2 ^ 63) \<le> i \<Longrightarrow> i < 2 ^ 63 \<Longrightarrow> atoi_value (int_text i) = i"
proof -
  assume i: "- (2 ^ 63) \<le> i" "i < 2 ^ 63"
  have d: "list_all is_digit (digits n)" "digits n \<noteq> []" for n using digits_are_digits by auto
  obtain c r where cr: "digits (nat i) = c # r" "is_digit c" using d [of "nat i"] by (cases "digits (nat i)") auto
  then have "c \<noteq> CHR ''+''" "c \<noteq> CHR ''-''" by (auto simp: is_digit_def)
  then show ?thesis using i d d(1) [of "nat i"] cr nat_of_digits [of "nat i"] by (auto simp: atoi_value_def int_text_def Let_def nat_of_digits)
qed

lemma clamp_int_text: "1 \<le> p \<Longrightarrow> p \<le> max_admin_page \<Longrightarrow> clamp_admin_page (int_text p) = p"
  by (simp add: clamp_admin_page_def atoi_int_text max_admin_page_def)

lemma clamp_bounds: "1 \<le> clamp_admin_page raw \<and> clamp_admin_page raw \<le> max_admin_page"
  by (simp add: clamp_admin_page_def max_admin_page_def Let_def)

lemma link_query_calls:
  "single_query q \<Longrightarrow> query_get (link_query (if encode_query q = [] then ''/calls'' else ''/calls?'' @ encode_query q)) k = query_get q k"
proof -
  assume q: "single_query q"
  have "''/calls?'' @ encode_query q = ''/calls'' @ ''?'' @ encode_query q" by simp
  then show ?thesis using link_query_get [OF q, of "''/calls''" k] by (simp only:) simp
qed

lemma pager_url_query:
  "query_get (link_query (pager_url f p)) k =
    (if 1 < p \<and> k = ''page'' then int_text p else query_get (filter_values ''calls'' f) k)"
  unfolding pager_url_def Let_def
  by (subst link_query_calls) (simp_all add: single_query_set_if single_filter_values query_get_set_if)

lemma filter_values_page: "query_get (filter_values kind f) ''page'' = []"
  unfolding filter_values_set_if Let_def query_get_set_if by simp



subsection \<open>The pager\<close>

text \<open>What the loop shows of an increasing list of page numbers.\<close>

fun page_numbers :: "pager_item list \<Rightarrow> int list" where
  "page_numbers [] = []"
| "page_numbers (PageGap # items) = page_numbers items"
| "page_numbers (PageLink p _ _ # items) = p # page_numbers items"

text \<open>A gap stands exactly between two numbers that do not follow each other.\<close>

fun gaps_right :: "int \<Rightarrow> pager_item list \<Rightarrow> bool" where
  "gaps_right prev [] = True"
| "gaps_right prev (PageLink p u a # items) = (\<not> (0 < prev \<and> 1 < p - prev) \<and> gaps_right p items)"
| "gaps_right prev (PageGap # PageLink p u a # items) = (0 < prev \<and> 1 < p - prev \<and> gaps_right p items)"
| "gaps_right prev (PageGap # _) = False"

lemma pager_loop_numbers: "page_numbers (pager_loop f page tot prev ps) = filter (pager_shows page tot) ps"
  by (induction f page tot prev ps rule: pager_loop.induct) auto

lemma pager_loop_gaps: "gaps_right prev (pager_loop f page tot prev ps)"
  by (induction f page tot prev ps rule: pager_loop.induct) auto

lemma pager_loop_links:
  "PageLink p u a \<in> set (pager_loop f page tot prev ps) \<Longrightarrow> u = pager_url f p \<and> (a \<longleftrightarrow> p = page)"
  by (induction f page tot prev ps rule: pager_loop.induct) (auto split: if_splits)

text \<open>
  The pager. It lists the first page, the last one and the pages within two of the current one, each
  once and in order, a gap wherever pages are left out and nowhere else; every number links to its page and
  the current one is marked.
\<close>

theorem pager_items_shape:
  "page_numbers (pager_items f page tot) = filter (\<lambda>p. p = 1 \<or> p = tot \<or> \<bar>p - page\<bar> \<le> 2) [1..tot] \<and>
   gaps_right 0 (pager_items f page tot) \<and>
   (\<forall>p u a. PageLink p u a \<in> set (pager_items f page tot) \<longrightarrow> u = pager_url f p \<and> (a \<longleftrightarrow> p = page))"
proof (intro conjI allI impI)
  have "filter (pager_shows page tot) [1..tot] = filter (\<lambda>p. p = 1 \<or> p = tot \<or> \<bar>p - page\<bar> \<le> 2) [1..tot]"
    by (rule filter_cong) (auto simp: pager_shows_def)
  then show "page_numbers (pager_items f page tot) = filter (\<lambda>p. p = 1 \<or> p = tot \<or> \<bar>p - page\<bar> \<le> 2) [1..tot]"
    by (simp add: pager_items_def pager_loop_numbers)
  show "gaps_right 0 (pager_items f page tot)" by (simp add: pager_items_def pager_loop_gaps)
  show "u = pager_url f p" "a \<longleftrightarrow> p = page" if "PageLink p u a \<in> set (pager_items f page tot)" for p u a
    using that pager_loop_links [of p u a f page tot 0] by (auto simp: pager_items_def)
qed

theorem pager_items_shape_witness:
  "page_numbers (pager_items sample_filter 6 20) = [1, 4, 5, 6, 7, 8, 20]"
  using pager_items_shape [of sample_filter 6 20] by (simp add: upto.simps)

subsection \<open>Numbers as texts\<close>

lemma comma_groups_digits: "length s mod 3 = 0 \<Longrightarrow> CHR '','' \<notin> set s \<Longrightarrow> filter (\<lambda>c. c \<noteq> CHR '','') (comma_groups s) = s"
proof (induction s rule: comma_groups.induct)
  case (1 a b c s)
  then show ?case by (simp add: mod_Suc split: if_splits)
qed auto

lemma groups_left: "(n - (if n mod 3 = 0 then 3 else n mod 3)) mod 3 = (0 :: nat)"
proof (cases "n mod 3 = 0")
  case True
  then obtain q where "n = 3 * q" by auto
  then have "n - 3 = 3 * (q - 1)" by (simp add: diff_mult_distrib2)
  with True show ?thesis by simp
next
  case False
  then show ?thesis by (simp add: minus_mod_eq_mult_div)
qed

lemma comma_digits_text: "CHR '','' \<notin> set s \<Longrightarrow> filter (\<lambda>c. c \<noteq> CHR '','') (comma_digits s) = s"
proof -
  assume s: "CHR '','' \<notin> set s"
  have plain: "filter (\<lambda>c. c \<noteq> CHR '','') (take k s) = take k s" for k
    using s by (intro filter_True) (auto dest: in_set_takeD)
  have "length (drop (if length s mod 3 = 0 then 3 else length s mod 3) s) mod 3 = 0"
    using groups_left [of "length s"] by simp
  then have "filter (\<lambda>c. c \<noteq> CHR '','') (comma_groups (drop (if length s mod 3 = 0 then 3 else length s mod 3) s)) =
      drop (if length s mod 3 = 0 then 3 else length s mod 3) s"
    using s by (intro comma_groups_digits) (auto dest: in_set_dropD)
  then show ?thesis using plain [of "length s"] plain by (simp add: comma_digits_def Let_def)
qed

text \<open>The share is between 0 and 100 also when the product overflows.\<close>

lemma token_bar_pct_bounds: "0 \<le> sint (token_bar_pct part tot) \<and> sint (token_bar_pct part tot) \<le> 100"
  by (auto simp: token_bar_pct_def Let_def word_sless_alt)

subsection \<open>The list of calls\<close>

lemma at_least_one: "(if (x :: int) < 1 then 1 else x) = max 1 x"
  by simp

lemma page_full:
  assumes "1 \<le> (p :: int)"
  shows "(p - 1) * 50 + int (length (take 50 (drop (nat ((p - 1) * 50)) xs))) < int (length xs) \<longleftrightarrow> p * 50 < int (length xs)"
proof -
  obtain k where k: "(p - 1) * 50 = int k" using assms by (metis diff_ge_0_iff_ge mult_nonneg_nonneg nonneg_int_cases zero_le_numeral)
  then have "p * 50 = int k + 50" by simp
  then show ?thesis unfolding k by (auto simp: min_def)
qed

lemma query_filter_options_Inr: "\<forall>x. err x = None \<Longrightarrow> \<exists>opts. query_filter_options coll err t f = Inr opts"
  by (simp add: query_filter_options_def query_distinct_def)

text \<open>
  C23: the list of calls. Without database errors the page is rendered from these data: with the calls the
  filter means in one order, the newest id first, page \<open>p\<close> shows the fifty from \<open>50 (p - 1)\<close> on, the total, and
  the number of pages, at least 1; there is a link back unless it is the first page, and one forward exactly
  when there are calls after it. Without a database the answer is 503.
\<close>

theorem calls_page_shows:
  assumes "\<forall>t. ae_db env = Some t \<longrightarrow> distinct_keys (llm_calls t)" "\<forall>x. ae_err env x = None" "rw_sent w = None"
  shows "case ae_db env of
      None \<Rightarrow> map_option fst (rw_sent (handle_admin_calls env q w)) = Some 503
    | Some t \<Rightarrow>
        \<exists>d cs. handle_admin_calls env q w = render_admin (ae_templ env (CallsPage d)) w \<and>
          (let f = parse_admin_filter (ae_tzdb env) q (ae_now env) ''calls''; p = clamp_admin_page (query_get q ''page'') in
           set cs = {(cid, c) \<in> set (llm_calls t). filter_matches (ae_coll env) f [] c} \<and>
           sorted_wrt (\<lambda>a b. fst b < fst a) cs \<and>
           cp_page d = p \<and> cp_total d = length cs \<and> cp_total_pages d = max 1 ((int (length cs) + 49) div 50) \<and>
           cp_rows d = map list_row (take 50 (drop (nat ((p - 1) * 50)) cs)) \<and>
           cp_prev d = (if 1 < p then pager_url f (p - 1) else []) \<and>
           cp_next d = (if p * 50 < int (length cs) then pager_url f (p + 1) else []))"
proof (cases "ae_db env")
  case None
  then show ?thesis using assms(3)
    by (simp add: handle_admin_calls_def require_db_def http_error_def rw_write_def write_header_def set_header_def Let_def
        split: option.splits)
next
  case (Some t)
  let ?f = "parse_admin_filter (ae_tzdb env) q (ae_now env) ''calls''" and ?p = "clamp_admin_page (query_get q ''page'')"
  let ?cs = "newest_first (selected_calls (ae_coll env) ?f [] t)"
  have k: "distinct_keys (llm_calls t)" using assms(1) Some by simp
  have s: "sorted_wrt (\<lambda>a b. fst b < fst a) ?cs"
    using k by (intro newest_first_sorted) (simp add: selected_calls_def distinct_map_filter)
  have m: "set ?cs = {(cid, c) \<in> set (llm_calls t). filter_matches (ae_coll env) ?f [] c}"
    by (auto simp: newest_first_def selected_calls_matches)
  have l: "length (selected_calls (ae_coll env) ?f [] t) = length ?cs" by (simp add: newest_first_def)
  obtain opts where o: "query_filter_options (ae_coll env) (ae_err env) t ?f = Inr opts"
    using query_filter_options_Inr [OF assms(2)] by blast
  have p: "1 \<le> ?p" using clamp_bounds by blast
  have lc: "list_calls (ae_coll env) (ae_err env) t ?f (nat ((?p - 1) * 50)) 50 =
      Inr (map list_row (take 50 (drop (nat ((?p - 1) * 50)) ?cs)), length ?cs)"
    using assms(2) by (simp add: list_calls_def Let_def l)
  have nxt: "(?p - 1) * 50 + int (length (map list_row (take 50 (drop (nat ((?p - 1) * 50)) ?cs)))) < int (length ?cs) \<longleftrightarrow>
      ?p * 50 < int (length ?cs)"
    unfolding length_map by (rule page_full [OF p])
  obtain d where d: "calls_data env q t = Inr d"
    "cp_page d = ?p" "cp_total d = length ?cs" "cp_total_pages d = max 1 ((int (length ?cs) + 49) div 50)"
    "cp_rows d = map list_row (take 50 (drop (nat ((?p - 1) * 50)) ?cs))"
    "cp_prev d = (if 1 < ?p then pager_url ?f (?p - 1) else [])"
    "cp_next d = (if ?p * 50 < int (length ?cs) then pager_url ?f (?p + 1) else [])"
    using nxt [simplified] by (simp add: calls_data_def Let_def admin_page_size_def lc [simplified] o at_least_one add.commute [of 49])
  have h: "handle_admin_calls env q w = render_admin (ae_templ env (CallsPage d)) w"
    using Some d(1) by (simp add: handle_admin_calls_def require_db_def)
  show ?thesis unfolding Some option.case Let_def
    by (intro exI [of _ d] exI [of _ ?cs] conjI h m s d(2-))
qed

definition sample_env :: admin_env where
  "sample_env = \<lparr>ae_db = Some sample_log, ae_coll = (\<lambda>x. x), ae_err = (\<lambda>_. None), ae_tzdb = (\<lambda>_. None),
    ae_now = 13 * day_ns, ae_templ = (\<lambda>p. case p of CallsPage d \<Rightarrow> digits (cp_total d) | _ \<Rightarrow> []),
    ae_indent = (\<lambda>_. None)\<rparr>"

theorem calls_page_shows_witness:
  "rw_body (handle_admin_calls sample_env [] fresh_rw) = ''3''"
proof -
  have k: "\<forall>t. ae_db sample_env = Some t \<longrightarrow> distinct_keys (llm_calls t)"
    by (simp add: sample_env_def sample_log_def)
  have e: "\<forall>x. ae_err sample_env x = None" by (simp add: sample_env_def)
  have s: "ae_db sample_env = Some sample_log" by (simp add: sample_env_def)
  obtain d cs where d: "handle_admin_calls sample_env [] fresh_rw = render_admin (ae_templ sample_env (CallsPage d)) fresh_rw"
    "set cs = {(cid, c) \<in> set (llm_calls sample_log). filter_matches (ae_coll sample_env)
      (parse_admin_filter (ae_tzdb sample_env) [] (ae_now sample_env) ''calls'') [] c}"
    "sorted_wrt (\<lambda>a b. fst b < fst a) cs" "cp_total d = length cs"
    using calls_page_shows [OF k e, of fresh_rw "[]"] s by (auto simp: Let_def fresh_rw_def)
  have "{(cid, c) \<in> set (llm_calls sample_log). filter_matches (ae_coll sample_env)
      (parse_admin_filter (ae_tzdb sample_env) [] (ae_now sample_env) ''calls'') [] c} =
      set (filter (\<lambda>(cid, c). filter_matches (ae_coll sample_env)
        (parse_admin_filter (ae_tzdb sample_env) [] (ae_now sample_env) ''calls'') [] c) (llm_calls sample_log))" by auto
  also have "filter (\<lambda>(cid, c). filter_matches (ae_coll sample_env)
      (parse_admin_filter (ae_tzdb sample_env) [] (ae_now sample_env) ''calls'') [] c) (llm_calls sample_log) =
      llm_calls sample_log" by code_simp
  finally have "fst ` set cs = {1, 2, 3}" using d(2) by (simp add: sample_log_def)
  moreover have "distinct (rev (map fst cs))"
    using d(3) strict_sorted_iff [of "rev (map fst cs)"] by (simp add: sorted_wrt_rev sorted_wrt_map)
  then have "length cs = card (fst ` set cs)" by (metis distinct_card distinct_rev length_map list.set_map)
  ultimately have "length cs = 3" by simp
  then have "ae_templ sample_env (CallsPage d) = digits 3" using d(4) by (simp add: sample_env_def)
  moreover have "digits 3 = ''3''" by code_simp
  ultimately have "handle_admin_calls sample_env [] fresh_rw = render_admin ''3'' fresh_rw" using d(1) by simp
  moreover have "rw_body (render_admin ''3'' fresh_rw) = ''3''" by code_simp
  ultimately show ?thesis by simp
qed

subsection \<open>Stored files\<close>

lemma file_keys:
  "canonical_key ''Last-Modified'' \<notin> canonical_key ` {''Content-Type'', ''Content-Disposition'', ''Content-Encoding''}"
  "canonical_key ''Accept-Ranges'' \<notin> canonical_key ` {''Content-Type'', ''Content-Disposition'', ''Content-Encoding''}"
  "canonical_key ''Content-Length'' \<notin> canonical_key ` {''Content-Type'', ''Content-Disposition'', ''Content-Encoding''}"
  "canonical_key ''Content-Type'' \<notin> canonical_key ` {''Content-Disposition'', ''Content-Encoding''}"
  "canonical_key ''Content-Disposition'' \<notin> canonical_key ` {''Content-Type'', ''Content-Encoding''}"
  by code_simp+

lemma keep_if: "canonical_key k \<noteq> canonical_key k' \<Longrightarrow>
    header_values (rw_header (if c then set_header k' v w else w)) k = header_values (rw_header w) k"
  by (simp add: rw_values_set)

text \<open>What a plain request for a file is answered.\<close>

lemma serve_content_plain:
  assumes "\<not> conditional_request (req_header r)" "rw_sent w = None" "rw_room w = None" "req_method r = ''GET''"
  shows "\<exists>hdr. rw_sent (serve_content special modtime data r w) = Some (200, hdr) \<and>
    rw_body (serve_content special modtime data r w) = rw_body w @ data \<and>
    (\<forall>k \<in> {''Content-Type'', ''Content-Disposition''}. header_values hdr k = header_values (rw_header w) k)"
proof -
  let ?a = "if modtime = zero_time \<or> modtime = 0 then w else set_header ''Last-Modified'' (http_date modtime) w"
  let ?b = "set_header ''Accept-Ranges'' ''bytes'' ?a"
  let ?c = "if header_get (rw_header ?b) ''Content-Encoding'' = [] then
      set_header ''Content-Length'' (int_text (int (length data))) ?b else ?b"
  have e: "serve_content special modtime data r w =
      (if data = [] then write_header 200 ?c else write_ignoring data (write_header 200 ?c))"
    using assms(1,4) by (simp add: serve_content_def Let_def)
  have c: "rw_sent ?c = None" "rw_room ?c = None" "rw_body ?c = rw_body w" using assms(2,3) by (simp_all add: set_header_def)
  have "header_values (rw_header ?c) k = header_values (rw_header w) k" if "k \<in> {''Content-Type'', ''Content-Disposition''}" for k
  proof -
    have n: "canonical_key k \<noteq> canonical_key ''Last-Modified''" "canonical_key k \<noteq> canonical_key ''Accept-Ranges''"
      "canonical_key k \<noteq> canonical_key ''Content-Length''"
      using that file_keys(1-3) by auto
    have "header_values (rw_header ?a) k = header_values (rw_header w) k" using n(1) by (simp add: rw_values_set)
    then have "header_values (rw_header ?b) k = header_values (rw_header w) k" using n(2) by (simp add: rw_values_set)
    with keep_if [OF n(3)] show ?thesis by (rule trans)
  qed
  then have "\<forall>k \<in> {''Content-Type'', ''Content-Disposition''}. header_values (rw_header ?c) k = header_values (rw_header w) k"
    by blast
  moreover have "rw_sent (serve_content special modtime data r w) = Some (200, rw_header ?c) \<and>
      rw_body (serve_content special modtime data r w) = rw_body w @ data"
    unfolding e using c by (simp add: write_header_def rw_write_def body_allowed_def Let_def)
  ultimately show ?thesis by blast
qed

text \<open>The types a browser runs scripts in.\<close>

definition script_types :: "string list" where
  "script_types = [''text/html'', ''application/xhtml+xml'', ''image/svg+xml'', ''text/xml'', ''application/xml'',
    ''text/javascript'', ''application/javascript'']"

lemma inline_not_script: "inline_file_mime m \<Longrightarrow> to_lower (trim_space m) \<notin> set script_types"
  by (auto simp: inline_file_mime_def inline_mimes_def script_types_def Let_def split: if_splits)


definition sample_file :: llm_file where
  "sample_file = \<lparr>file_mime = ''text/html'', file_size = 32, file_data = replicate 32 CHR ''x'', file_created_at = 1,
    file_visited_at = 1\<rparr>"

definition sample_sha :: string where
  "sample_sha = hex_bytes (replicate 32 CHR ''a'')"

definition sample_files :: tables where
  "sample_files = \<lparr>llm_calls = [], llm_files = [(sample_sha, sample_file)], llm_call_files = [], next_call_id = 1\<rparr>"


end
