(* ===== verification/Gateway.thy ===== *)
theory Gateway
  imports ProxyCall AdminPages
begin

text \<open>
  \<^verbatim>\<open>server.go\<close>: the routes of the gateway, its health and model handlers, and the headers in front of
  everything; \<^verbatim>\<open>web_static.go\<close>: the names of the bundles. The matching of \<^verbatim>\<open>http.ServeMux\<close> is written out on
  the segments of the decoded path, for paths without an escaped slash or dot segment; \<open>gw_moved\<close> is its
  redirect of a path that is not clean, \<open>gw_files\<close> the file server behind \<^verbatim>\<open>/static/\<close>.
\<close>

subsection \<open>Routes\<close>

datatype route =
    RHealthz | RLogin | RLogout | RRoot | RStatic
  | RUsage | RCalls | RCall string | RFile string
  | RModels | RModel string
  | RProxy string bool

text \<open>One element of a pattern: a literal, \<^verbatim>\<open>{x}\<close>, \<^verbatim>\<open>{x...}\<close>, a trailing slash, \<^verbatim>\<open>{$}\<close>.\<close>

datatype pattern_seg = PLit string | PWild | PMulti | PTail | PEnd

fun match_segs :: "pattern_seg list \<Rightarrow> string list \<Rightarrow> string list option" where
  "match_segs [] [] = Some []"
| "match_segs [PMulti] (s # ss) = Some [join ''/'' (s # ss)]"
| "match_segs [PTail] (s # ss) = Some []"
| "match_segs [PEnd] [s] = (if s = [] then Some [] else None)"
| "match_segs (PLit l # ps) (s # ss) = (if s = l then match_segs ps ss else None)"
| "match_segs (PWild # ps) (s # ss) = (if s = [] then None else map_option ((#) s) (match_segs ps ss))"
| "match_segs _ _ = None"

definition path_segs :: "string \<Rightarrow> string list" where
  "path_segs path = split_on CHR ''/'' (tl path)"

definition lits :: "string \<Rightarrow> pattern_seg list" where
  "lits path = map PLit (path_segs path)"

record mux_entry =
  me_method :: string
  me_pattern :: "pattern_seg list"
  me_route :: "string list \<Rightarrow> route"

definition entry_of :: "string \<Rightarrow> pattern_seg list \<Rightarrow> (string list \<Rightarrow> route) \<Rightarrow> mux_entry" where
  "entry_of m p r = \<lparr>me_method = m, me_pattern = p, me_route = r\<rparr>"

abbreviation const_route :: "route \<Rightarrow> string list \<Rightarrow> route" where
  "const_route r \<equiv> (\<lambda>_. r)"

definition mux_routes :: "mux_entry list" where
  "mux_routes =
    [entry_of ''GET'' (lits ''/healthz'') (const_route RHealthz),
     entry_of ''GET'' (lits ''/login'') (const_route RLogin),
     entry_of ''POST'' (lits ''/login'') (const_route RLogin),
     entry_of ''POST'' (lits ''/logout'') (const_route RLogout),
     entry_of ''GET'' [PEnd] (const_route RRoot),
     entry_of ''GET'' (lits ''/static'' @ [PTail]) (const_route RStatic),
     entry_of ''GET'' (lits ''/usage'') (const_route RUsage),
     entry_of ''GET'' (lits ''/calls'') (const_route RCalls),
     entry_of ''GET'' (lits ''/calls'' @ [PWild]) (\<lambda>ms. RCall (hd ms)),
     entry_of ''GET'' (lits ''/files'' @ [PWild]) (\<lambda>ms. RFile (hd ms)),
     entry_of ''GET'' (lits ''/api.openai.com/v1/models'') (const_route RModels),
     entry_of ''GET'' (lits ''/api.openai.com/v1/models'' @ [PMulti]) (\<lambda>ms. RModel (hd ms)),
     entry_of ''POST'' (lits ''/api.openai.com/v1/chat/completions'') (const_route (RProxy protocolOpenAICompletions True)),
     entry_of ''POST'' (lits ''/api.openai.com/v1/completions'') (const_route (RProxy protocolOpenAICompletions True)),
     entry_of ''POST'' (lits ''/api.openai.com/v1/embeddings'') (const_route (RProxy protocolOpenAIEmbeddings False)),
     entry_of ''POST'' (lits ''/api.openai.com/v1/responses'') (const_route (RProxy protocolOpenAIResponses False)),
     entry_of ''POST'' (lits ''/api.anthropic.com/v1/messages'') (const_route (RProxy protocolAnthropicMessages False)),
     entry_of ''POST'' (lits ''/dashscope.aliyuncs.com/api/v1/services/embeddings/multimodal-embedding/multimodal-embedding'')
       (const_route (RProxy protocolBailianMultimodalEmbedding False)),
     entry_of ''POST'' (lits ''/ollama.com/api/chat'') (const_route (RProxy protocolOllamaChat False)),
     entry_of ''POST'' (lits ''/api.typesafe.ai/v1/systemone'') (const_route (RProxy protocolTypeSafeSystemOne False))]"

text \<open>A \<^verbatim>\<open>GET\<close> pattern matches \<^verbatim>\<open>HEAD\<close>, too. No two patterns of a method match the same path.\<close>

definition entry_methods :: "mux_entry \<Rightarrow> string list" where
  "entry_methods e = (if me_method e = ''GET'' then [''GET'', ''HEAD''] else [me_method e])"

fun find_route :: "mux_entry list \<Rightarrow> string \<Rightarrow> string list \<Rightarrow> route option" where
  "find_route [] meth segs = None"
| "find_route (e # es) meth segs =
    (if meth \<in> set (entry_methods e) then
       (case match_segs (me_pattern e) segs of
          Some ms \<Rightarrow> Some (me_route e ms)
        | None \<Rightarrow> find_route es meth segs)
     else find_route es meth segs)"

definition allowed_methods :: "mux_entry list \<Rightarrow> string list \<Rightarrow> string list" where
  "allowed_methods es segs =
    concat (map entry_methods (filter (\<lambda>e. match_segs (me_pattern e) segs \<noteq> None) es))"

definition path_methods :: "mux_entry list \<Rightarrow> string list \<Rightarrow> string list" where
  "path_methods es segs =
    (let ms = allowed_methods es segs @ (if last segs = [] then [] else allowed_methods es (segs @ [[]])) in
     sort (remdups ms))"

text \<open>
  What \<^verbatim>\<open>ServeMux\<close> does not look up: paths it would clean, and \<^verbatim>\<open>/static\<close>, for which only \<^verbatim>\<open>/static/\<close> is
  registered. For the methods it allows it tries the path with a slash at its end, too.
\<close>

definition clean_path :: "string \<Rightarrow> bool" where
  "clean_path path =
    (path \<noteq> [] \<and> hd path = CHR ''/'' \<and>
     [] \<notin> set (butlast (path_segs path)) \<and> ''.'' \<notin> set (path_segs path) \<and> ''..'' \<notin> set (path_segs path))"

definition mux_moves :: "string \<Rightarrow> string \<Rightarrow> bool" where
  "mux_moves meth path = (\<not> clean_path path \<or> (path = ''/static'' \<and> meth \<in> {''GET'', ''HEAD''}))"

subsection \<open>The server\<close>

record gateway_request = admin_request +
  req_query :: query

record gateway =
  gw_server :: admin_server
  gw_sha :: "bytes \<Rightarrow> bytes"
  gw_hmac :: "bytes \<Rightarrow> bytes \<Rightarrow> bytes"
  gw_started :: int
  gw_seconds :: int
  gw_login_page :: "string \<Rightarrow> bytes"
  gw_admin :: admin_env
  gw_special :: "int \<Rightarrow> bytes \<Rightarrow> admin_request \<Rightarrow> call_rw \<Rightarrow> call_rw"
  gw_logger :: bool
  gw_proxy :: proxy_env
  gw_files :: "admin_request \<Rightarrow> call_rw \<Rightarrow> call_rw"
  gw_moved :: "admin_request \<Rightarrow> call_rw \<Rightarrow> call_rw"

definition handle_healthz :: "'a rw_scheme \<Rightarrow> 'a rw_scheme" where
  "handle_healthz w = write_ignoring ''OK'' (set_header ''Content-Type'' ''text/plain; charset=utf-8'' w)"

definition openai_model :: "int \<Rightarrow> string \<Rightarrow> json_value" where
  "openai_model started name =
    JStruct [(''id'', JStr name), (''object'', JStr ''model''), (''created'', JInt started), (''owned_by'', JStr ''nanollm'')]"

definition handle_models :: "config option \<Rightarrow> int \<Rightarrow> 'a rw_scheme \<Rightarrow> 'a rw_scheme" where
  "handle_models c started w =
    write_json 200 (JMap [(''object'', JStr ''list''), (''data'', JList (map (openai_model started) (model_names c)))]) w"

definition handle_model :: "config option \<Rightarrow> int \<Rightarrow> string \<Rightarrow> 'a rw_scheme \<Rightarrow> 'a rw_scheme" where
  "handle_model c started name w =
    (if model_of c name = None then
       write_api_error 404 ''invalid_request_error'' (''the model '' @ [CHR 0x60] @ name @ [CHR 0x60] @ '' does not exist'') w
     else write_json 200 (openai_model started name) w)"

text \<open>\<^verbatim>\<open>requireAPIKey\<close> in front of a handler that may still be waiting.\<close>

definition require_api_key_call ::
  "(string \<Rightarrow> string) \<Rightarrow> config option \<Rightarrow> (http_request \<Rightarrow> 'a rw_scheme \<Rightarrow> 'a rw_scheme option) \<Rightarrow> string \<Rightarrow>
    http_request \<Rightarrow> 'a rw_scheme \<Rightarrow> 'a rw_scheme option" where
  "require_api_key_call sha c next_handler protocol r w =
    (case lookup_api_key sha c (extract_api_key r) of
       None \<Rightarrow> Some (require_api_key sha c (\<lambda>_ w. w) protocol r w)
     | Some key \<Rightarrow> next_handler (with_api_key_name r (KeyName key)) w)"

definition static_handler :: "(admin_request \<Rightarrow> 'a rw_scheme \<Rightarrow> 'a rw_scheme) \<Rightarrow> admin_request \<Rightarrow> 'a rw_scheme \<Rightarrow> 'a rw_scheme" where
  "static_handler files r w = files r (set_header ''Cache-Control'' ''public, max-age=31536000, immutable'' w)"

definition run_route :: "gateway \<Rightarrow> route \<Rightarrow> gateway_request \<Rightarrow> call_rw \<Rightarrow> call_rw option" where
  "run_route g rt r0 w =
    (let c = srv_config (gw_server g); r = admin_request.truncate r0; hr = http_request.truncate r;
         q = req_query r0;
         admin = (\<lambda>h. Some (require_admin (gw_hmac g) (gw_server g) (gw_seconds g) h r w));
         api = (\<lambda>h. require_api_key_call (gw_sha g) c h protocolOpenAICompletions hr w) in
     case rt of
       RHealthz \<Rightarrow> Some (handle_healthz w)
     | RLogin \<Rightarrow> Some (handle_admin_login (gw_sha g) (gw_hmac g) (gw_login_page g) (gw_server g) (gw_seconds g) r w)
     | RLogout \<Rightarrow> Some (handle_admin_logout r w)
     | RRoot \<Rightarrow> Some (redirect_found (req_method r) ''/usage'' w)
     | RStatic \<Rightarrow> Some (static_handler (gw_files g) r w)
     | RUsage \<Rightarrow> admin (\<lambda>r w. handle_admin_usage (gw_admin g) q w)
     | RCalls \<Rightarrow> admin (\<lambda>r w. handle_admin_calls (gw_admin g) q w)
     | RCall i \<Rightarrow> admin (\<lambda>r w. handle_admin_call (gw_admin g) i q w)
     | RFile s \<Rightarrow> admin (\<lambda>r w. handle_admin_file (gw_special g) (gw_admin g) s r w)
     | RModels \<Rightarrow> api (\<lambda>r w. Some (handle_models c (gw_started g) w))
     | RModel name \<Rightarrow> api (\<lambda>r w. Some (handle_model c (gw_started g) name w))
     | RProxy protocol inject \<Rightarrow>
         require_api_key_call (gw_sha g) c
           (serve (gw_proxy g)
             \<lparr>px_config = c, px_logger = gw_logger g, px_protocol = protocol, px_inject = inject\<rparr>)
           (if protocol \<in> {protocolAnthropicMessages, protocolOllamaChat, protocolTypeSafeSystemOne}
            then protocol else protocolOpenAICompletions) hr w)"

definition mux_serve :: "gateway \<Rightarrow> gateway_request \<Rightarrow> call_rw \<Rightarrow> call_rw option" where
  "mux_serve g r w =
    (if mux_moves (req_method r) (req_path r) then Some (gw_moved g (admin_request.truncate r) w)
     else
       (case find_route mux_routes (req_method r) (path_segs (req_path r)) of
          Some rt \<Rightarrow> run_route g rt r w
        | None \<Rightarrow>
            let ms = path_methods mux_routes (path_segs (req_path r)) in
            if ms \<noteq> [] then
              Some (http_error ''Method Not Allowed'' 405 (set_header ''Allow'' (join '', '' ms) w))
            else Some (not_found w)))"

subsection \<open>Headers in front of everything\<close>

definition is_admin_page :: "string \<Rightarrow> bool" where
  "is_admin_page path =
    (if path = ''/'' then True
     else list_ex (\<lambda>p. prefix p path) [''/usage'', ''/calls'', ''/files'', ''/login'', ''/logout''])"

definition dashboard_csp :: string where
  "dashboard_csp = join ''; ''
    [''default-src '' @ [CHR 0x27] @ ''none'' @ [CHR 0x27], ''script-src '' @ [CHR 0x27] @ ''self'' @ [CHR 0x27],
     ''style-src '' @ [CHR 0x27] @ ''self'' @ [CHR 0x27] @ '' '' @ [CHR 0x27] @ ''unsafe-inline'' @ [CHR 0x27],
     ''img-src '' @ [CHR 0x27] @ ''self'' @ [CHR 0x27] @ '' data:'', ''media-src '' @ [CHR 0x27] @ ''self'' @ [CHR 0x27],
     ''connect-src '' @ [CHR 0x27] @ ''self'' @ [CHR 0x27], ''form-action '' @ [CHR 0x27] @ ''self'' @ [CHR 0x27],
     ''base-uri '' @ [CHR 0x27] @ ''none'' @ [CHR 0x27], ''frame-ancestors '' @ [CHR 0x27] @ ''none'' @ [CHR 0x27]]"

definition with_security_headers ::
  "(gateway_request \<Rightarrow> 'a rw_scheme \<Rightarrow> 'b) \<Rightarrow> gateway_request \<Rightarrow> 'a rw_scheme \<Rightarrow> 'b" where
  "with_security_headers next_handler r w =
    (let w = set_header ''X-Content-Type-Options'' ''nosniff'' w;
         w = set_header ''X-Frame-Options'' ''DENY'' w;
         w = set_header ''Referrer-Policy'' ''no-referrer'' w;
         w = (if is_admin_page (req_path r) then
                set_header ''Content-Security-Policy'' dashboard_csp (set_header ''Cache-Control'' ''no-store'' w)
              else w) in
     next_handler r w)"

definition gateway_serve :: "gateway \<Rightarrow> gateway_request \<Rightarrow> call_rw \<Rightarrow> call_rw option" where
  "gateway_serve g = with_security_headers (mux_serve g)"

subsection \<open>Bundles\<close>

fun match_asset :: "string list \<Rightarrow> string \<Rightarrow> string \<Rightarrow> string" where
  "match_asset [] name ext = []"
| "match_asset (f # fs) name ext =
    (if f = name @ ''.'' @ ext then f
     else if prefix (name @ ''-'') f \<and> suffix (''.'' @ ext) f then f
     else match_asset fs name ext)"

definition js_asset :: "string list \<Rightarrow> string \<Rightarrow> string" where
  "js_asset files name =
    (let m = match_asset files name ''js'' in if m \<noteq> [] then ''/static/'' @ m else ''/static/'' @ name @ ''.js'')"

definition css_asset :: "string list \<Rightarrow> string \<Rightarrow> string" where
  "css_asset files name =
    (let m = match_asset files name ''css'' in if m \<noteq> [] then ''/static/'' @ m else ''/static/'' @ name @ ''.css'')"

subsection \<open>Which paths lead to the dashboard\<close>

lemma match_segs_lit: "match_segs (PLit l # ps) segs = Some ms \<longleftrightarrow> (\<exists>ss. segs = l # ss \<and> match_segs ps ss = Some ms)"
  by (cases segs) auto

lemma find_route_entry:
  "find_route es m segs = Some rt \<Longrightarrow>
    \<exists>e \<in> set es. \<exists>ms. m \<in> set (entry_methods e) \<and> match_segs (me_pattern e) segs = Some ms \<and> rt = me_route e ms"
  by (induction es) (auto split: if_splits option.splits)

lemma path_prefix:
  assumes "clean_path path" "path_segs path = s # ss"
  shows "path = CHR ''/'' # join ''/'' (s # ss)"
  using join_split_on [of "CHR ''/''" "tl path"] assms by (cases path) (auto simp: clean_path_def path_segs_def)

lemma first_seg_prefix:
  assumes "clean_path path" "path_segs path = s # ss"
  shows "prefix (CHR ''/'' # s) path"
  using path_prefix [OF assms] by (cases ss) auto

definition dashboard_route :: "route \<Rightarrow> bool" where
  "dashboard_route rt =
    (case rt of
       RLogin \<Rightarrow> True | RLogout \<Rightarrow> True | RRoot \<Rightarrow> True | RUsage \<Rightarrow> True | RCalls \<Rightarrow> True
     | RCall _ \<Rightarrow> True | RFile _ \<Rightarrow> True | _ \<Rightarrow> False)"

lemma dashboard_segs:
  assumes "find_route mux_routes m segs = Some rt" "dashboard_route rt"
  shows "segs = [[]] \<or> (\<exists>s ss. segs = s # ss \<and> s \<in> {''usage'', ''calls'', ''files'', ''login'', ''logout''})"
proof -
  obtain e ms where e: "e \<in> set mux_routes" "match_segs (me_pattern e) segs = Some ms" "rt = me_route e ms"
    using find_route_entry [OF assms(1)] by blast
  have end_seg: "match_segs [PEnd] segs = Some ms \<Longrightarrow> segs = [[]]"
    by (cases segs; cases "tl segs") (auto split: if_splits)
  show ?thesis
    using e assms(2) end_seg
    by (auto simp: mux_routes_def entry_of_def lits_def path_segs_def match_segs_lit dashboard_route_def)
qed

lemma dashboard_paths:
  assumes "clean_path path" "find_route mux_routes m (path_segs path) = Some rt" "dashboard_route rt"
  shows "is_admin_page path"
  using dashboard_segs [OF assms(2,3)]
proof (elim disjE exE conjE)
  assume "path_segs path = [[]]"
  then show ?thesis using path_prefix [OF assms(1)] by (simp add: is_admin_page_def)
next
  fix s ss assume s: "path_segs path = s # ss" "s \<in> {''usage'', ''calls'', ''files'', ''login'', ''logout''}"
  then show ?thesis using first_seg_prefix [OF assms(1) s(1)] by (auto simp: is_admin_page_def)
qed

subsection \<open>Headers the handlers leave alone\<close>

text \<open>Keys the dashboard's handlers set, and the headers \<^verbatim>\<open>withSecurityHeaders\<close> puts on its pages.\<close>

definition handler_keys :: "string list" where
  "handler_keys = [''Content-Type'', ''Location'', ''Set-Cookie'', ''Content-Length'', ''Content-Disposition'',
    ''Last-Modified'', ''Accept-Ranges'']"

definition dashboard_headers :: "(string \<times> string) list" where
  "dashboard_headers =
    [(''X-Content-Type-Options'', ''nosniff''), (''X-Frame-Options'', ''DENY''), (''Referrer-Policy'', ''no-referrer''),
     (''Cache-Control'', ''no-store''), (''Content-Security-Policy'', dashboard_csp)]"

definition kept :: "string \<Rightarrow> string \<Rightarrow> 'a rw_scheme \<Rightarrow> bool" where
  "kept k v w \<longleftrightarrow>
    header_values (rw_header w) k = [v] \<and> (\<forall>st h. rw_sent w = Some (st, h) \<longrightarrow> header_values h k = [v])"

locale protected_header =
  fixes k v :: string
  assumes apart: "\<forall>k' \<in> set handler_keys. canonical_key k \<noteq> canonical_key k'"
    and sniff: "canonical_key k = canonical_key ''X-Content-Type-Options'' \<Longrightarrow> v = ''nosniff''"
begin

lemma set_other: "canonical_key k' \<noteq> canonical_key k \<Longrightarrow> kept k v (set_header k' x w) = kept k v w"
  by (simp add: kept_def rw_values_set)

lemma set_handler: "k' \<in> set handler_keys \<Longrightarrow> kept k v (set_header k' x w) = kept k v w"
  using apart set_other by metis

lemma handler_sets [simp]:
  "kept k v (set_header ''Content-Type'' x w) = kept k v w"
  "kept k v (set_header ''Location'' x w) = kept k v w"
  "kept k v (set_header ''Content-Length'' x w) = kept k v w"
  "kept k v (set_header ''Content-Disposition'' x w) = kept k v w"
  "kept k v (set_header ''Last-Modified'' x w) = kept k v w"
  "kept k v (set_header ''Accept-Ranges'' x w) = kept k v w"
  by (simp_all add: set_handler handler_keys_def)

lemma set_sniff: "kept k v w \<Longrightarrow> kept k v (set_header ''X-Content-Type-Options'' ''nosniff'' w)"
  using sniff by (cases "canonical_key k = canonical_key ''X-Content-Type-Options''") (auto simp: kept_def rw_values_set)

lemma kept_cookie [simp]: "kept k v (set_cookie t w) = kept k v w"
  using apart by (simp add: kept_def header_values_add handler_keys_def)

lemma kept_write_header: "kept k v w \<Longrightarrow> kept k v (write_header st w)"
  by (auto simp: kept_def write_header_def)

lemma kept_write: "kept k v w \<Longrightarrow> kept k v (write_ignoring p w)"
  using kept_write_header [of w 200]
  by (auto simp: rw_write_def Let_def kept_def split: option.splits)

lemma kept_no_length: "kept k v (w\<lparr>rw_header := header_del ''Content-Length'' (rw_header w)\<rparr>) = kept k v w"
  using apart by (simp add: kept_def header_values_del handler_keys_def)

lemma kept_error: "kept k v w \<Longrightarrow> kept k v (http_error msg code w)"
  by (simp add: http_error_def kept_write kept_write_header set_sniff kept_no_length)

lemma kept_redirect: "kept k v w \<Longrightarrow> kept k v (redirect_found meth url w)"
  by (simp add: redirect_found_def Let_def kept_write kept_write_header)

lemma kept_render: "kept k v w \<Longrightarrow> kept k v (render_admin page w)"
  by (simp add: render_admin_def Let_def kept_write)

lemmas kept_answers = kept_error kept_redirect kept_render kept_write kept_write_header

lemma kept_db: "kept k v w \<Longrightarrow> kept k v (snd (require_db env w))"
  by (simp add: require_db_def kept_error split: option.splits)

lemma kept_login: "kept k v w \<Longrightarrow> kept k v (handle_admin_login sha hmac page s now r w)"
  by (simp add: handle_admin_login_def set_admin_cookie_def kept_answers split: option.splits)

lemma kept_logout: "kept k v w \<Longrightarrow> kept k v (handle_admin_logout r w)"
  by (simp add: handle_admin_logout_def clear_admin_cookie_def kept_answers)

lemma kept_usage: "kept k v w \<Longrightarrow> kept k v (handle_admin_usage env q w)"
  by (simp add: handle_admin_usage_def require_db_def Let_def kept_answers split: option.splits sum.splits)

lemma kept_calls: "kept k v w \<Longrightarrow> kept k v (handle_admin_calls env q w)"
  by (simp add: handle_admin_calls_def require_db_def Let_def kept_answers split: option.splits sum.splits)

lemma kept_call: "kept k v w \<Longrightarrow> kept k v (handle_admin_call env i q w)"
  by (simp add: handle_admin_call_def require_db_def Let_def kept_answers split: option.splits)

lemma kept_content:
  "\<not> conditional_request (req_header r) \<Longrightarrow> kept k v w \<Longrightarrow> kept k v (serve_content special modtime data r w)"
  by (simp add: serve_content_def Let_def kept_answers)

lemma kept_file:
  "\<not> conditional_request (req_header r) \<Longrightarrow> kept k v w \<Longrightarrow> kept k v (handle_admin_file special env s r w)"
  by (simp add: handle_admin_file_def require_db_def Let_def kept_answers kept_content split: option.splits)

lemma kept_admin:
  "kept k v w \<Longrightarrow> (kept k v w \<Longrightarrow> kept k v (h r w)) \<Longrightarrow> kept k v (require_admin hmac s now h r w)"
  by (simp add: require_admin_def kept_redirect)

lemma kept_dashboard:
  assumes "dashboard_route rt" "\<not> conditional_request (req_header r)" "kept k v w"
  shows "\<exists>w'. run_route g rt r w = Some w' \<and> kept k v w'"
  using assms
  by (cases rt)
    (auto simp: run_route_def Let_def dashboard_route_def admin_request.defs
      intro!: kept_login kept_logout kept_redirect kept_admin kept_usage kept_calls kept_call kept_file)

end

lemma header_keys_apart:
  "list_all (\<lambda>(k, v). list_all (\<lambda>k'. canonical_key k \<noteq> canonical_key k') handler_keys \<and>
     (canonical_key k = canonical_key ''X-Content-Type-Options'' \<longrightarrow> v = ''nosniff'')) dashboard_headers"
  "distinct (map (canonical_key \<circ> fst) dashboard_headers)"
  by code_simp+

interpretation sniff_header: protected_header "''X-Content-Type-Options''" "''nosniff''"
  using header_keys_apart(1) by unfold_locales (auto simp: dashboard_headers_def list_all_iff)

interpretation frame_header: protected_header "''X-Frame-Options''" "''DENY''"
  using header_keys_apart(1) by unfold_locales (auto simp: dashboard_headers_def list_all_iff)

interpretation referrer_header: protected_header "''Referrer-Policy''" "''no-referrer''"
  using header_keys_apart(1) by unfold_locales (auto simp: dashboard_headers_def list_all_iff)

interpretation cache_header: protected_header "''Cache-Control''" "''no-store''"
  using header_keys_apart(1) by unfold_locales (auto simp: dashboard_headers_def list_all_iff)

interpretation csp_header: protected_header "''Content-Security-Policy''" dashboard_csp
  using header_keys_apart(1) by unfold_locales (auto simp: dashboard_headers_def list_all_iff)

text \<open>The header the client gets: the one sent, or what \<^verbatim>\<open>net/http\<close> sends when the handler has returned.\<close>

definition final_header :: "'a rw_scheme \<Rightarrow> header" where
  "final_header w = (case rw_sent w of Some (_, h) \<Rightarrow> h | None \<Rightarrow> rw_header w)"

lemma kept_final: "kept k v w \<Longrightarrow> header_values (final_header w) k = [v]"
  by (auto simp: kept_def final_header_def split: option.splits)

definition guarded_rw :: "'a rw_scheme \<Rightarrow> 'a rw_scheme" where
  "guarded_rw w = fold (\<lambda>(k, v). set_header k v) dashboard_headers w"

lemma guarded_values:
  assumes "(k, v) \<in> set dashboard_headers"
  shows "header_values (rw_header (guarded_rw w)) k = [v]"
  using assms header_keys_apart(2)
  by (auto simp: guarded_rw_def dashboard_headers_def rw_values_set)

lemma guarded_kept: "rw_sent w = None \<Longrightarrow> (k, v) \<in> set dashboard_headers \<Longrightarrow> kept k v (guarded_rw w)"
  using guarded_values [of k v w] by (simp add: kept_def guarded_rw_def dashboard_headers_def)

lemma with_security_headers_admin:
  "is_admin_page (req_path r) \<Longrightarrow> with_security_headers h r w = h r (guarded_rw w)"
  by (simp add: with_security_headers_def guarded_rw_def dashboard_headers_def Let_def)


subsection \<open>What strangers learn\<close>

lemma lookup_same_keys: "APIKeys c = APIKeys c' \<Longrightarrow> lookup_api_key sha (Some c) key = lookup_api_key sha (Some c') key"
  by (simp add: lookup_api_key_def)

text \<open>
  C15: who learns what. To a request without a session the gateway answers the same whatever its database
  holds (and whatever serves the files and renders the pages behind the gate); to one without a configured
  API key it answers the same whatever models and providers it has, whatever the providers would answer, and
  whenever it was started. Strangers thus learn nothing of the log or the models, and API keys open no part of
  the log.
\<close>

theorem gateway_isolation:
  assumes "gw_server g = \<lparr>srv_config = Some c, srv_admin_key = key\<rparr>"
    and "Admin c' = Admin c" "APIKeys c' = APIKeys c"
  shows "(\<not> admin_cookie_valid (gw_hmac g) (gw_server g) (gw_seconds g) (admin_request.truncate r) \<longrightarrow>
      gateway_serve (g\<lparr>gw_admin := a, gw_special := sp\<rparr>) r w = gateway_serve g r w) \<and>
    (lookup_api_key (gw_sha g) (Some c) (extract_api_key (http_request.truncate r)) = None \<longrightarrow>
      gateway_serve
        (g\<lparr>gw_server := \<lparr>srv_config = Some c', srv_admin_key = key\<rparr>, gw_started := st, gw_logger := l, gw_proxy := p\<rparr>) r w =
      gateway_serve g r w)"
proof (intro conjI impI)
  let ?g = "g\<lparr>gw_admin := a, gw_special := sp\<rparr>"
  assume no: "\<not> admin_cookie_valid (gw_hmac g) (gw_server g) (gw_seconds g) (admin_request.truncate r)"
  have "run_route ?g rt r w = run_route g rt r w" for rt w
    using no by (cases rt) (simp_all add: run_route_def require_admin_def Let_def)
  then show "gateway_serve ?g r w = gateway_serve g r w"
    by (simp add: gateway_serve_def with_security_headers_def mux_serve_def Let_def split: option.splits)
next
  let ?g = "g\<lparr>gw_server := \<lparr>srv_config = Some c', srv_admin_key = key\<rparr>, gw_started := st, gw_logger := l, gw_proxy := p\<rparr>"
  assume no: "lookup_api_key (gw_sha g) (Some c) (extract_api_key (http_request.truncate r)) = None"
  have no': "lookup_api_key (gw_sha g) (Some c') (extract_api_key (http_request.truncate r)) = None"
    using no lookup_same_keys [OF assms(3)] by simp
  note cookies = require_admin_def admin_cookie_valid_def handle_admin_login_def check_admin_login_def set_admin_cookie_def
  have "run_route ?g rt r w = run_route g rt r w" for rt w
    using no no' assms
    by (cases rt)
      (simp_all add: run_route_def require_api_key_call_def require_api_key_def cookies http_request.defs admin_request.defs Let_def
        split: option.splits)
  then show "gateway_serve ?g r w = gateway_serve g r w"
    by (simp add: gateway_serve_def with_security_headers_def mux_serve_def Let_def split: option.splits)
qed

text \<open>The routes and the two properties on small requests.\<close>

definition sample_get :: "string \<Rightarrow> string \<Rightarrow> gateway_request" where
  "sample_get meth path = \<lparr>req_path = path, req_header = [], req_body = [], req_read_fails = False, req_tls = False,
     req_key_name = None, req_method = meth, req_form = None, req_query = []\<rparr>"

lemma route_examples:
  "find_route mux_routes ''GET'' (path_segs ''/calls/17'') = Some (RCall ''17'')"
  "find_route mux_routes ''HEAD'' (path_segs ''/calls'') = Some RCalls"
  "find_route mux_routes ''GET'' (path_segs ''/calls/'') = None"
  "find_route mux_routes ''GET'' (path_segs ''/api.openai.com/v1/models/a/b'') = Some (RModel ''a/b'')"
  "find_route mux_routes ''POST'' (path_segs ''/api.openai.com/v1/models'') = None"
  "path_methods mux_routes (path_segs ''/api.openai.com/v1/models'') = [''GET'', ''HEAD'']"
  "path_methods mux_routes (path_segs ''/login'') = [''GET'', ''HEAD'', ''POST'']"
  "path_methods mux_routes (path_segs ''/static'') = [''GET'', ''HEAD'']"
  by code_simp+


definition sample_gateway :: gateway where
  "sample_gateway = \<lparr>gw_server = new_server (\<lambda>x. x) (Some sample_config), gw_sha = (\<lambda>x. x), gw_hmac = (\<lambda>k m. m),
     gw_started = 7, gw_seconds = 41, gw_login_page = (\<lambda>_. ''login''), gw_admin = AdminPages.sample_env,
     gw_special = (\<lambda>_ _ _ w. w), gw_logger = True, gw_proxy = ProxyCall.sample_env (Inr sample_response),
     gw_files = (\<lambda>_ w. w), gw_moved = (\<lambda>_ w. w)\<rparr>"


theorem gateway_isolation_witness:
  "gateway_serve (sample_gateway\<lparr>gw_admin := AdminPages.sample_env\<lparr>ae_db := None\<rparr>, gw_special := (\<lambda>_ _ _ w. w)\<rparr>)
      (sample_get ''GET'' ''/calls'') fresh_call =
    gateway_serve sample_gateway (sample_get ''GET'' ''/calls'') fresh_call \<and>
   gateway_serve
      (sample_gateway\<lparr>gw_server := \<lparr>srv_config = Some (sample_config\<lparr>Models := []\<rparr>), srv_admin_key = srv_admin_key (gw_server sample_gateway)\<rparr>,
        gw_started := 8, gw_logger := False, gw_proxy := ProxyCall.sample_env (Inl end_of_file)\<rparr>)
      (sample_get ''GET'' ''/api.openai.com/v1/models'') fresh_call =
    gateway_serve sample_gateway (sample_get ''GET'' ''/api.openai.com/v1/models'') fresh_call"
proof (rule conjI, goal_cases)
  have s: "gw_server sample_gateway =
      \<lparr>srv_config = Some sample_config, srv_admin_key = srv_admin_key (gw_server sample_gateway)\<rparr>"
    by (simp add: sample_gateway_def new_server_def)
  have c: "Admin (sample_config\<lparr>Models := []\<rparr>) = Admin sample_config" "APIKeys (sample_config\<lparr>Models := []\<rparr>) = APIKeys sample_config"
    by simp_all
  note iso = gateway_isolation [OF s c]
  case 1
  have "request_cookie [] admin_cookie_name = None" by code_simp
  then have "\<not> admin_cookie_valid (gw_hmac sample_gateway) (gw_server sample_gateway) (gw_seconds sample_gateway)
      (admin_request.truncate (sample_get ''GET'' ''/calls''))"
    by (simp add: admin_cookie_valid_def sample_get_def admin_request.defs)
  then show ?case using iso by blast
  case 2
  have "extract_api_key (http_request.truncate (sample_get ''GET'' ''/api.openai.com/v1/models'')) = []" by code_simp
  then show ?case using iso by (simp add: lookup_api_key_def)
qed

end
