(* ===== verification/Startup.thy ===== *)
theory Startup
  imports AdminAuth Db
begin

text \<open>
  \<^verbatim>\<open>main.go\<close>, and what it opens: \<^verbatim>\<open>loadConfig\<close> of \<^verbatim>\<open>config.go\<close>, \<^verbatim>\<open>normalizeMySQLDSN\<close> and \<^verbatim>\<open>openDB\<close> of \<^verbatim>\<open>db.go\<close>. The
  file system, YAML, the driver's DSN parser and formatter, gorm and the listening socket are fields of
  \<open>start_env\<close>; a run of the program is its exit status and the events it causes outside.
\<close>

subsection \<open>The data source name\<close>

text \<open>The fields of the driver's configuration the code touches; a record extending it holds the rest.\<close>

record dsn_config =
  dsn_parse_time :: bool
  dsn_loc :: string
  dsn_params :: "string gomap option"

definition normalize_mysql_dsn ::
  "(string \<Rightarrow> go_error + 'a dsn_config_scheme) \<Rightarrow> ('a dsn_config_scheme \<Rightarrow> go_error + 'a dsn_config_scheme) \<Rightarrow>
    ('a dsn_config_scheme \<Rightarrow> string) \<Rightarrow> string \<Rightarrow> go_error + string" where
  "normalize_mysql_dsn parse apply_charset format dsn =
    (case parse dsn of
       Inl e \<Rightarrow> Inl e
     | Inr cfg \<Rightarrow>
         (case apply_charset (cfg\<lparr>dsn_parse_time := True, dsn_loc := ''UTC''\<rparr>) of
            Inl e \<Rightarrow> Inl e
          | Inr cfg \<Rightarrow>
              let params = the_or [] (dsn_params cfg);
                  params = AList.delete ''charset'' params;
                  params = mset_key ''time_zone'' ([CHR 0x27] @ ''UTC'' @ [CHR 0x27]) params in
              Inr (format (cfg\<lparr>dsn_params := Some params\<rparr>))))"

subsection \<open>The environment\<close>

datatype start_error =
    ReadConfig go_error
  | DecodeConfig go_error
  | InvalidConfig config_error
  | InvalidDsn go_error
  | OpenDatabase go_error
  | ServeFailed go_error

record start_flags =
  flag_config :: "string option"
  flag_listen :: "string option"

text \<open>
  \<open>se_flags\<close> is \<^verbatim>\<open>flag.Parse\<close>: the flags given, or the status it exits with. \<open>se_listen\<close> is \<^verbatim>\<open>None\<close> when a signal
  ends the program and the error of \<^verbatim>\<open>ListenAndServe\<close> (with whether it is \<^verbatim>\<open>ErrServerClosed\<close>) otherwise.
\<close>

record 'c start_env =
  se_env :: "string \<Rightarrow> string"
  se_flags :: "int + start_flags"
  se_read :: "string \<Rightarrow> go_error + bytes"
  se_yaml :: "bytes \<Rightarrow> go_error + config"
  se_url_parse :: "string \<Rightarrow> (string \<times> string) option"
  se_parse_dsn :: "string \<Rightarrow> go_error + 'c"
  se_charset :: "'c \<Rightarrow> go_error + 'c"
  se_format_dsn :: "'c \<Rightarrow> string"
  se_open :: "string \<Rightarrow> go_error option"
  se_pool :: "go_error option"
  se_migrate :: "go_error option"
  se_sha :: "bytes \<Rightarrow> bytes"
  se_listen :: "(bool \<times> go_error) option"
  se_shutdown :: "go_error option"

datatype start_event =
    DbOpened string
  | PoolSize int int int
  | Migrated
  | DbClosed
  | Serving string admin_server call_logger
  | ShutDown
  | ExitedWith start_error

subsection \<open>Startup\<close>

definition env_or :: "(string \<Rightarrow> string) \<Rightarrow> string \<Rightarrow> string \<Rightarrow> string" where
  "env_or env key fallback = (let v = env key in if v \<noteq> [] then v else fallback)"

abbreviation se_normalize :: "('a dsn_config_scheme) start_env \<Rightarrow> string \<Rightarrow> go_error + string" where
  "se_normalize env \<equiv> normalize_mysql_dsn (se_parse_dsn env) (se_charset env) (se_format_dsn env)"

definition load_config :: "('a dsn_config_scheme) start_env \<Rightarrow> string \<Rightarrow> start_error + config" where
  "load_config env path =
    (case se_read env path of
       Inl e \<Rightarrow> Inl (ReadConfig e)
     | Inr raw \<Rightarrow>
         (case se_yaml env raw of
            Inl e \<Rightarrow> Inl (DecodeConfig e)
          | Inr cfg \<Rightarrow>
              (case validate (se_url_parse env) (\<lambda>d. \<not> isl (se_normalize env d)) (Some cfg) of
                 Inl e \<Rightarrow> Inl (InvalidConfig e)
               | Inr cfg \<Rightarrow> Inr cfg)))"

definition open_db :: "('a dsn_config_scheme) start_env \<Rightarrow> config \<Rightarrow> start_error option \<times> start_event list" where
  "open_db env cfg =
    (case se_normalize env (DSN cfg) of
       Inl e \<Rightarrow> (Some (InvalidDsn e), [])
     | Inr dsn \<Rightarrow>
         (case se_open env dsn of
            Some e \<Rightarrow> (Some (OpenDatabase e), [])
          | None \<Rightarrow>
              (case se_pool env of
                 Some e \<Rightarrow> (Some (OpenDatabase e), [DbOpened dsn])
               | None \<Rightarrow>
                   let es = [DbOpened dsn, PoolSize 32 8 (30 * 60 * 1000000000)] in
                   (case se_migrate env of
                      Some e \<Rightarrow> (Some (OpenDatabase e), es @ [DbClosed])
                    | None \<Rightarrow> (None, es @ [Migrated])))))"

text \<open>\<^verbatim>\<open>main\<close>: the exit status and the events, the deferred calls at their places.\<close>

definition main_serve :: "'c start_env \<Rightarrow> start_error option \<times> start_event list" where
  "main_serve env =
    (case se_listen env of
       Some (clean, e) \<Rightarrow> (if clean then None else Some (ServeFailed e), [])
     | None \<Rightarrow> (map_option ServeFailed (se_shutdown env), [ShutDown]))"

definition main_body :: "('a dsn_config_scheme) start_env \<Rightarrow> string \<Rightarrow> string \<Rightarrow> start_error option \<times> start_event list" where
  "main_body env config_path listen =
    (case load_config env config_path of
       Inl e \<Rightarrow> (Some e, [])
     | Inr cfg \<Rightarrow>
         (case open_db env cfg of
            (Some e, es) \<Rightarrow> (Some e, es)
          | (None, es) \<Rightarrow>
              let serving = Serving listen (new_server (se_sha env) (Some cfg)) (new_call_logger (detail_retain cfg));
                  (err, more) = main_serve env in
              (err, es @ [serving] @ more @ [DbClosed])))"

definition main_run :: "('a dsn_config_scheme) start_env \<Rightarrow> int \<times> start_event list" where
  "main_run env =
    (let config_path = env_or (se_env env) ''NANOLLM_CONFIG'' ''config.yaml'';
         listen = env_or (se_env env) ''NANOLLM_LISTEN'' '':8080'' in
     case se_flags env of
       Inl status \<Rightarrow> (status, [])
     | Inr fl \<Rightarrow>
         let (err, es) = main_body env (the_or config_path (flag_config fl)) (the_or listen (flag_listen fl)) in
         (case err of None \<Rightarrow> (0, es) | Some e \<Rightarrow> (1, es @ [ExitedWith e])))"

subsection \<open>Laws\<close>

lemma normalized_dsn:
  assumes "normalize_mysql_dsn parse app format dsn = Inr s"
  shows "\<exists>cfg cfg' params. parse dsn = Inr cfg \<and>
    app (cfg\<lparr>dsn_parse_time := True, dsn_loc := ''UTC''\<rparr>) = Inr cfg' \<and>
    s = format (cfg'\<lparr>dsn_params := Some params\<rparr>) \<and> \<not> mhas params ''charset'' \<and>
    mget params ''time_zone'' = [CHR 0x27] @ ''UTC'' @ [CHR 0x27]"
proof -
  obtain cfg cfg' where c: "parse dsn = Inr cfg" "app (cfg\<lparr>dsn_parse_time := True, dsn_loc := ''UTC''\<rparr>) = Inr cfg'"
    using assms by (auto simp: normalize_mysql_dsn_def split: sum.splits)
  let ?p = "mset_key ''time_zone'' ([CHR 0x27] @ ''UTC'' @ [CHR 0x27]) (AList.delete ''charset'' (the_or [] (dsn_params cfg')))"
  have "s = format (cfg'\<lparr>dsn_params := Some ?p\<rparr>)" using assms c by (simp add: normalize_mysql_dsn_def Let_def)
  moreover have "\<not> mhas ?p ''charset''" "mget ?p ''time_zone'' = [CHR 0x27] @ ''UTC'' @ [CHR 0x27]"
    by (simp_all add: mhas_def delete_conv')
  ultimately show ?thesis using c by blast
qed

lemma load_config_valid:
  "load_config env path = Inr cfg \<Longrightarrow>
    \<exists>c0. validate (se_url_parse env) (\<lambda>d. \<not> isl (se_normalize env d)) (Some c0) = Inr cfg"
  by (auto simp: load_config_def split: sum.splits)

lemma loaded_dsn: "load_config env path = Inr cfg \<Longrightarrow> \<exists>s. se_normalize env (DSN cfg) = Inr s"
proof -
  assume "load_config env path = Inr cfg"
  then obtain c0 where c: "cfg = trim_username c0" "\<not> isl (se_normalize env (DSN c0))"
    using load_config_valid [of env path cfg] by (auto simp: validate_iff well_formed_def)
  then have "DSN cfg = DSN c0" by (simp add: trim_username_def)
  with c(2) show ?thesis by (cases "se_normalize env (DSN c0)") simp_all
qed

text \<open>
  What the configuration check promises \<^verbatim>\<open>openDB\<close>: a loaded configuration never fails there on its DSN, and
  a database that was opened and given its pool is closed exactly once, whatever happens afterwards.
\<close>

lemma main_body_closes:
  assumes "main_body env path listen = (err, es)" "se_pool env = None"
  shows "(\<exists>d. DbOpened d \<in> set es) = (DbClosed \<in> set es) \<and> length (filter ((=) DbClosed) es) \<le> 1 \<and>
    (\<forall>e. err \<noteq> Some (InvalidDsn e)) \<and> (DbClosed \<in> set es \<longrightarrow> last es = DbClosed)"
proof (cases "load_config env path")
  case (Inl e)
  then show ?thesis using assms by (auto simp: main_body_def load_config_def split: sum.splits)
next
  case (Inr cfg)
  obtain s where "se_normalize env (DSN cfg) = Inr s" using loaded_dsn [OF Inr] by blast
  then show ?thesis
    using assms Inr
    by (auto simp: main_body_def open_db_def main_serve_def Let_def split: option.splits if_splits)
qed

text \<open>The status: zero exactly when the configuration loads, the database opens and serving ends cleanly.\<close>

lemma main_run_status:
  assumes "se_flags env = Inr fl" "main_run env = (status, es)"
  shows "status = (if (\<exists>e. ExitedWith e \<in> set es) then 1 else 0) \<and>
    (status = 0 \<longrightarrow> (\<exists>l srv lg. Serving l srv lg \<in> set es))"
proof -
  have none: "ExitedWith e \<notin> set es'" "err = None \<Longrightarrow> \<exists>l srv lg. Serving l srv lg \<in> set es'"
    if "main_body env path listen = (err, es')" for path listen err es' e
    using that
    by (auto simp: main_body_def open_db_def main_serve_def Let_def split: option.splits sum.splits if_splits prod.splits)
  show ?thesis
    using assms none
    by (auto simp: main_run_def Let_def split: option.splits prod.splits)
qed

end
